(* ===== verification/GM_Prelude.thy ===== *)
theory GM_Prelude
  imports Main "HOL-Library.Multiset" "HOL-Library.List_Lexorder" "HOL-Library.Char_ord"
    "HOL-Library.Product_Lexorder"
begin

text \<open>
  Shared vocabulary of the development: the collections of facts that carry the component
  proofs, and the generic facts on lists, lookups and sorted lists the components share.
  Strings are Go strings, that is byte sequences, modelled as \<open>char list\<close>; they are compared
  bytewise, as Go and SQLite's BINARY collation do.
\<close>

named_theorems store_inv \<open>preservation of the store invariant by the store's operations\<close>
named_theorems frame_simps \<open>tables an operation leaves alone\<close>

section \<open>Lists\<close>

lemma find_Some_mem: "List.find P xs = Some x \<Longrightarrow> x \<in> set xs \<and> P x"
  by (induction xs) (auto split: if_splits)

lemma find_None_iff': "List.find P xs = None \<longleftrightarrow> (\<forall>x\<in>set xs. \<not> P x)"
  by (induction xs) auto

lemma find_cong_on: "(\<And>x. x \<in> set xs \<Longrightarrow> P x = Q x) \<Longrightarrow> List.find P xs = List.find Q xs"
  by (induction xs) auto

lemma find_distinct_key:
  assumes "distinct (map key xs)" and "x \<in> set xs"
  shows "List.find (\<lambda>r. key r = key x) xs = Some x"
  using assms by (induction xs) auto

lemma filter_distinct_key:
  assumes "distinct (map key xs)" and "x \<in> set xs"
  shows "filter (\<lambda>r. key r = key x) xs = [x]"
  using assms
proof (induction xs)
  case (Cons y ys)
  show ?case
  proof (cases "key y = key x")
    case True
    with Cons.prems have "x = y" by (metis distinct.simps(2) image_eqI list.set_map list.simps(9) set_ConsD)
    with Cons.prems show ?thesis by (auto simp: filter_empty_conv) (metis image_eqI)
  qed (use Cons in auto)
qed simp

lemma filter_key_absent: "k \<notin> key ` set xs \<Longrightarrow> filter (\<lambda>r. key r = k) xs = []"
  by (auto simp: filter_empty_conv)

section \<open>Sorted lists\<close>

lemma sort_key_perm_unique:
  assumes "mset xs = mset ys" and "inj_on key (set xs)"
  shows "sort_key key xs = sort_key key ys"
  by (rule sort_key_inj_key_eq) (use assms in simp_all)

section \<open>Polling\<close>

text \<open>
  A loop that polls until something happens or a deadline has passed, with fuel: \<open>late k\<close> says that the clock has
  passed the deadline at the \<open>k\<close>-th look. Each turn gives a result or looks again, and more fuel changes nothing.
\<close>

locale polling =
  fixes loop :: "nat \<Rightarrow> nat \<Rightarrow> 'r option" and late :: "nat \<Rightarrow> bool"
  assumes stops: "late k \<Longrightarrow> loop (Suc fuel) k \<noteq> None"
    and turn: "loop (Suc fuel) k = None \<Longrightarrow> loop fuel (Suc k) = None"
    and grows: "loop fuel k = Some r \<Longrightarrow> loop (Suc fuel) k = Some r"
begin

lemma more: "loop fuel k = Some r \<Longrightarrow> loop (fuel + n) k = Some r"
  by (induction n) (simp_all add: grows)

lemma ends: "late (k + n) \<Longrightarrow> loop (Suc n) k \<noteq> None"
proof (induction n arbitrary: k)
  case 0
  then show ?case using stops by simp
next
  case (Suc n)
  then have "loop (Suc n) (Suc k) \<noteq> None" by (intro Suc.IH) simp
  with turn [of "Suc n" k] show ?case by blast
qed

lemma settles: "late n \<Longrightarrow> \<exists>r. \<forall>m. loop (Suc n + m) 0 = Some r"
  using ends [of 0 n] more [of "Suc n" 0] by auto

end

text \<open>A clock that advances by the pause in each turn passes any deadline.\<close>

lemma ticking:
  assumes "\<And>k. now (Suc k) + pause \<le> (now (Suc (Suc k)) :: int)"
  shows "now (Suc 0) + int n * pause \<le> now (Suc n)"
proof (induction n)
  case (Suc n)
  with assms [of n] show ?case by (simp add: algebra_simps)
qed simp

lemma ticking_late:
  assumes "\<And>k. now (Suc k) + pause \<le> (now (Suc (Suc k)) :: int)" and "deadline - now (Suc 0) \<le> int n * pause"
  shows "\<not> now (Suc n) < deadline"
  using ticking [of now pause n, OF assms(1)] assms(2) by simp

end
