(* ===== verification/Go_Text.thy ===== *)
theory Go_Text
  imports GM_Prelude
begin

text \<open>
  What the program uses of Go's \<open>strings\<close>, \<open>unicode\<close> and \<open>unicode/utf8\<close> packages. A Go string is
  its bytes (\<open>char list\<close>); \<open>decode_rune\<close> is \<open>utf8.DecodeRuneInString\<close> and splits a string into the
  chunks a \<open>for range\<close> loop visits. The Unicode tables above Latin-1 are the fields of a record.
\<close>

section \<open>UTF-8\<close>

definition byte_of :: "char \<Rightarrow> nat" where
  "byte_of c = of_char c"

definition is_cont :: "nat \<Rightarrow> bool" where
  "is_cont b \<longleftrightarrow> 128 \<le> b \<and> b \<le> 191"

definition rune_error :: nat where
  "rune_error = 65533"

text \<open>The ranges the second byte of a sequence may take, by its first byte.\<close>

definition second_ok :: "nat \<Rightarrow> nat \<Rightarrow> bool" where
  "second_ok b0 b1 \<longleftrightarrow>
     (if b0 = 224 then 160 \<le> b1 \<and> b1 \<le> 191
      else if b0 = 237 then 128 \<le> b1 \<and> b1 \<le> 159
      else if b0 = 240 then 144 \<le> b1 \<and> b1 \<le> 191
      else if b0 = 244 then 128 \<le> b1 \<and> b1 \<le> 143
      else is_cont b1)"

text \<open>\<open>decode_rune s\<close>: the rune \<open>s\<close> starts with and its width; an invalid byte is the error
  rune of width 1, the empty string the error rune of width 0.\<close>

definition decode_rune :: "string \<Rightarrow> nat \<times> nat" where
  "decode_rune s = (case map byte_of (take 4 s) of
     [] \<Rightarrow> (rune_error, 0)
   | b0 # bs \<Rightarrow>
       if b0 < 128 then (b0, 1)
       else if b0 < 194 \<or> 244 < b0 then (rune_error, 1)
       else (case bs of
         [] \<Rightarrow> (rune_error, 1)
       | b1 # bs' \<Rightarrow>
           if \<not> second_ok b0 b1 then (rune_error, 1)
           else if b0 < 224 then ((b0 mod 32) * 64 + b1 mod 64, 2)
           else (case bs' of
             [] \<Rightarrow> (rune_error, 1)
           | b2 # bs'' \<Rightarrow>
               if \<not> is_cont b2 then (rune_error, 1)
               else if b0 < 240 then ((b0 mod 16) * 4096 + (b1 mod 64) * 64 + b2 mod 64, 3)
               else (case bs'' of
                 [] \<Rightarrow> (rune_error, 1)
               | b3 # _ \<Rightarrow>
                   if \<not> is_cont b3 then (rune_error, 1)
                   else ((b0 mod 8) * 262144 + (b1 mod 64) * 4096 + (b2 mod 64) * 64 + b3 mod 64, 4)))))"

definition valid_rune :: "nat \<Rightarrow> bool" where
  "valid_rune r \<longleftrightarrow> r < 55296 \<or> 57344 \<le> r \<and> r \<le> 1114111"

definition encode_rune :: "nat \<Rightarrow> string" where
  "encode_rune r0 = (let r = (if valid_rune r0 then r0 else rune_error) in
     map char_of
      (if r < 128 then [r]
       else if r < 2048 then [192 + r div 64, 128 + r mod 64]
       else if r < 65536 then [224 + r div 4096, 128 + r div 64 mod 64, 128 + r mod 64]
       else [240 + r div 262144, 128 + r div 4096 mod 64, 128 + r div 64 mod 64, 128 + r mod 64]))"

lemma decode_rune_width: "s \<noteq> [] \<Longrightarrow> 0 < snd (decode_rune s) \<and> snd (decode_rune s) \<le> length s"
  by (cases s; cases "tl s"; cases "tl (tl s)"; cases "tl (tl (tl s))")
     (auto simp: decode_rune_def split: list.splits)

text \<open>The chunks of a string: the bytes of each rune in turn.\<close>

function chunks :: "string \<Rightarrow> string list" where
  "chunks s = (if s = [] then []
     else take (snd (decode_rune s)) s # chunks (drop (snd (decode_rune s)) s))"
  by pat_completeness auto
termination
  by (relation "measure length") (auto simp: decode_rune_width)

declare chunks.simps [simp del]

lemma chunks_Nil [simp]: "chunks [] = []"
  by (simp add: chunks.simps)

lemma chunks_code [code]:
  "chunks [] = []"
  "chunks (c # s) = (let w = snd (decode_rune (c # s)) in take w (c # s) # chunks (drop w (c # s)))"
  by (simp, subst chunks.simps, simp add: Let_def)

lemma concat_chunks [simp]: "concat (chunks s) = s"
  by (induction s rule: chunks.induct) (subst chunks.simps, auto)

definition chunk_rune :: "string \<Rightarrow> nat" where
  "chunk_rune c = fst (decode_rune c)"

text \<open>\<open>[]rune(s)\<close>, \<open>string(runes)\<close> and \<open>utf8.RuneCountInString\<close>.\<close>

definition runes :: "string \<Rightarrow> nat list" where
  "runes s = map chunk_rune (chunks s)"

definition string_of_runes :: "nat list \<Rightarrow> string" where
  "string_of_runes rs = concat (map encode_rune rs)"

definition rune_count :: "string \<Rightarrow> nat" where
  "rune_count s = length (chunks s)"


lemma byte_of_char_of [simp]: "byte_of (char_of n) = n mod 256"
  by (simp add: byte_of_def)

lemma byte_of_less [simp]: "byte_of c < 256"
  by (simp add: byte_of_def)

lemma char_of_byte_of [simp]: "char_of (byte_of c) = c"
  by (simp add: byte_of_def)

lemma mod_offset: "a < m \<Longrightarrow> (k * m + a) mod m = (a::nat)"
  by simp

lemma cont_byte: "c < 64 \<Longrightarrow> (128 + c) mod 256 = 128 + c \<and> (128 + c) mod 64 = (c::nat)"
  using mod_offset [of c 64 2] by simp

lemma decode_two:
  assumes "2 \<le> a" "a < 32" "c < 64"
  shows "decode_rune (char_of (192 + a) # char_of (128 + c) # s) = (a * 64 + c, 2)"
proof -
  have "(192 + a) mod 256 = 192 + a" "(192 + a) mod 32 = a"
    using assms mod_offset [of a 32 6] by simp_all
  with assms cont_byte show ?thesis by (auto simp: decode_rune_def second_ok_def is_cont_def)
qed

lemma decode_three:
  assumes "a < 16" "b < 64" "c < 64" "a = 0 \<Longrightarrow> 32 \<le> b" "a = 13 \<Longrightarrow> b < 32"
  shows "decode_rune (char_of (224 + a) # char_of (128 + b) # char_of (128 + c) # s)
    = (a * 4096 + b * 64 + c, 3)"
proof -
  have "(224 + a) mod 256 = 224 + a" "(224 + a) mod 16 = a"
    using assms mod_offset [of a 16 14] by simp_all
  with assms cont_byte show ?thesis by (auto simp: decode_rune_def second_ok_def is_cont_def)
qed

lemma decode_four:
  assumes "a < 5" "b < 64" "c < 64" "d < 64" "a = 0 \<Longrightarrow> 16 \<le> b" "a = 4 \<Longrightarrow> b < 16"
  shows "decode_rune (char_of (240 + a) # char_of (128 + b) # char_of (128 + c) # char_of (128 + d) # s)
    = (a * 262144 + b * 4096 + c * 64 + d, 4)"
proof -
  have "(240 + a) mod 256 = 240 + a" "(240 + a) mod 8 = a"
    using assms mod_offset [of a 8 30] by simp_all
  with assms cont_byte show ?thesis by (auto simp: decode_rune_def second_ok_def is_cont_def)
qed

lemma decode_encode_rune:
  assumes "valid_rune r"
  shows "decode_rune (encode_rune r @ s) = (r, length (encode_rune r))"
proof -
  have div2: "r div 4096 = r div 64 div 64" "r div 262144 = r div 64 div 64 div 64"
    by (simp_all add: div_mult2_eq [symmetric])
  have split2: "r div 64 * 64 + r mod 64 = r" by simp
  have split3: "r div 4096 * 4096 + r div 64 mod 64 * 64 + r mod 64 = r"
    using div_mult_mod_eq [of "r div 64" 64] split2 unfolding div2 by linarith
  have split4: "r div 262144 * 262144 + r div 4096 mod 64 * 4096 + r div 64 mod 64 * 64 + r mod 64 = r"
    using div_mult_mod_eq [of "r div 64 div 64" 64] div_mult_mod_eq [of "r div 64" 64] split2
    unfolding div2 by linarith
  have small: "r div 64 mod 64 < 64" "r mod 64 < 64" "r div 4096 mod 64 < 64" by simp_all
  consider "r < 128" | "128 \<le> r" "r < 2048" | "2048 \<le> r" "r < 65536" | "65536 \<le> r" "r \<le> 1114111"
    using assms by (fastforce simp: valid_rune_def)
  then show ?thesis
  proof cases
    case 1
    then show ?thesis using assms by (simp add: encode_rune_def decode_rune_def)
  next
    case 2
    then have "2 \<le> r div 64" "r div 64 < 32" by auto
    from decode_two [OF this small(2), of s] 2 assms show ?thesis
      by (simp add: encode_rune_def)
  next
    case 3
    then have "r div 4096 < 16" by auto
    moreover have "r div 4096 = 0 \<Longrightarrow> 32 \<le> r div 64 mod 64" using 3 split3 small by linarith
    moreover have "r div 4096 = 13 \<Longrightarrow> r div 64 mod 64 < 32" using assms split3 small
      unfolding valid_rune_def by linarith
    ultimately show ?thesis using decode_three [of "r div 4096" "r div 64 mod 64" "r mod 64" s] small
        split3 3 assms by (simp add: encode_rune_def)
  next
    case 4
    then have "r div 262144 < 5" by auto
    moreover have "r div 262144 = 0 \<Longrightarrow> 16 \<le> r div 4096 mod 64" using 4 split4 small by linarith
    moreover have "r div 262144 = 4 \<Longrightarrow> r div 4096 mod 64 < 16" using 4 split4 small by linarith
    ultimately show ?thesis
      using decode_four [of "r div 262144" "r div 4096 mod 64" "r div 64 mod 64" "r mod 64" s] small
        split4 4 assms by (simp add: encode_rune_def)
  qed
qed

lemma encode_rune_nonempty [simp]: "encode_rune r \<noteq> []"
  by (simp add: encode_rune_def Let_def)

lemma chunks_encode_append:
  assumes "valid_rune r"
  shows "chunks (encode_rune r @ s) = encode_rune r # chunks s"
  by (subst chunks.simps) (simp add: decode_encode_rune assms)

lemma chunks_string_of_runes:
  "list_all valid_rune rs \<Longrightarrow> chunks (string_of_runes rs) = map encode_rune rs"
  by (induction rs) (simp_all add: string_of_runes_def chunks_encode_append)

lemma chunk_rune_encode [simp]: "valid_rune r \<Longrightarrow> chunk_rune (encode_rune r) = r"
  using decode_encode_rune [of r "[]"] by (simp add: chunk_rune_def)

lemma runes_string_of_runes: "list_all valid_rune rs \<Longrightarrow> runes (string_of_runes rs) = rs"
  by (simp add: runes_def chunks_string_of_runes map_idI list_all_iff)

section \<open>ASCII strings\<close>

definition is_ascii :: "string \<Rightarrow> bool" where
  "is_ascii s \<longleftrightarrow> list_all (\<lambda>c. byte_of c < 128) s"

lemma chunks_ascii_Cons: "byte_of c < 128 \<Longrightarrow> chunks (c # s) = [c] # chunks s"
  by (subst chunks.simps) (simp add: decode_rune_def)

lemma chunks_ascii: "is_ascii s \<Longrightarrow> chunks s = map (\<lambda>c. [c]) s"
  by (induction s) (simp_all add: is_ascii_def chunks_ascii_Cons)

lemma chunk_rune_ascii: "byte_of c < 128 \<Longrightarrow> chunk_rune [c] = byte_of c"
  by (simp add: chunk_rune_def decode_rune_def)

section \<open>Unicode classes\<close>

text \<open>
  The tables above Latin-1 (letters, digits) and above ASCII (case, printability), which the model
  does not compute: \<open>unicode.IsLetter\<close>, \<open>IsDigit\<close>, \<open>ToLower\<close>, \<open>ToUpper\<close> and \<open>strconv.IsPrint\<close> of
  the larger code points.
\<close>

record unicode =
  uc_letter :: "nat \<Rightarrow> bool"
  uc_digit :: "nat \<Rightarrow> bool"
  uc_lower :: "nat \<Rightarrow> nat"
  uc_upper :: "nat \<Rightarrow> nat"
  uc_print :: "nat \<Rightarrow> bool"

definition is_space_rune :: "nat \<Rightarrow> bool" where
  "is_space_rune r \<longleftrightarrow> r \<in> set [9, 10, 11, 12, 13, 32, 133, 160, 5760, 8232, 8233, 8239, 8287, 12288]
     \<or> 8192 \<le> r \<and> r \<le> 8202"

definition is_letter_rune :: "'u unicode_scheme \<Rightarrow> nat \<Rightarrow> bool" where
  "is_letter_rune u r \<longleftrightarrow>
     (if r < 256 then 65 \<le> r \<and> r \<le> 90 \<or> 97 \<le> r \<and> r \<le> 122 \<or> r = 170 \<or> r = 181 \<or> r = 186
        \<or> 192 \<le> r \<and> r \<noteq> 215 \<and> r \<noteq> 247
      else uc_letter u r)"

definition is_digit_rune :: "'u unicode_scheme \<Rightarrow> nat \<Rightarrow> bool" where
  "is_digit_rune u r \<longleftrightarrow> (if r < 256 then 48 \<le> r \<and> r \<le> 57 else uc_digit u r)"

definition lower_rune :: "'u unicode_scheme \<Rightarrow> nat \<Rightarrow> nat" where
  "lower_rune u r = (if r < 128 then (if 65 \<le> r \<and> r \<le> 90 then r + 32 else r) else uc_lower u r)"

definition upper_rune :: "'u unicode_scheme \<Rightarrow> nat \<Rightarrow> nat" where
  "upper_rune u r = (if r < 128 then (if 97 \<le> r \<and> r \<le> 122 then r - 32 else r) else uc_upper u r)"

definition to_lower :: "'u unicode_scheme \<Rightarrow> string \<Rightarrow> string" where
  "to_lower u s = string_of_runes (map (lower_rune u) (runes s))"

definition to_upper :: "'u unicode_scheme \<Rightarrow> string \<Rightarrow> string" where
  "to_upper u s = string_of_runes (map (upper_rune u) (runes s))"

text \<open>Code equations that decide the small runes first, so that evaluation never meets the large bounds.\<close>

lemma is_space_rune_code [code]:
  "is_space_rune r \<longleftrightarrow> (if r < 128 then r \<in> set [9, 10, 11, 12, 13, 32]
     else r \<in> set [133, 160, 5760, 8232, 8233, 8239, 8287, 12288] \<or> 8192 \<le> r \<and> r \<le> 8202)"
  by (auto simp: is_space_rune_def)

lemma encode_rune_code [code]:
  "encode_rune r0 = (if r0 < 128 then [char_of r0] else (let r = (if valid_rune r0 then r0 else rune_error) in
     map char_of
      (if r < 2048 then [192 + r div 64, 128 + r mod 64]
       else if r < 65536 then [224 + r div 4096, 128 + r div 64 mod 64, 128 + r mod 64]
       else [240 + r div 262144, 128 + r div 4096 mod 64, 128 + r div 64 mod 64, 128 + r mod 64])))"
  by (auto simp: encode_rune_def valid_rune_def rune_error_def Let_def)

section \<open>The strings package\<close>

text \<open>\<open>strings.TrimFunc\<close> and \<open>strings.TrimSpace\<close>: drop the runes of a class at both ends.\<close>

definition trim_func :: "(nat \<Rightarrow> bool) \<Rightarrow> string \<Rightarrow> string" where
  "trim_func p s = concat (rev (dropWhile (p \<circ> chunk_rune) (rev (dropWhile (p \<circ> chunk_rune) (chunks s)))))"

definition trim_space :: "string \<Rightarrow> string" where
  "trim_space s = trim_func is_space_rune s"

lemma drop_space_singletons:
  "is_ascii s \<Longrightarrow> dropWhile (p \<circ> chunk_rune) (map (\<lambda>c. [c]) s) = map (\<lambda>c. [c]) (dropWhile (p \<circ> byte_of) s)"
  by (induction s) (simp_all add: is_ascii_def chunk_rune_ascii)

lemma trim_func_ascii:
  assumes "is_ascii s"
  shows "trim_func p s = rev (dropWhile (p \<circ> byte_of) (rev (dropWhile (p \<circ> byte_of) s)))"
proof -
  have "is_ascii (rev (dropWhile (p \<circ> byte_of) s))"
    using assms by (auto simp: is_ascii_def list_all_iff dest: set_dropWhileD)
  then show ?thesis
    using assms by (simp add: trim_func_def chunks_ascii drop_space_singletons rev_map)
qed

lemmas trim_space_ascii = trim_func_ascii [of _ is_space_rune, folded trim_space_def]

text \<open>\<open>strings.Fields\<close>: the maximal runs of non-space runes.\<close>

function field_chunks :: "string list \<Rightarrow> string list" where
  "field_chunks cs = (case dropWhile (is_space_rune \<circ> chunk_rune) cs of
     [] \<Rightarrow> []
   | c # cs' \<Rightarrow> concat (c # takeWhile (Not \<circ> is_space_rune \<circ> chunk_rune) cs')
                 # field_chunks (dropWhile (Not \<circ> is_space_rune \<circ> chunk_rune) cs'))"
  by pat_completeness auto
termination
proof (relation "measure length", simp)
  fix cs c cs'
  assume *: "dropWhile (is_space_rune \<circ> chunk_rune) cs = c # cs'"
  have "length (c # cs') \<le> length cs"
    by (metis * length_dropWhile_le)
  moreover have "length (dropWhile (Not \<circ> is_space_rune \<circ> chunk_rune) cs') \<le> length cs'"
    by (rule length_dropWhile_le)
  ultimately show "(dropWhile (Not \<circ> is_space_rune \<circ> chunk_rune) cs', cs) \<in> measure length"
    by simp
qed

declare field_chunks.simps [simp del]

definition str_fields :: "string \<Rightarrow> string list" where
  "str_fields s = field_chunks (chunks s)"

definition has_prefix :: "string \<Rightarrow> string \<Rightarrow> bool" where
  "has_prefix p s \<longleftrightarrow> take (length p) s = p"

text \<open>\<open>strings.Index\<close>, with \<open>None\<close> for -1.\<close>

fun str_index :: "string \<Rightarrow> string \<Rightarrow> nat option" where
  "str_index p [] = (if p = [] then Some 0 else None)"
| "str_index p (c # s) = (if has_prefix p (c # s) then Some 0 else map_option Suc (str_index p s))"

definition str_contains :: "string \<Rightarrow> string \<Rightarrow> bool" where
  "str_contains p s \<longleftrightarrow> str_index p s \<noteq> None"

text \<open>\<open>strings.IndexByte\<close> and \<open>strings.IndexAny\<close> for ASCII sets.\<close>

fun index_any :: "string \<Rightarrow> string \<Rightarrow> nat option" where
  "index_any cs [] = None"
| "index_any cs (c # s) = (if c \<in> set cs then Some 0 else map_option Suc (index_any cs s))"

text \<open>\<open>strings.ReplaceAll\<close> for a one-byte \<open>old\<close>, the only kind the program uses.\<close>

definition replace_char :: "char \<Rightarrow> string \<Rightarrow> string \<Rightarrow> string" where
  "replace_char old new s = concat (map (\<lambda>c. if c = old then new else [c]) s)"

fun join_with :: "string \<Rightarrow> string list \<Rightarrow> string" where
  "join_with sep [] = []"
| "join_with sep [x] = x"
| "join_with sep (x # xs) = x @ sep @ join_with sep xs"

text \<open>\<open>strings.Split\<close> and \<open>strings.Cut\<close> at a one-byte separator.\<close>

fun split_char :: "char \<Rightarrow> string \<Rightarrow> string list" where
  "split_char sep [] = [[]]"
| "split_char sep (c # s) = (if c = sep then [] # split_char sep s
     else (case split_char sep s of [] \<Rightarrow> [[c]] | x # xs \<Rightarrow> (c # x) # xs))"

definition cut_char :: "char \<Rightarrow> string \<Rightarrow> (string \<times> string) option" where
  "cut_char sep s = (if sep \<in> set s
     then Some (takeWhile (\<lambda>c. c \<noteq> sep) s, tl (dropWhile (\<lambda>c. c \<noteq> sep) s)) else None)"

text \<open>\<open>strconv.Itoa\<close> and \<open>%d\<close>.\<close>

fun dec_nat :: "nat \<Rightarrow> string" where
  "dec_nat n = (if n < 10 then [char_of (48 + n)] else dec_nat (n div 10) @ [char_of (48 + n mod 10)])"

declare dec_nat.simps [simp del]

definition itoa :: "int \<Rightarrow> string" where
  "itoa i = (if i < 0 then CHR ''-'' # dec_nat (nat (- i)) else dec_nat (nat i))"

lemma has_prefix_append [simp]: "has_prefix p (p @ s)"
  by (simp add: has_prefix_def)

lemma has_prefix_iff: "has_prefix p s \<longleftrightarrow> (\<exists>t. s = p @ t)"
  by (auto simp: has_prefix_def) (metis append_take_drop_id)

lemma str_index_Some:
  "str_index p s = Some i \<Longrightarrow> i + length p \<le> length s \<and> take (length p) (drop i s) = p"
proof (induction s arbitrary: i)
  case (Cons c s)
  show ?case
  proof (cases "has_prefix p (c # s)")
    case True
    with Cons.prems have "i = 0" by simp
    with True show ?thesis unfolding has_prefix_def by (metis drop0 add_0 length_take min.cobounded1)
  qed (use Cons in auto)
qed (auto split: if_splits)

lemma str_index_append: "\<exists>i \<le> length a. str_index p (a @ p @ b) = Some i"
proof (induction a)
  case Nil
  have "str_index p (p @ b) = Some 0"
    by (cases "p @ b") (use has_prefix_append [of p b] in auto)
  then show ?case by simp
qed (auto simp: has_prefix_def)

lemma str_contains_iff: "str_contains p s \<longleftrightarrow> (\<exists>a b. s = a @ p @ b)"
proof
  assume "str_contains p s"
  then obtain i where "str_index p s = Some i" by (auto simp: str_contains_def)
  from str_index_Some [OF this] have "s = take i s @ p @ drop (i + length p) s"
    by (metis append_take_drop_id drop_drop add.commute)
  then show "\<exists>a b. s = a @ p @ b" by blast
next
  assume "\<exists>a b. s = a @ p @ b"
  then show "str_contains p s" using str_index_append by (fastforce simp: str_contains_def)
qed

section \<open>Quoting\<close>

text \<open>The verb \<open>%q\<close> for strings, \<open>strconv.Quote\<close>.\<close>

definition hex_digit :: "nat \<Rightarrow> char" where
  "hex_digit n = ''0123456789abcdef'' ! (n mod 16)"

fun hex_digits :: "nat \<Rightarrow> nat \<Rightarrow> string" where
  "hex_digits 0 n = ''''"
| "hex_digits (Suc w) n = hex_digits w (n div 16) @ [hex_digit n]"

definition backslash :: char where
  "backslash = CHR 92"

definition quote_chunk :: "'u unicode_scheme \<Rightarrow> string \<Rightarrow> string" where
  "quote_chunk u c = (let r = chunk_rune c in
     if r = rune_error \<and> length c = 1 then backslash # ''x'' @ concat (map (\<lambda>b. hex_digits 2 (byte_of b)) c)
     else if r = 34 \<or> r = 92 then [backslash, char_of r]
     else if (if r < 128 then 32 \<le> r \<and> r < 127 else uc_print u r) then c
     else if r = 7 then backslash # ''a'' else if r = 8 then backslash # ''b''
     else if r = 12 then backslash # ''f'' else if r = 10 then backslash # ''n''
     else if r = 13 then backslash # ''r'' else if r = 9 then backslash # ''t''
     else if r = 11 then backslash # ''v''
     else if r < 32 \<or> r = 127 then backslash # ''x'' @ hex_digits 2 r
     else if r < 65536 then backslash # ''u'' @ hex_digits 4 r
     else backslash # ''U'' @ hex_digits 8 r)"

definition go_quote :: "'u unicode_scheme \<Rightarrow> string \<Rightarrow> string" where
  "go_quote u s = [CHR 34] @ concat (map (quote_chunk u) (chunks s)) @ [CHR 34]"

end
