(* ===== verification/Sql_Table.thy ===== *)
theory Sql_Table
  imports Go_Text
begin

text \<open>
  The SQL the program's statements are written in, over tables that are lists of rows: lookup by
  primary key, INSERT ... ON CONFLICT DO UPDATE, UPDATE and DELETE ... WHERE, LEFT JOIN, ORDER BY
  with LIMIT, LIKE with an escape character and COLLATE NOCASE. The order in which the engine
  visits rows, which SQL leaves open, is a permutation the caller supplies. The locales state
  what a keyed table promises its clients; the store's tables interpret them.
\<close>

section \<open>Rows by key\<close>

definition row_with :: "('r \<Rightarrow> 'k) \<Rightarrow> 'k \<Rightarrow> 'r list \<Rightarrow> 'r option" where
  "row_with key k rows = List.find (\<lambda>r. key r = k) rows"

text \<open>INSERT ... ON CONFLICT(key) DO UPDATE, with \<open>merge old new\<close> the row the SET list makes.\<close>

fun upsert_row :: "('r \<Rightarrow> 'k) \<Rightarrow> ('r \<Rightarrow> 'r \<Rightarrow> 'r) \<Rightarrow> 'r \<Rightarrow> 'r list \<Rightarrow> 'r list" where
  "upsert_row key merge new [] = [new]"
| "upsert_row key merge new (r # rs) =
     (if key r = key new then merge r new # rs else r # upsert_row key merge new rs)"

definition update_where :: "('r \<Rightarrow> bool) \<Rightarrow> ('r \<Rightarrow> 'r) \<Rightarrow> 'r list \<Rightarrow> 'r list" where
  "update_where P f rows = map (\<lambda>r. if P r then f r else r) rows"

definition rows_affected :: "('r \<Rightarrow> bool) \<Rightarrow> 'r list \<Rightarrow> nat" where
  "rows_affected P rows = length (filter P rows)"

definition delete_where :: "('r \<Rightarrow> bool) \<Rightarrow> 'r list \<Rightarrow> 'r list" where
  "delete_where P rows = filter (\<lambda>r. \<not> P r) rows"

text \<open>LEFT JOIN: one output row per match, or one with NULLs when there is none.\<close>

definition left_join :: "('l \<Rightarrow> 'r \<Rightarrow> bool) \<Rightarrow> 'l list \<Rightarrow> 'r list \<Rightarrow> ('l \<times> 'r option) list" where
  "left_join on ls rs = concat (map (\<lambda>l. case filter (on l) rs of
      [] \<Rightarrow> [(l, None)] | ms \<Rightarrow> map (\<lambda>r. (l, Some r)) ms) ls)"

lemma row_with_Nil [simp]: "row_with key k [] = None"
  by (simp add: row_with_def)

lemma row_with_Cons [simp]:
  "row_with key k (r # rs) = (if key r = k then Some r else row_with key k rs)"
  by (simp add: row_with_def)

lemma row_with_Some: "row_with key k rows = Some r \<Longrightarrow> r \<in> set rows \<and> key r = k"
  by (auto simp: row_with_def dest: find_Some_mem)

lemma row_with_None: "row_with key k rows = None \<longleftrightarrow> k \<notin> key ` set rows"
  by (auto simp: row_with_def find_None_iff')

lemma row_with_mem:
  "distinct (map key rows) \<Longrightarrow> r \<in> set rows \<Longrightarrow> row_with key (key r) rows = Some r"
  unfolding row_with_def by (rule find_distinct_key)

lemma row_with_update:
  assumes "\<And>r. key (f r) = key r"
  shows "row_with key k (update_where P f rows)
    = map_option (\<lambda>r. if P r then f r else r) (row_with key k rows)"
  using assms by (induction rows) (auto simp: update_where_def)

lemma map_key_update:
  assumes "\<And>r. key (f r) = key r"
  shows "map key (update_where P f rows) = map key rows"
  using assms by (simp add: update_where_def)

lemma row_with_delete: "row_with key k (delete_where (\<lambda>r. key r = k') rows)
    = (if k = k' then None else row_with key k rows)"
  by (induction rows) (auto simp: delete_where_def)

lemma distinct_map_delete: "distinct (map key rows) \<Longrightarrow> distinct (map key (delete_where P rows))"
  by (simp add: delete_where_def distinct_map_filter)

lemma row_with_map:
  "(\<And>r. key' (g r) = key r) \<Longrightarrow> row_with key' k (map g rows) = map_option g (row_with key k rows)"
  by (induction rows) auto

lemma rows_affected_key:
  "distinct (map key rows) \<Longrightarrow> rows_affected (\<lambda>r. key r = k) rows = (if k \<in> key ` set rows then 1 else 0)"
  by (induction rows) (auto simp: rows_affected_def filter_key_absent)

lemma rows_affected_0: "rows_affected (\<lambda>r. key r = k) rows = 0 \<longleftrightarrow> row_with key k rows = None"
  by (induction rows) (auto simp: rows_affected_def)

lemma delete_absent: "k \<notin> key ` set rows \<Longrightarrow> delete_where (\<lambda>r. key r = k) rows = rows"
  unfolding delete_where_def by (rule filter_True) auto

lemma left_join_unique:
  assumes "\<And>l. l \<in> set ls \<Longrightarrow> filter (on l) rs = (case g l of None \<Rightarrow> [] | Some r \<Rightarrow> [r])"
  shows "left_join on ls rs = map (\<lambda>l. (l, g l)) ls"
  using assms by (induction ls) (auto simp: left_join_def split: option.splits)

lemma left_join_fst: "lr \<in> set (left_join on ls rs) \<Longrightarrow> fst lr \<in> set ls"
proof -
  have "fst x = l" if "x \<in> set (case filter (on l) rs of [] \<Rightarrow> [(l, None)] | ms \<Rightarrow> map (\<lambda>r. (l, Some r)) ms)" for x l
    using that by (cases "filter (on l) rs") auto
  then show "lr \<in> set (left_join on ls rs) \<Longrightarrow> fst lr \<in> set ls"
    by (fastforce simp: left_join_def)
qed

subsection \<open>What a table keyed by a primary key promises\<close>

locale keyed_table =
  fixes key :: "'r \<Rightarrow> 'k" and merge :: "'r \<Rightarrow> 'r \<Rightarrow> 'r"
  assumes merge_key: "key old = key new \<Longrightarrow> key (merge old new) = key new"
begin

lemma upsert_keys: "key ` set (upsert_row key merge r rows) = insert (key r) (key ` set rows)"
  by (induction rows) (auto simp: merge_key)

lemma upsert_distinct:
  "distinct (map key rows) \<Longrightarrow> distinct (map key (upsert_row key merge r rows))"
proof (induction rows)
  case (Cons x xs)
  have "key ` set (upsert_row key merge r xs) = insert (key r) (key ` set xs)"
    by (rule upsert_keys)
  with Cons show ?case by (auto simp: merge_key)
qed simp

lemma upsert_same:
  "row_with key (key r) (upsert_row key merge r rows)
    = Some (case row_with key (key r) rows of None \<Rightarrow> r | Some old \<Rightarrow> merge old r)"
  by (induction rows) (auto simp: merge_key)

lemma upsert_other:
  "k \<noteq> key r \<Longrightarrow> row_with key k (upsert_row key merge r rows) = row_with key k rows"
  by (induction rows) (auto simp: merge_key)

lemma upsert_length:
  "length (upsert_row key merge r rows) = (if key r \<in> key ` set rows then length rows else Suc (length rows))"
  by (induction rows) auto

lemma upsert_set:
  "distinct (map key rows) \<Longrightarrow> set (upsert_row key merge r rows)
    = insert (case row_with key (key r) rows of None \<Rightarrow> r | Some old \<Rightarrow> merge old r)
        {x \<in> set rows. key x \<noteq> key r}"
proof (induction rows)
  case (Cons x xs)
  from Cons.prems have "key x = key r \<Longrightarrow> y \<in> set xs \<Longrightarrow> key y \<noteq> key r" for y
    by (metis distinct.simps(2) image_eqI list.set_map list.simps(9))
  with Cons show ?case by (cases "key x = key r") auto
qed simp

end

locale idempotent_table = keyed_table +
  assumes merge_again: "key old = key new \<Longrightarrow> merge (merge old new) new = merge old new"
    and merge_self: "merge new new = new"
begin

lemma upsert_idem:
  "upsert_row key merge r (upsert_row key merge r rows) = upsert_row key merge r rows"
  by (induction rows) (auto simp: merge_key merge_again merge_self)

end

locale overwriting_table = keyed_table +
  assumes merge_new: "key old = key new \<Longrightarrow> merge old new = new"
begin

lemma upsert_stored: "row_with key (key r) (upsert_row key merge r rows) = Some r"
  by (auto simp: upsert_same merge_new split: option.split dest: row_with_Some)

lemma upsert_subset: "set (upsert_row key merge r rows) \<subseteq> insert r (set rows)"
  by (induction rows) (auto simp: merge_new)

lemma upsert_mset:
  "distinct (map key rows) \<Longrightarrow> mset (upsert_row key merge r rows)
    = add_mset r (mset (delete_where (\<lambda>x. key x = key r) rows))"
proof (induction rows)
  case (Cons x xs)
  show ?case
  proof (cases "key x = key r")
    case True
    with Cons.prems have "delete_where (\<lambda>y. key y = key r) xs = xs"
      by (intro delete_absent) auto
    with True show ?thesis by (simp add: merge_new delete_where_def)
  qed (use Cons in \<open>simp add: delete_where_def\<close>)
qed (simp add: delete_where_def)

end

sublocale overwriting_table \<subseteq> idempotent_table key merge
  by unfold_locales (simp_all add: merge_new)

locale keeping_table = keyed_table +
  assumes merge_old: "merge old new = old"
begin

lemma upsert_present: "key r \<in> key ` set rows \<Longrightarrow> upsert_row key merge r rows = rows"
  by (induction rows) (auto simp: merge_old)

lemma upsert_absent: "key r \<notin> key ` set rows \<Longrightarrow> upsert_row key merge r rows = rows @ [r]"
  by (induction rows) auto

end

section \<open>Visiting order, ORDER BY and LIMIT\<close>

text \<open>
  \<open>scan_rows p rows\<close>: the rows in the order of the positions \<open>p\<close>. Every visiting order an engine
  can take is some \<open>p\<close>; a \<open>p\<close> that is not a permutation of the positions is read as the table's
  own order, so a scan always yields the table's rows, each once.
\<close>

definition scan_rows :: "nat list \<Rightarrow> 'r list \<Rightarrow> 'r list" where
  "scan_rows p rows = (if sort p = [0..<length rows] then map ((!) rows) p else rows)"

definition sql_limit :: "int \<Rightarrow> 'r list \<Rightarrow> 'r list" where
  "sql_limit n rows = (if n < 0 then rows else take (nat n) rows)"

definition select_rows ::
  "nat list \<Rightarrow> ('r \<Rightarrow> bool) \<Rightarrow> ('r \<Rightarrow> 'o::linorder) \<Rightarrow> int \<Rightarrow> 'r list \<Rightarrow> 'r list" where
  "select_rows p P ord n rows = sql_limit n (sort_key ord (filter P (scan_rows p rows)))"

lemma mset_scan [simp]: "mset (scan_rows p rows) = mset rows"
proof (cases "sort p = [0..<length rows]")
  case True
  then have "mset p = mset [0..<length rows]" by (metis mset_sort)
  then have "image_mset ((!) rows) (mset p) = image_mset ((!) rows) (mset [0..<length rows])" by simp
  also have "\<dots> = mset (map ((!) rows) [0..<length rows])" by simp
  finally show ?thesis using True by (simp add: scan_rows_def map_nth del: mset_map flip: mset_map)
qed (simp add: scan_rows_def)

lemma set_scan [simp]: "set (scan_rows p rows) = set rows"
  using mset_scan by (metis set_mset_mset)

lemma length_scan [simp]: "length (scan_rows p rows) = length rows"
  using mset_scan by (metis size_mset)

lemma mset_filter_scan [simp]: "mset (filter P (scan_rows p rows)) = mset (filter P rows)"
  by simp

lemma distinct_scan: "distinct (map key rows) \<Longrightarrow> distinct (map key (scan_rows p rows))"
  by (rule mset_eq_imp_distinct_iff [THEN iffD1, of "map key rows"]) simp_all

lemma scan_id [simp]: "scan_rows [0..<length rows] rows = rows"
  by (simp add: scan_rows_def map_nth sorted_sort_id)

lemma filter_key_scan:
  assumes "distinct (map key rows)"
  shows "filter (\<lambda>r. key r = k) (scan_rows p rows) = (case row_with key k rows of None \<Rightarrow> [] | Some r \<Rightarrow> [r])"
proof (cases "row_with key k rows")
  case None
  then have "k \<notin> key ` set (scan_rows p rows)" by (simp add: row_with_None)
  from filter_key_absent [OF this] None show ?thesis by simp
next
  case (Some r)
  then have "r \<in> set (scan_rows p rows)" "key r = k" by (auto dest: row_with_Some)
  with filter_distinct_key [OF distinct_scan [OF assms], of r p] Some show ?thesis by simp
qed

text \<open>The abstract contract of ORDER BY \<open>ord\<close> LIMIT \<open>n\<close>: a page of the \<open>n\<close> least rows, in order.\<close>

definition page_of :: "('r \<Rightarrow> 'o::linorder) \<Rightarrow> nat \<Rightarrow> 'r list \<Rightarrow> 'r list \<Rightarrow> bool" where
  "page_of ord n rows out \<longleftrightarrow>
     sorted (map ord out) \<and> length out = min n (length rows)
     \<and> (\<exists>rest. mset rows = mset out + mset rest \<and> (\<forall>a\<in>set out. \<forall>b\<in>set rest. ord a \<le> ord b))"

lemma page_take_sort:
  assumes "mset xs = mset rows"
  shows "page_of ord n rows (take n (sort_key ord xs))"
proof -
  let ?s = "sort_key ord xs"
  have len: "length ?s = length rows" by (metis assms length_sort size_mset)
  have s: "sorted (map ord (take n ?s @ drop n ?s))" by simp
  then have le: "\<forall>a\<in>set (take n ?s). \<forall>b\<in>set (drop n ?s). ord a \<le> ord b"
    and srt: "sorted (map ord (take n ?s))"
    unfolding map_append sorted_append by auto
  have "mset rows = mset (take n ?s) + mset (drop n ?s)"
    by (metis append_take_drop_id assms mset_append mset_sort)
  with le srt len show ?thesis unfolding page_of_def by (auto simp: min.commute)
qed

lemma select_rows_page:
  "0 \<le> n \<Longrightarrow> page_of ord (nat n) (filter P rows) (select_rows p P ord n rows)"
  by (auto simp: select_rows_def sql_limit_def intro!: page_take_sort)

lemma page_of_subset: "page_of ord n rows out \<Longrightarrow> set out \<subseteq> set rows"
  unfolding page_of_def by (metis set_mset_mset set_mset_union Un_upper1)

lemma select_rows_subset: "set (select_rows p P ord n rows) \<subseteq> {r \<in> set rows. P r}"
  by (auto simp: select_rows_def sql_limit_def dest: in_set_takeD split: if_splits)

lemma page_of_map:
  "page_of ord n rows out \<Longrightarrow> (\<And>r. r \<in> set rows \<Longrightarrow> ord' (f r) = ord r)
    \<Longrightarrow> page_of ord' n (map f rows) (map f out)"
proof -
  assume p: "page_of ord n rows out" and eq: "\<And>r. r \<in> set rows \<Longrightarrow> ord' (f r) = ord r"
  from p obtain rest where m: "mset rows = mset out + mset rest"
    and le: "\<forall>a\<in>set out. \<forall>b\<in>set rest. ord a \<le> ord b"
    and s: "sorted (map ord out)" and l: "length out = min n (length rows)"
    by (auto simp: page_of_def)
  from m have sub: "set out \<subseteq> set rows" "set rest \<subseteq> set rows"
    by (metis set_mset_mset set_mset_union Un_upper1 Un_upper2)+
  have "map (ord' \<circ> f) out = map ord out" using sub eq by auto
  with s have "sorted (map ord' (map f out))" by (simp only: map_map)
  moreover have "mset (map f rows) = mset (map f out) + mset (map f rest)" using m by simp
  moreover have "\<forall>a\<in>set (map f out). \<forall>b\<in>set (map f rest). ord' a \<le> ord' b"
  proof (intro ballI)
    fix a b assume "a \<in> set (map f out)" "b \<in> set (map f rest)"
    then obtain x y where xy: "a = f x" "b = f y" "x \<in> set out" "y \<in> set rest" by auto
    with sub have "x \<in> set rows" "y \<in> set rows" by auto
    with xy le eq show "ord' a \<le> ord' b" by simp
  qed
  ultimately show ?thesis unfolding page_of_def using l by (metis length_map)
qed

section \<open>LIKE and NOCASE\<close>

definition ascii_lower :: "char \<Rightarrow> char" where
  "ascii_lower c = (if 65 \<le> byte_of c \<and> byte_of c \<le> 90 then char_of (byte_of c + 32) else c)"

definition nocase :: "string \<Rightarrow> string" where
  "nocase s = map ascii_lower s"

text \<open>One UTF-8 character, as SQLite skips it: a byte, then, after a lead byte, its continuations.\<close>

fun skip_char :: "string \<Rightarrow> string" where
  "skip_char [] = []"
| "skip_char (c # s) = (if 192 \<le> byte_of c then dropWhile (\<lambda>d. is_cont (byte_of d)) s else s)"

text \<open>\<open>s LIKE p ESCAPE '\'\<close>, case-insensitive for ASCII only.\<close>

definition esc_char :: char where
  "esc_char = CHR 92"

fun sql_like :: "string \<Rightarrow> string \<Rightarrow> bool" where
  "sql_like [] s = (s = [])"
| "sql_like (q # p) s =
     (if q = CHR ''%'' then sql_like p s \<or> (case s of [] \<Rightarrow> False | _ # s' \<Rightarrow> sql_like (q # p) s')
      else if q = CHR ''_'' then s \<noteq> [] \<and> sql_like p (skip_char s)
      else if q = esc_char then
        (case p of [] \<Rightarrow> False
         | q' # p' \<Rightarrow> (case s of [] \<Rightarrow> False | c # s' \<Rightarrow> ascii_lower q' = ascii_lower c \<and> sql_like p' s'))
      else (case s of [] \<Rightarrow> False | c # s' \<Rightarrow> ascii_lower q = ascii_lower c \<and> sql_like p s'))"

declare sql_like.simps(2) [simp del]

text \<open>Escaping the characters of a set by a backslash, and matching what was escaped.\<close>

definition escape_chars :: "char set \<Rightarrow> string \<Rightarrow> string" where
  "escape_chars X s = concat (map (\<lambda>c. if c \<in> X then [esc_char, c] else [c]) s)"

lemma esc_char_neq [simp]: "esc_char \<noteq> CHR ''%''" "esc_char \<noteq> CHR ''_''"
  by (simp_all add: esc_char_def)

lemma like_percent:
  "sql_like (CHR ''%'' # p) s \<longleftrightarrow> (\<exists>a t. s = a @ t \<and> sql_like p t)"
proof (induction s)
  case Nil
  then show ?case by (simp add: sql_like.simps)
next
  case (Cons c s)
  have "sql_like (CHR ''%'' # p) (c # s) \<longleftrightarrow> sql_like p (c # s) \<or> sql_like (CHR ''%'' # p) s"
    by (subst sql_like.simps) simp
  then show ?case unfolding Cons.IH by (auto simp: Cons_eq_append_conv)
qed

lemma like_plain:
  assumes "c \<noteq> CHR ''%''" "c \<noteq> CHR ''_''" "c \<noteq> esc_char"
  shows "sql_like (c # p) s \<longleftrightarrow> (case s of [] \<Rightarrow> False | d # s' \<Rightarrow> ascii_lower c = ascii_lower d \<and> sql_like p s')"
  by (subst sql_like.simps(2)) (simp only: assms if_False)

lemma like_percent_only [simp]: "sql_like ''%'' s"
  by (simp add: like_percent)

lemma like_escaped:
  assumes "{CHR ''%'', CHR ''_'', esc_char} \<inter> set q \<subseteq> X"
  shows "sql_like (escape_chars X q @ p) s \<longleftrightarrow> (\<exists>m t. s = m @ t \<and> nocase m = nocase q \<and> sql_like p t)"
  using assms
proof (induction q arbitrary: s)
  case Nil
  then show ?case by (simp add: escape_chars_def nocase_def)
next
  case (Cons c q)
  let ?rest = "escape_chars X q @ p"
  have one: "sql_like (escape_chars X (c # q) @ p) s \<longleftrightarrow>
      (\<exists>d s'. s = d # s' \<and> ascii_lower d = ascii_lower c \<and> sql_like ?rest s')"
  proof (cases "c \<in> X")
    case True
    then have pat: "escape_chars X (c # q) @ p = esc_char # c # ?rest" by (simp add: escape_chars_def)
    show ?thesis unfolding pat
      by (subst sql_like.simps(2)) (cases s, auto)
  next
    case False
    then have pat: "escape_chars X (c # q) @ p = c # ?rest" by (simp add: escape_chars_def)
    have "c \<notin> {CHR ''%'', CHR ''_'', esc_char}" using False Cons.prems by fastforce
    then have "c \<noteq> CHR ''%''" "c \<noteq> CHR ''_''" "c \<noteq> esc_char" by blast+
    from like_plain [OF this, of ?rest s] show ?thesis unfolding pat by (cases s) auto
  qed
  have IH: "\<And>s. sql_like (escape_chars X q @ p) s \<longleftrightarrow>
      (\<exists>m t. s = m @ t \<and> nocase m = nocase q \<and> sql_like p t)"
    by (rule Cons.IH) (use Cons.prems in fastforce)
  show ?case
  proof
    assume "sql_like (escape_chars X (c # q) @ p) s"
    then obtain d m t where "s = d # m @ t" "ascii_lower d = ascii_lower c" "nocase m = nocase q" "sql_like p t"
      unfolding one IH by blast
    then have "s = (d # m) @ t \<and> nocase (d # m) = nocase (c # q) \<and> sql_like p t"
      by (simp add: nocase_def)
    then show "\<exists>m t. s = m @ t \<and> nocase m = nocase (c # q) \<and> sql_like p t" by blast
  next
    assume "\<exists>m t. s = m @ t \<and> nocase m = nocase (c # q) \<and> sql_like p t"
    then show "sql_like (escape_chars X (c # q) @ p) s"
      unfolding one IH by (auto simp: nocase_def map_eq_Cons_conv) blast
  qed
qed

text \<open>A query wrapped in percent signs and escaped: a case-insensitive substring match.\<close>

definition contains_nocase :: "string \<Rightarrow> string \<Rightarrow> bool" where
  "contains_nocase q s \<longleftrightarrow> str_contains (nocase q) (nocase s)"

lemma contains_nocase_iff:
  "contains_nocase q s \<longleftrightarrow> (\<exists>a m b. s = a @ m @ b \<and> nocase m = nocase q)"
proof -
  have "(\<exists>x y. map ascii_lower s = x @ nocase q @ y) \<longleftrightarrow> (\<exists>a m b. s = a @ m @ b \<and> nocase m = nocase q)"
    unfolding nocase_def map_eq_append_conv append_eq_map_conv by metis
  then show ?thesis by (simp add: contains_nocase_def str_contains_iff nocase_def)
qed

lemma like_contains:
  assumes "{CHR ''%'', CHR ''_'', esc_char} \<inter> set q \<subseteq> X"
  shows "sql_like (''%'' @ escape_chars X q @ ''%'') s \<longleftrightarrow> contains_nocase q s"
proof -
  have "sql_like (''%'' @ escape_chars X q @ ''%'') s \<longleftrightarrow>
      (\<exists>a t. s = a @ t \<and> (\<exists>m u. t = m @ u \<and> nocase m = nocase q))"
    using like_escaped [OF assms, of "''%''"] by (simp add: like_percent)
  then show ?thesis unfolding contains_nocase_iff by auto
qed

end
