(* ===== verification/Store_Schema.thy ===== *)
theory Store_Schema
  imports Sql_Table
begin

text \<open>
  \<open>internal/store/schema.go\<close> and \<open>internal/store/store.go\<close>: the tables, the migrations that create
  them, the single-row freshness table and the errors of the package. \<open>env\<close> holds what one call
  meets outside the program: the clock, the SQLite driver's failures, the order rows are visited
  in, FTS5's matcher and the local time zone.
\<close>

section \<open>Errors\<close>

datatype err =
    ErrNotFound
  | ErrNoRows
  | ErrApprovalResolved
  | Driver string
  | Msg string
  | Wrap string err

text \<open>\<open>err.Error()\<close>, and \<open>errors.Is\<close>, which follows the \<open>%w\<close> chain.\<close>

fun err_text :: "err \<Rightarrow> string" where
  "err_text ErrNotFound = ''not found''"
| "err_text ErrNoRows = ''sql: no rows in result set''"
| "err_text ErrApprovalResolved = ''approval already resolved''"
| "err_text (Driver t) = t"
| "err_text (Msg t) = t"
| "err_text (Wrap p e) = p @ '': '' @ err_text e"

fun err_is :: "err \<Rightarrow> err \<Rightarrow> bool" where
  "err_is (Wrap p e) t = (Wrap p e = t \<or> err_is e t)"
| "err_is e t = (e = t)"

section \<open>The environment of a call\<close>

text \<open>One tag per SQL statement of the package.\<close>

datatype stmt =
    SVersion | SMigBegin nat | SMigExec nat | SMigCommit nat
  | SMarkSync | STouchSync | SSyncState
  | SUpsertConv | SGetConv | SCountConvs | SListConvs | SFindConvs
  | SEnsureConv | SUpsertMessage | SCountMessages | SCountMessagesConv | SListMessages
  | SGetMessage | SContextBefore | SContextAfter | SSearch | SSearchRich string
  | SUpsertContact | SCountContacts | SSearchContacts | SGetContact | SGetContactByNumber
  | SSetAlias | SRemoveAlias | SGetAlias | SListAliases
  | SCreateApproval | SGetApproval | SListApprovals | SResolveApproval

text \<open>A statement fails when it is run, or, for a query, after some of its rows were delivered.\<close>

datatype fault = AtQuery string | AtRow nat string

record env = unicode +
  now_ms :: int
  fault :: "stmt \<Rightarrow> fault option"
  visit :: "stmt \<Rightarrow> nat list"
  constraint_text :: "string \<Rightarrow> string"
  fts_match :: "string \<Rightarrow> string + (string \<Rightarrow> bool)"
  fts_snippet :: "string \<Rightarrow> nat \<Rightarrow> string \<Rightarrow> string"
  iso_local :: "int \<Rightarrow> string"

text \<open>A procedure that makes several store calls takes one environment per call, indexed by the call's
  position in it: \<open>here E\<close> is the environment of a call of the procedure itself, \<open>at E k\<close> those of the
  \<open>k\<close>-th procedure it calls.\<close>

type_synonym 'z calls = "nat list \<Rightarrow> 'z env_scheme"

definition here :: "'z calls \<Rightarrow> 'z env_scheme" where
  "here E = E []"

definition at :: "'z calls \<Rightarrow> nat \<Rightarrow> 'z calls" where
  "at E k = (\<lambda>p. E (k # p))"

text \<open>What \<open>ExecContext\<close> and \<open>QueryRowContext(...).Scan\<close> report of the driver.\<close>

definition exec_fault :: "'z env_scheme \<Rightarrow> stmt \<Rightarrow> string option" where
  "exec_fault e s = (case fault e s of None \<Rightarrow> None | Some (AtQuery t) \<Rightarrow> Some t | Some (AtRow _ t) \<Rightarrow> Some t)"

text \<open>\<open>QueryContext\<close> and the \<open>rows.Next\<close> loop: the error of the query itself, or the rows that
  arrived and \<open>rows.Err()\<close>.\<close>

definition query_rows :: "'z env_scheme \<Rightarrow> stmt \<Rightarrow> 'r list \<Rightarrow> string + ('r list \<times> string option)" where
  "query_rows e s rows = (case fault e s of
     None \<Rightarrow> Inr (rows, None)
   | Some (AtQuery t) \<Rightarrow> Inl t
   | Some (AtRow n t) \<Rightarrow> Inr (take n rows, Some t))"

text \<open>The common shape of the list queries: wrap the query's error, return \<open>rows.Err()\<close> bare.\<close>

definition list_rows :: "'z env_scheme \<Rightarrow> stmt \<Rightarrow> string \<Rightarrow> 'r list \<Rightarrow> err + 'r list" where
  "list_rows e s what rows = (case query_rows e s rows of
     Inl t \<Rightarrow> Inl (Wrap what (Driver t))
   | Inr (out, Some t) \<Rightarrow> Inl (Driver t)
   | Inr (out, None) \<Rightarrow> Inr out)"

text \<open>\<open>QueryRowContext(...).Scan\<close>: the first row, or \<open>sql.ErrNoRows\<close>.\<close>

definition query_row :: "'z env_scheme \<Rightarrow> stmt \<Rightarrow> 'r list \<Rightarrow> err + 'r" where
  "query_row e s rows = (case exec_fault e s of
     Some t \<Rightarrow> Inl (Driver t)
   | None \<Rightarrow> (case rows of [] \<Rightarrow> Inl ErrNoRows | r # _ \<Rightarrow> Inr r))"

text \<open>The recurring translation of \<open>sql.ErrNoRows\<close> into the package's \<open>ErrNotFound\<close>.\<close>

definition not_found :: "err + 'r \<Rightarrow> err + 'r" where
  "not_found r = (case r of Inl err \<Rightarrow> (if err_is err ErrNoRows then Inl ErrNotFound else Inl err) | Inr x \<Rightarrow> Inr x)"

definition no_fault :: "'z env_scheme \<Rightarrow> bool" where
  "no_fault e \<longleftrightarrow> (\<forall>s. fault e s = None)"

lemma no_fault_exec [simp]: "no_fault e \<Longrightarrow> exec_fault e s = None"
  by (simp add: no_fault_def exec_fault_def)

lemma no_fault_query [simp]: "no_fault e \<Longrightarrow> query_rows e s rows = Inr (rows, None)"
  by (simp add: no_fault_def query_rows_def)

lemma no_fault_list [simp]: "no_fault e \<Longrightarrow> list_rows e s w rows = Inr rows"
  by (simp add: list_rows_def)

lemma no_fault_row [simp]: "no_fault e \<Longrightarrow> query_row e s rows = (case rows of [] \<Rightarrow> Inl ErrNoRows | r # _ \<Rightarrow> Inr r)"
  by (simp add: query_row_def)

lemma list_rows_Inr: "list_rows e s w rows = Inr out \<Longrightarrow> out = rows"
  by (auto simp: list_rows_def query_rows_def split: sum.splits option.splits prod.splits fault.splits)

lemma query_row_Inr: "query_row e s rows = Inr r \<Longrightarrow> \<exists>rs. rows = r # rs"
  by (auto simp: query_row_def split: option.splits list.splits)

section \<open>The tables\<close>

record conv_row =
  c_id :: string
  c_platform :: string
  c_name :: string
  c_is_group :: int
  c_participants_json :: string
  c_last_message_ts :: int
  c_unread :: int
  c_pinned :: int
  c_archived :: int
  c_updated_at :: int

record msg_row =
  m_id :: string
  m_conv :: string
  m_platform :: string
  m_sender :: string
  m_body :: "string option"
  m_ts :: int
  m_status :: int
  m_from_me :: int
  m_media :: "string option"
  m_mime :: "string option"
  m_key :: "string option"
  m_reactions :: "string option"
  m_reply :: "string option"
  m_raw :: "string option"
  m_updated_at :: int

record contact_row =
  k_id :: string
  k_platform :: string
  k_contact_id :: string
  k_name :: string
  k_e164 :: string
  k_formatted :: string
  k_color :: string
  k_is_me :: int
  k_updated_at :: int

record alias_row =
  al_type :: string
  al_target :: string
  al_alias :: string
  al_updated_at :: int

record approval =
  ap_id :: string
  ap_conv :: string
  ap_body :: string
  ap_reply :: "string option"
  ap_by :: string
  ap_status :: string
  ap_error :: "string option"
  ap_message_id :: "string option"
  ap_created_at :: int
  ap_updated_at :: int

record sync_row =
  last_event_ts :: int
  last_connect_ts :: int
  sync_updated_at :: int

record db =
  db_tables :: "string list"
  db_versions :: "nat list"
  convs :: "conv_row list"
  msgs :: "msg_row list"
  fts :: "(string \<times> string) list"
  contacts :: "contact_row list"
  aliases :: "alias_row list"
  approvals :: "approval list"
  sync :: "sync_row option"

definition empty_db :: db where
  "empty_db = \<lparr>db_tables = [], db_versions = [], convs = [], msgs = [], fts = [], contacts = [],
     aliases = [], approvals = [], sync = None\<rparr>"

definition al_key :: "alias_row \<Rightarrow> string \<times> string" where
  "al_key a = (al_type a, al_target a)"

definition coalesce :: "string option \<Rightarrow> string \<Rightarrow> string" where
  "coalesce x d = (case x of None \<Rightarrow> d | Some v \<Rightarrow> v)"

text \<open>The row the FTS triggers keep for a message.\<close>

definition fts_of :: "msg_row \<Rightarrow> string \<times> string" where
  "fts_of m = (m_id m, coalesce (m_body m) '''')"

definition approval_statuses :: "string list" where
  "approval_statuses = [''pending'', ''sent'', ''failed'', ''denied'', ''canceled'']"

text \<open>
  The store's invariant: primary keys, the foreign key from messages to conversations, the FTS
  mirror in step with the messages, and the CHECK constraints.
\<close>

definition db_ok :: "db \<Rightarrow> bool" where
  "db_ok d \<longleftrightarrow>
     distinct (map c_id (convs d)) \<and> distinct (map m_id (msgs d)) \<and> distinct (map k_id (contacts d))
     \<and> distinct (map al_key (aliases d)) \<and> distinct (map ap_id (approvals d))
     \<and> m_conv ` set (msgs d) \<subseteq> c_id ` set (convs d)
     \<and> mset (fts d) = mset (map fts_of (msgs d))
     \<and> ap_status ` set (approvals d) \<subseteq> set approval_statuses
     \<and> al_type ` set (aliases d) \<subseteq> {''contact'', ''conversation''}"

lemma db_ok_empty [simp]: "db_ok empty_db"
  by (simp add: db_ok_def empty_db_def)

lemma db_okD:
  assumes "db_ok d"
  shows "distinct (map c_id (convs d))" "distinct (map m_id (msgs d))" "distinct (map k_id (contacts d))"
    "distinct (map al_key (aliases d))" "distinct (map ap_id (approvals d))"
    "m_conv ` set (msgs d) \<subseteq> c_id ` set (convs d)" "mset (fts d) = mset (map fts_of (msgs d))"
    "ap_status ` set (approvals d) \<subseteq> set approval_statuses"
    "al_type ` set (aliases d) \<subseteq> {''contact'', ''conversation''}"
  using assms by (simp_all add: db_ok_def)

lemma db_ok_sync [simp]: "db_ok (d\<lparr>sync := x\<rparr>) = db_ok d"
  by (simp add: db_ok_def)

lemma db_ok_aliases:
  assumes "db_ok d" and "distinct (map al_key as)" and "al_type ` set as \<subseteq> {''contact'', ''conversation''}"
  shows "db_ok (d\<lparr>aliases := as\<rparr>)"
  using assms by (simp add: db_ok_def)

lemma db_ok_contacts:
  assumes "db_ok d" and "distinct (map k_id cs)"
  shows "db_ok (d\<lparr>contacts := cs\<rparr>)"
  using assms by (simp add: db_ok_def)

lemma db_ok_convs:
  assumes "db_ok d" and "distinct (map c_id cs)" and "c_id ` set (convs d) \<subseteq> c_id ` set cs"
  shows "db_ok (d\<lparr>convs := cs\<rparr>)"
  using assms order_trans [OF db_okD(6) [OF assms(1)] assms(3)] by (simp add: db_ok_def)

lemma db_ok_approvals:
  assumes "db_ok d" and "distinct (map ap_id as)" and "ap_status ` set as \<subseteq> set approval_statuses"
  shows "db_ok (d\<lparr>approvals := as\<rparr>)"
  using assms by (simp add: db_ok_def)

lemma db_ok_msgs:
  assumes "db_ok d" and "distinct (map m_id ms)" and "m_conv ` set ms \<subseteq> c_id ` set (convs d)"
    and "mset fs = mset (map fts_of ms)"
  shows "db_ok (d\<lparr>msgs := ms, fts := fs\<rparr>)"
  using assms by (simp add: db_ok_def)

section \<open>Migrations\<close>

text \<open>Each migration: the names its script creates, in order, and the version it records.\<close>

definition migrations :: "(string list \<times> nat) list" where
  "migrations =
    [([''schema_version'', ''conversations'', ''ix_conversations_last_message_ts'', ''messages'',
       ''ix_messages_conv_ts'', ''ix_messages_ts'', ''ux_messages_source'', ''contacts'',
       ''ix_contacts_e164'', ''ix_contacts_name'', ''messages_fts'', ''messages_fts_ai'',
       ''messages_fts_ad'', ''messages_fts_au'', ''sync_state''], 1),
     ([''aliases''], 2),
     ([''approvals'', ''ix_approvals_status_created''], 3)]"

definition schema_version :: nat where
  "schema_version = 3"

fun create_all :: "string list \<Rightarrow> string list \<Rightarrow> string + string list" where
  "create_all ts [] = Inr ts"
| "create_all ts (n # ns) = (if n \<in> set ts then Inl (n @ '' already exists'') else create_all (ts @ [n]) ns)"

definition run_script :: "'z env_scheme \<Rightarrow> string list \<times> nat \<Rightarrow> db \<Rightarrow> string + db" where
  "run_script e mig d = (case create_all (db_tables d) (fst mig) of
     Inl t \<Rightarrow> Inl t
   | Inr ts \<Rightarrow>
       if snd mig \<in> set (db_versions d) then Inl (constraint_text e ''schema_version.version'')
       else Inr (d\<lparr>db_tables := ts, db_versions := db_versions d @ [snd mig],
         sync := (if ''sync_state'' \<in> set (fst mig)
           then Some \<lparr>last_event_ts = 0, last_connect_ts = 0, sync_updated_at = 0\<rparr> else sync d)\<rparr>))"

text \<open>\<open>currentVersion\<close>: a missing table is recognised by the driver's error text.\<close>

definition current_version :: "'z env_scheme \<Rightarrow> db \<Rightarrow> err + nat" where
  "current_version e d = (case (case exec_fault e SVersion of
        Some t \<Rightarrow> Some t
      | None \<Rightarrow> if ''schema_version'' \<in> set (db_tables d) then None
          else Some (''SQL logic error: no such table: schema_version (1)'')) of
     None \<Rightarrow> Inr (foldr max (db_versions d) 0)
   | Some t \<Rightarrow> if str_contains ''no such table'' t then Inr 0 else Inl (Driver t))"

text \<open>One migration runs in its own transaction; a failure rolls it back.\<close>

definition migrate_one :: "'z env_scheme \<Rightarrow> nat \<Rightarrow> string list \<times> nat \<Rightarrow> db \<Rightarrow> db \<times> err option" where
  "migrate_one e v mig d = (case exec_fault e (SMigBegin v) of
     Some t \<Rightarrow> (d, Some (Wrap (''begin migration v'' @ dec_nat v) (Driver t)))
   | None \<Rightarrow> (case (case exec_fault e (SMigExec v) of Some t \<Rightarrow> Inl t | None \<Rightarrow> run_script e mig d) of
       Inl t \<Rightarrow> (d, Some (Wrap (''apply migration v'' @ dec_nat v) (Driver t)))
     | Inr d' \<Rightarrow> (case exec_fault e (SMigCommit v) of
         Some t \<Rightarrow> (d, Some (Wrap (''commit migration v'' @ dec_nat v) (Driver t)))
       | None \<Rightarrow> (d', None))))"

fun migrate_from :: "'z env_scheme \<Rightarrow> nat \<Rightarrow> nat \<Rightarrow> (string list \<times> nat) list \<Rightarrow> db \<Rightarrow> db \<times> err option" where
  "migrate_from e current i [] d = (d, None)"
| "migrate_from e current i (mig # migs) d =
     (if i + 1 \<le> current then migrate_from e current (i + 1) migs d
      else (case migrate_one e (i + 1) mig d of
          (d', Some err) \<Rightarrow> (d', Some err)
        | (d', None) \<Rightarrow> migrate_from e current (i + 1) migs d'))"

definition migrate :: "'z env_scheme \<Rightarrow> db \<Rightarrow> db \<times> err option" where
  "migrate e d = (case current_version e d of
     Inl err \<Rightarrow> (d, Some err)
   | Inr current \<Rightarrow> migrate_from e current 0 migrations d)"

text \<open>A database on which exactly the first \<open>k\<close> migrations have been committed.\<close>

definition schema_at :: "nat \<Rightarrow> db \<Rightarrow> bool" where
  "schema_at k d \<longleftrightarrow> db_tables d = concat (map fst (take k migrations))
     \<and> db_versions d = map snd (take k migrations) \<and> (sync d \<noteq> None \<longleftrightarrow> 0 < k)"

section \<open>Freshness\<close>

text \<open>\<open>MarkSync\<close>; the zero \<open>time.Time\<close> reads as year 1 in milliseconds.\<close>

definition zero_time_ms :: int where
  "zero_time_ms = -62135596800000"

definition mark_sync :: "'z env_scheme \<Rightarrow> int \<Rightarrow> int \<Rightarrow> db \<Rightarrow> db \<times> err option" where
  "mark_sync e event_ms connect_ms d = (case exec_fault e SMarkSync of
     Some t \<Rightarrow> (d, Some (Driver t))
   | None \<Rightarrow> (d\<lparr>sync := map_option (\<lambda>r. \<lparr>last_event_ts = max (last_event_ts r) event_ms,
         last_connect_ts = max (last_connect_ts r) connect_ms, sync_updated_at = now_ms e\<rparr>) (sync d)\<rparr>, None))"

definition touch_sync :: "'z env_scheme \<Rightarrow> db \<Rightarrow> db \<times> err option" where
  "touch_sync e d = (case exec_fault e STouchSync of
     Some t \<Rightarrow> (d, Some (Driver t))
   | None \<Rightarrow> (d\<lparr>sync := map_option (\<lambda>r. r\<lparr>sync_updated_at := max (sync_updated_at r) (now_ms e)\<rparr>) (sync d)\<rparr>, None))"

definition sync_state :: "'z env_scheme \<Rightarrow> db \<Rightarrow> err + sync_row" where
  "sync_state e d = query_row e SSyncState (case sync d of None \<Rightarrow> [] | Some r \<Rightarrow> [r])"

definition bool_to_int :: "bool \<Rightarrow> int" where
  "bool_to_int b = (if b then 1 else 0)"

lemma bool_to_int_iff [simp]: "bool_to_int b \<noteq> 0 \<longleftrightarrow> b" "bool_to_int b = 0 \<longleftrightarrow> \<not> b" "bool_to_int b = 1 \<longleftrightarrow> b"
  by (simp_all add: bool_to_int_def)


text \<open>Migrating only creates tables: the rows stay.\<close>

definition same_rows :: "db \<Rightarrow> db \<Rightarrow> bool" where
  "same_rows d d' \<longleftrightarrow> convs d' = convs d \<and> msgs d' = msgs d \<and> fts d' = fts d \<and> contacts d' = contacts d
     \<and> aliases d' = aliases d \<and> approvals d' = approvals d"

lemma same_rows_refl [simp]: "same_rows d d"
  by (simp add: same_rows_def)

lemma same_rows_trans: "same_rows a b \<Longrightarrow> same_rows b c \<Longrightarrow> same_rows a c"
  by (simp add: same_rows_def)

lemma same_rows_ok: "same_rows d d' \<Longrightarrow> db_ok d \<Longrightarrow> db_ok d'"
  by (simp add: same_rows_def db_ok_def)

lemma take_migrations:
  "take 0 migrations = []" "take (Suc 0) migrations = [migrations ! 0]"
  "take 2 migrations = [migrations ! 0, migrations ! 1]"
  "take 3 migrations = [migrations ! 0, migrations ! 1, migrations ! 2]"
  by (simp_all add: migrations_def)

lemma run_next:
  assumes "schema_at k d" and "k < 3"
  shows "\<exists>d'. run_script e (migrations ! k) d = Inr d' \<and> schema_at (Suc k) d' \<and> same_rows d d'"
proof -
  from \<open>k < 3\<close> consider "k = 0" | "k = 1" | "k = 2" by linarith
  then show ?thesis
    using assms(1) by cases (simp_all add: schema_at_def run_script_def migrations_def same_rows_def)
qed

lemma run_again:
  assumes "schema_at k d" and "i < k" and "k \<le> 3"
  shows "\<exists>t. run_script e (migrations ! i) d = Inl t"
proof -
  from assms(2,3) consider "k = 1 \<and> i = 0" | "k = 2 \<and> i = 0" | "k = 2 \<and> i = 1"
    | "k = 3 \<and> i = 0" | "k = 3 \<and> i = 1" | "k = 3 \<and> i = 2" by linarith
  then show ?thesis
    using assms(1) by cases (simp_all add: schema_at_def run_script_def migrations_def)
qed

lemma migrate_one_cases:
  assumes "schema_at k d" and "i \<le> k" and "i < 3" and "k \<le> 3"
  shows "(\<exists>err. migrate_one e (i + 1) (migrations ! i) d = (d, Some err))
    \<or> (i = k \<and> (\<exists>d'. migrate_one e (i + 1) (migrations ! i) d = (d', None) \<and> schema_at (Suc k) d' \<and> same_rows d d'))"
    (is "?err \<or> ?ok")
    and "no_fault e \<Longrightarrow> i = k \<Longrightarrow> snd (migrate_one e (i + 1) (migrations ! i) d) = None"
proof -
  show "?err \<or> ?ok"
  proof (cases "i = k")
    case True
    with assms run_next [of k d e] show ?thesis
      by (auto simp: migrate_one_def split: option.splits)
  next
    case False
    with assms run_again [of k d i e] show ?thesis
      by (auto simp: migrate_one_def split: option.splits)
  qed
  show "no_fault e \<Longrightarrow> i = k \<Longrightarrow> snd (migrate_one e (i + 1) (migrations ! i) d) = None"
    using run_next [OF assms(1), of e] assms by (auto simp: migrate_one_def)
qed

lemma migrate_from_schema:
  assumes "schema_at k d" and "k \<le> 3" and "i \<le> k" and "current \<le> k" and "migs = drop i migrations"
  shows "\<exists>j. k \<le> j \<and> j \<le> 3 \<and> schema_at j (fst (migrate_from e current i migs d))
      \<and> same_rows d (fst (migrate_from e current i migs d))
      \<and> (snd (migrate_from e current i migs d) = None \<longrightarrow> j = 3)
      \<and> (no_fault e \<and> k \<le> max current i \<longrightarrow> snd (migrate_from e current i migs d) = None)"
  using assms
proof (induction migs arbitrary: i d k)
  case Nil
  then have "3 \<le> i" by (simp add: migrations_def split: if_splits)
  with Nil have "k = 3" by simp
  with Nil show ?case by auto
next
  case (Cons mig migs)
  then have i: "i < 3" by (cases "i < 3") (auto simp: migrations_def)
  then have "i < length migrations" by (simp add: migrations_def)
  with Cons.prems(5) have mig: "mig = migrations ! i" "migs = drop (Suc i) migrations"
    by (metis Cons_nth_drop_Suc list.inject)+
  show ?case
  proof (cases "i + 1 \<le> current")
    case True
    with Cons.prems have "Suc i \<le> k" by simp
    from Cons.IH [OF Cons.prems(1,2) this Cons.prems(4) mig(2)] True
    show ?thesis by (auto simp: max_def split: if_splits)
  next
    case False
    note one = migrate_one_cases(1) [OF Cons.prems(1,3) i Cons.prems(2), of e]
    note clean = migrate_one_cases(2) [OF Cons.prems(1,3) i Cons.prems(2), of e]
    show ?thesis
    proof (cases "snd (migrate_one e (i + 1) mig d)")
      case (Some err)
      with one mig False have eq: "migrate_from e current i (mig # migs) d = (d, Some err)"
        by (auto split: prod.splits)
      have "\<not> (no_fault e \<and> k \<le> max current i)"
        using Some clean mig False Cons.prems(3) by (auto simp: max_def split: if_splits)
      with eq Cons.prems show ?thesis by auto
    next
      case None
      with one mig obtain d' where d': "i = k" "migrate_one e (i + 1) mig d = (d', None)"
        "schema_at (Suc k) d'" "same_rows d d'" by auto
      have "Suc i \<le> Suc k" "Suc k \<le> 3" "current \<le> Suc k" using d'(1) i Cons.prems(4) by simp_all
      from Cons.IH [OF d'(3) this(2,1,3) mig(2)] False d' show ?thesis
        by (auto intro: same_rows_trans dest: Suc_leD)
    qed
  qed
qed

lemma schema_versions:
  assumes "schema_at k d" and "k \<le> 3"
  shows "foldr max (db_versions d) 0 = k"
    and "''schema_version'' \<in> set (db_tables d) \<longleftrightarrow> 0 < k"
proof -
  from assms(2) consider "k = 0" | "k = 1" | "k = 2" | "k = 3" by linarith
  then show "foldr max (db_versions d) 0 = k"
    using assms(1) by cases (simp_all add: schema_at_def migrations_def)
  have "''schema_version'' \<in> set (fst (migrations ! 0))" by (simp add: migrations_def)
  moreover have "take k migrations = (if k = 0 then [] else migrations ! 0 # take (k - 1) (drop 1 migrations))"
    by (cases k) (simp_all add: migrations_def)
  ultimately show "''schema_version'' \<in> set (db_tables d) \<longleftrightarrow> 0 < k"
    using assms(1) by (simp add: schema_at_def)
qed

lemma no_such_table: "str_contains ''no such table'' ''SQL logic error: no such table: schema_version (1)''"
proof -
  have "str_contains ''no such table'' (''SQL logic error: '' @ ''no such table'' @ '': schema_version (1)'')"
    unfolding str_contains_iff by blast
  then show ?thesis by (simp only: append.simps)
qed

lemma current_version_schema:
  assumes "schema_at k d" and "k \<le> 3"
  shows "current_version e d = Inr c \<Longrightarrow> c \<le> k"
    and "no_fault e \<Longrightarrow> current_version e d = Inr k"
  by (auto simp only: current_version_def schema_versions [OF assms] no_such_table no_fault_exec
      option.case sum.inject sum.distinct if_True le_refl le0 not_gr_zero if_cancel split: option.splits if_splits)

text \<open>Migrations leave a prefix of the schema, never half of one, and touch no row; success means the schema is current,
  and a driver that does not fail succeeds.\<close>

lemma migrate_reaches:
  assumes "schema_at k d" and "k \<le> 3"
  shows "\<exists>j. k \<le> j \<and> j \<le> 3 \<and> schema_at j (fst (migrate e d)) \<and> same_rows d (fst (migrate e d))
      \<and> (snd (migrate e d) = None \<longrightarrow> j = schema_version)
      \<and> (no_fault e \<longrightarrow> snd (migrate e d) = None)"
proof (cases "current_version e d")
  case (Inl err)
  with current_version_schema(2) [OF assms, of e] have "\<not> no_fault e" by auto
  with Inl assms show ?thesis by (auto simp: migrate_def intro!: exI [of _ k])
next
  case (Inr c)
  have c: "c \<le> k" by (rule current_version_schema(1) [OF assms Inr])
  have k: "no_fault e \<Longrightarrow> k \<le> max c 0" using current_version_schema(2) [OF assms, of e] Inr by simp
  have all: "migrations = drop 0 migrations" by (simp only: drop0)
  from migrate_from_schema [OF assms le0 c all, of e] k show ?thesis
    unfolding migrate_def schema_version_def Inr by auto
qed


section \<open>A concrete environment\<close>

text \<open>An environment in which nothing fails, for evaluating the model on concrete inputs: the clock
  stands at \<open>t\<close>, rows are visited in table order and FTS5 matches bodies that contain the query.\<close>

definition quiet_env :: "int \<Rightarrow> env" where
  "quiet_env t = \<lparr>uc_letter = (\<lambda>_. False), uc_digit = (\<lambda>_. False), uc_lower = (\<lambda>r. r), uc_upper = (\<lambda>r. r), uc_print = (\<lambda>_. True),
     now_ms = t, fault = (\<lambda>_. None), visit = (\<lambda>_. []), constraint_text = (\<lambda>c. c),
     fts_match = (\<lambda>q. Inr (str_contains q)), fts_snippet = (\<lambda>q n b. b), iso_local = itoa\<rparr>"

lemma no_fault_quiet [simp]: "no_fault (quiet_env t)"
  by (simp add: no_fault_def quiet_env_def)

lemma quiet_env_simps [simp]:
  "now_ms (quiet_env t) = t" "visit (quiet_env t) s = []" "fault (quiet_env t) s = None"
  "fts_match (quiet_env t) q = Inr (str_contains q)" "exec_fault (quiet_env t) s = None"
  by (simp_all add: quiet_env_def exec_fault_def)

text \<open>A migrated, empty store.\<close>

definition fresh_db :: db where
  "fresh_db = fst (migrate (quiet_env 0) empty_db)"

lemma fresh_db_rows: "same_rows empty_db fresh_db"
proof -
  have at0: "schema_at 0 empty_db" by (simp add: schema_at_def empty_db_def)
  have "migrations = drop 0 migrations" by (simp only: drop0)
  from migrate_from_schema [OF at0 _ le0 le0 this, of "quiet_env 0"]
    current_version_schema(2) [OF at0, of "quiet_env 0"]
  show ?thesis by (auto simp: fresh_db_def migrate_def)
qed

lemma db_ok_fresh [simp]: "db_ok fresh_db"
  by (rule same_rows_ok [OF fresh_db_rows db_ok_empty])

lemma fresh_db_simps [simp]:
  "convs fresh_db = []" "msgs fresh_db = []" "fts fresh_db = []" "contacts fresh_db = []"
  "aliases fresh_db = []" "approvals fresh_db = []"
  using fresh_db_rows by (simp_all add: same_rows_def empty_db_def)

end
