(* ===== verification/Store_Aliases.thy ===== *)
theory Store_Aliases
  imports Store_Schema
begin

text \<open>
  \<open>internal/store/aliases.go\<close>: local labels for contacts and conversations, keyed by target type
  and id.
\<close>

record alias_entry =
  ali_type :: string
  ali_id :: string
  ali_alias :: string
  ali_updated :: int

definition alias_contact :: string where
  "alias_contact = ''contact''"

definition alias_conversation :: string where
  "alias_conversation = ''conversation''"

definition alias_merge :: "alias_row \<Rightarrow> alias_row \<Rightarrow> alias_row" where
  "alias_merge old new = old\<lparr>al_alias := al_alias new, al_updated_at := al_updated_at new\<rparr>"

definition set_alias :: "'z env_scheme \<Rightarrow> string \<Rightarrow> string \<Rightarrow> string \<Rightarrow> db \<Rightarrow> db \<times> err option" where
  "set_alias e target id0 alias0 d = (let tid = trim_space id0; alias = trim_space alias0 in
     if tid = '''' then (d, Some (Msg ''target id is required''))
     else if alias = '''' then (d, Some (Msg ''alias is required (use RemoveAlias to delete)''))
     else if target \<noteq> alias_contact \<and> target \<noteq> alias_conversation
       then (d, Some (Msg (''unknown alias target '' @ go_quote e target)))
     else (case exec_fault e SSetAlias of
         Some t \<Rightarrow> (d, Some (Wrap ''set alias'' (Driver t)))
       | None \<Rightarrow> (d\<lparr>aliases := upsert_row al_key alias_merge
             \<lparr>al_type = target, al_target = tid, al_alias = alias, al_updated_at = now_ms e\<rparr> (aliases d)\<rparr>, None)))"

definition remove_alias :: "'z env_scheme \<Rightarrow> string \<Rightarrow> string \<Rightarrow> db \<Rightarrow> db \<times> err option" where
  "remove_alias e target tid d = (case exec_fault e SRemoveAlias of
     Some t \<Rightarrow> (d, Some (Driver t))
   | None \<Rightarrow> (let hit = (\<lambda>a. al_key a = (target, tid)) in
       (d\<lparr>aliases := delete_where hit (aliases d)\<rparr>,
        if rows_affected hit (aliases d) = 0 then Some ErrNotFound else None)))"

definition get_alias :: "'z env_scheme \<Rightarrow> string \<Rightarrow> string \<Rightarrow> db \<Rightarrow> err + string" where
  "get_alias e target tid d = not_found (query_row e SGetAlias
     (map al_alias (filter (\<lambda>a. al_key a = (target, tid)) (scan_rows (visit e SGetAlias) (aliases d)))))"

definition scan_alias :: "alias_row \<Rightarrow> alias_entry" where
  "scan_alias a = \<lparr>ali_type = al_type a, ali_id = al_target a, ali_alias = al_alias a, ali_updated = al_updated_at a\<rparr>"

definition list_aliases :: "'z env_scheme \<Rightarrow> db \<Rightarrow> err + alias_entry list" where
  "list_aliases e d = list_rows e SListAliases ''list aliases'' (map scan_alias
     (select_rows (visit e SListAliases) (\<lambda>_. True) (\<lambda>a. (al_type a, nocase (al_alias a))) (-1) (aliases d)))"

text \<open>\<open>DisplayName\<close>: the alias if one is set, otherwise the fallback.\<close>

definition display_name :: "'z env_scheme \<Rightarrow> string \<Rightarrow> string \<Rightarrow> string \<Rightarrow> db \<Rightarrow> string" where
  "display_name e target tid fallback d = (case get_alias e target tid d of
     Inr a \<Rightarrow> if a \<noteq> '''' then a else fallback
   | Inl _ \<Rightarrow> fallback)"

interpretation alias_table: overwriting_table al_key alias_merge
  by unfold_locales (auto simp: alias_merge_def al_key_def)

section \<open>Facts\<close>

text \<open>The alias of a target, as the joins of the other tables see it.\<close>

definition alias_of :: "db \<Rightarrow> string \<Rightarrow> string \<Rightarrow> string option" where
  "alias_of d target tid = map_option al_alias (row_with al_key (target, tid) (aliases d))"

lemma get_alias_eq:
  assumes "db_ok d" and "no_fault e"
  shows "get_alias e target tid d = (case alias_of d target tid of None \<Rightarrow> Inl ErrNotFound | Some a \<Rightarrow> Inr a)"
  using assms by (simp add: get_alias_def filter_key_scan [OF db_okD(4)] alias_of_def not_found_def split: option.split)

lemma set_alias_frame [frame_simps]:
  "convs (fst (set_alias e t i a d)) = convs d" "msgs (fst (set_alias e t i a d)) = msgs d"
  "fts (fst (set_alias e t i a d)) = fts d" "contacts (fst (set_alias e t i a d)) = contacts d"
  "approvals (fst (set_alias e t i a d)) = approvals d" "sync (fst (set_alias e t i a d)) = sync d"
  by (simp_all add: set_alias_def Let_def split: option.split)

lemma remove_alias_frame [frame_simps]:
  "convs (fst (remove_alias e t i d)) = convs d" "msgs (fst (remove_alias e t i d)) = msgs d"
  "fts (fst (remove_alias e t i d)) = fts d" "contacts (fst (remove_alias e t i d)) = contacts d"
  "approvals (fst (remove_alias e t i d)) = approvals d" "sync (fst (remove_alias e t i d)) = sync d"
  by (simp_all add: remove_alias_def Let_def split: option.split)

lemma set_alias_ok [store_inv]: "db_ok d \<Longrightarrow> db_ok (fst (set_alias e t i a d))"
proof -
  assume ok: "db_ok d"
  have "db_ok (d\<lparr>aliases := upsert_row al_key alias_merge r (aliases d)\<rparr>)"
    if "al_type r = alias_contact \<or> al_type r = alias_conversation" for r
    using that ok alias_table.upsert_subset [of r "aliases d"] db_okD(9) [OF ok]
    by (intro db_ok_aliases alias_table.upsert_distinct db_okD(4))
       (auto simp: alias_contact_def alias_conversation_def)
  with ok show ?thesis by (auto simp: set_alias_def Let_def split: option.split)
qed

lemma remove_alias_ok [store_inv]: "db_ok d \<Longrightarrow> db_ok (fst (remove_alias e t i d))"
proof -
  assume ok: "db_ok d"
  have "db_ok (d\<lparr>aliases := delete_where P (aliases d)\<rparr>)" for P
    using ok db_okD(9) [OF ok]
    by (intro db_ok_aliases distinct_map_delete db_okD(4)) (auto simp: delete_where_def)
  with ok show ?thesis by (auto simp: remove_alias_def Let_def split: option.split)
qed

lemma alias_of_set:
  assumes "no_fault e" and "trim_space tid \<noteq> ''''" and "trim_space alias \<noteq> ''''"
    and "target = alias_contact \<or> target = alias_conversation"
  shows "alias_of (fst (set_alias e target tid alias d)) t i
    = (if (t, i) = (target, trim_space tid) then Some (trim_space alias) else alias_of d t i)"
proof -
  let ?r = "\<lparr>al_type = target, al_target = trim_space tid, al_alias = trim_space alias, al_updated_at = now_ms e\<rparr>"
  have k: "al_key ?r = (target, trim_space tid)" by (simp add: al_key_def)
  have "aliases (fst (set_alias e target tid alias d)) = upsert_row al_key alias_merge ?r (aliases d)"
    using assms by (auto simp: set_alias_def Let_def)
  then show ?thesis
    using alias_table.upsert_stored [of ?r "aliases d"] alias_table.upsert_other [of "(t, i)" ?r "aliases d"]
    unfolding k alias_of_def by auto
qed

lemma alias_of_remove:
  assumes "no_fault e"
  shows "alias_of (fst (remove_alias e target tid d)) t i
    = (if (t, i) = (target, tid) then None else alias_of d t i)"
  using assms by (simp add: remove_alias_def Let_def alias_of_def row_with_delete)

text \<open>Setting an alias and then reading it back gives the trimmed label and leaves every other
  target's label alone; removing it makes the target fall back to its supplied name, and removing
  it again reports that nothing was set.\<close>

theorem alias_roundtrip:
  assumes "db_ok d" and "no_fault e" and "trim_space tid \<noteq> ''''" and "trim_space alias \<noteq> ''''"
    and "target = alias_contact \<or> target = alias_conversation"
  shows "let d1 = fst (set_alias e target tid alias d); d2 = fst (remove_alias e target (trim_space tid) d1) in
     snd (set_alias e target tid alias d) = None
     \<and> get_alias e t i d1 = (if (t, i) = (target, trim_space tid) then Inr (trim_space alias) else get_alias e t i d)
     \<and> display_name e target (trim_space tid) fallback d1 = trim_space alias
     \<and> snd (remove_alias e target (trim_space tid) d1) = None
     \<and> display_name e target (trim_space tid) fallback d2 = fallback
     \<and> snd (remove_alias e target (trim_space tid) d2) = Some ErrNotFound"
proof -
  define d1 where "d1 = fst (set_alias e target tid alias d)"
  define d2 where "d2 = fst (remove_alias e target (trim_space tid) d1)"
  have ok1: "db_ok d1" unfolding d1_def by (rule set_alias_ok [OF assms(1)])
  have ok2: "db_ok d2" unfolding d2_def by (rule remove_alias_ok [OF ok1])
  note a1 = alias_of_set [OF assms(2-5), where d = d, folded d1_def]
  note a2 = alias_of_remove [OF assms(2), of target "trim_space tid" d1, folded d2_def]
  have aff: "rows_affected (\<lambda>a. al_key a = (target, trim_space tid)) (aliases x) = 0
      \<longleftrightarrow> alias_of x target (trim_space tid) = None" for x
    by (simp add: rows_affected_0 alias_of_def)
  have "snd (set_alias e target tid alias d) = None"
    using assms(2-5) by (auto simp: set_alias_def Let_def)
  moreover have "get_alias e t i d1
      = (if (t, i) = (target, trim_space tid) then Inr (trim_space alias) else get_alias e t i d)"
    using assms(1,2) ok1 by (simp add: get_alias_eq a1)
  moreover have "display_name e target (trim_space tid) fallback d1 = trim_space alias"
    using assms(2,4) ok1 by (simp add: display_name_def get_alias_eq a1)
  moreover have "snd (remove_alias e target (trim_space tid) d1) = None"
    using assms(2) by (simp add: remove_alias_def Let_def aff a1)
  moreover have "display_name e target (trim_space tid) fallback d2 = fallback"
    using assms(2) ok2 by (simp add: display_name_def get_alias_eq a2)
  moreover have "snd (remove_alias e target (trim_space tid) d2) = Some ErrNotFound"
    using assms(2) by (simp add: remove_alias_def [of _ _ _ d2] Let_def aff a2)
  ultimately show ?thesis unfolding Let_def d1_def [symmetric] d2_def [symmetric] by blast
qed

theorem alias_roundtrip_witness:
  "let d1 = fst (set_alias (quiet_env 5) ''contact'' '' p1 '' ''Mum'' fresh_db);
       d2 = fst (remove_alias (quiet_env 5) ''contact'' (trim_space '' p1 '') d1) in
     snd (set_alias (quiet_env 5) ''contact'' '' p1 '' ''Mum'' fresh_db) = None
     \<and> get_alias (quiet_env 5) ''contact'' ''p2'' d1
         = (if (''contact'', ''p2'') = (''contact'', trim_space '' p1 '') then Inr (trim_space ''Mum'')
            else get_alias (quiet_env 5) ''contact'' ''p2'' fresh_db)
     \<and> display_name (quiet_env 5) ''contact'' (trim_space '' p1 '') ''+1555'' d1 = trim_space ''Mum''
     \<and> snd (remove_alias (quiet_env 5) ''contact'' (trim_space '' p1 '') d1) = None
     \<and> display_name (quiet_env 5) ''contact'' (trim_space '' p1 '') ''+1555'' d2 = ''+1555''
     \<and> snd (remove_alias (quiet_env 5) ''contact'' (trim_space '' p1 '') d2) = Some ErrNotFound"
proof -
  have "trim_space '' p1 '' = ''p1''" "trim_space ''Mum'' = ''Mum''"
    by (simp_all add: trim_space_ascii is_ascii_def byte_of_def is_space_rune_def)
  then have "trim_space '' p1 '' \<noteq> ''''" "trim_space ''Mum'' \<noteq> ''''" by simp_all
  from alias_roundtrip [OF db_ok_fresh no_fault_quiet this, of "''contact''" "5" "''contact''" "''p2''" "''+1555''"]
  show ?thesis by (simp only: alias_contact_def simp_thms)
qed

end
