(* ===== verification/Store_Conversations.thy ===== *)
theory Store_Conversations
  imports Store_Aliases
begin

text \<open>
  \<open>internal/store/conversations.go\<close>: the conversations table, its upsert, and the listing joined
  with the local aliases.
\<close>

record conversation =
  conv_id :: string
  conv_platform :: string
  conv_name :: string
  conv_alias :: string
  conv_is_group :: bool
  conv_participants :: string
  conv_last_ms :: int
  conv_unread :: bool
  conv_pinned :: bool
  conv_archived :: bool
  conv_updated :: int

definition platform_or_gm :: "string \<Rightarrow> string" where
  "platform_or_gm p = (if p = '''' then ''gm'' else p)"

definition nullable_json :: "string \<Rightarrow> string" where
  "nullable_json s = (if s = '''' then ''[]'' else s)"

text \<open>The row \<open>UpsertConversation\<close> inserts, and what its DO UPDATE SET makes of an existing one.\<close>

definition conv_row_of :: "int \<Rightarrow> conversation \<Rightarrow> conv_row" where
  "conv_row_of now c = \<lparr>c_id = conv_id c, c_platform = platform_or_gm (conv_platform c), c_name = conv_name c,
     c_is_group = bool_to_int (conv_is_group c), c_participants_json = nullable_json (conv_participants c),
     c_last_message_ts = conv_last_ms c, c_unread = bool_to_int (conv_unread c),
     c_pinned = bool_to_int (conv_pinned c), c_archived = bool_to_int (conv_archived c), c_updated_at = now\<rparr>"

definition conv_merge :: "conv_row \<Rightarrow> conv_row \<Rightarrow> conv_row" where
  "conv_merge old new = old\<lparr>c_platform := c_platform new, c_name := c_name new, c_is_group := c_is_group new,
     c_participants_json := c_participants_json new,
     c_last_message_ts := max (c_last_message_ts old) (c_last_message_ts new),
     c_unread := c_unread new, c_pinned := c_pinned new, c_archived := c_archived new,
     c_updated_at := c_updated_at new\<rparr>"

definition upsert_conversation :: "'z env_scheme \<Rightarrow> conversation \<Rightarrow> db \<Rightarrow> db \<times> err option" where
  "upsert_conversation e c d =
     (if conv_id c = '''' then (d, Some (Msg ''conversation id is required''))
      else (case exec_fault e SUpsertConv of
          Some t \<Rightarrow> (d, Some (Wrap (''upsert conversation '' @ conv_id c) (Driver t)))
        | None \<Rightarrow> (d\<lparr>convs := upsert_row c_id conv_merge (conv_row_of (now_ms e) c) (convs d)\<rparr>, None)))"

definition scan_conversation :: "conv_row \<times> alias_row option \<Rightarrow> conversation" where
  "scan_conversation ra = (case ra of (r, a) \<Rightarrow>
     \<lparr>conv_id = c_id r, conv_platform = c_platform r, conv_name = c_name r,
      conv_alias = coalesce (map_option al_alias a) '''', conv_is_group = (c_is_group r \<noteq> 0),
      conv_participants = c_participants_json r, conv_last_ms = c_last_message_ts r,
      conv_unread = (c_unread r \<noteq> 0), conv_pinned = (c_pinned r \<noteq> 0), conv_archived = (c_archived r \<noteq> 0),
      conv_updated = c_updated_at r\<rparr>)"

definition join_conv_aliases :: "conv_row list \<Rightarrow> db \<Rightarrow> (conv_row \<times> alias_row option) list" where
  "join_conv_aliases rows d = left_join (\<lambda>c a. al_key a = (''conversation'', c_id c)) rows (aliases d)"

definition get_conversation :: "'z env_scheme \<Rightarrow> string \<Rightarrow> db \<Rightarrow> err + conversation" where
  "get_conversation e cid d = query_row e SGetConv (map scan_conversation
     (filter (\<lambda>ra. c_id (fst ra) = cid) (scan_rows (visit e SGetConv) (join_conv_aliases (convs d) d))))"

definition count_conversations :: "'z env_scheme \<Rightarrow> db \<Rightarrow> err + nat" where
  "count_conversations e d = query_row e SCountConvs [length (convs d)]"

record list_conv_opts =
  lc_limit :: int
  lc_unread_only :: bool
  lc_pinned :: bool

definition limit_or :: "int \<Rightarrow> int \<Rightarrow> int" where
  "limit_or dflt n = (if n \<le> 0 then dflt else n)"

definition list_conv_where :: "list_conv_opts \<Rightarrow> conv_row \<times> alias_row option \<Rightarrow> bool" where
  "list_conv_where opts ra \<longleftrightarrow> (lc_unread_only opts \<longrightarrow> c_unread (fst ra) = 1) \<and> (lc_pinned opts \<longrightarrow> c_pinned (fst ra) = 1)"

definition list_conversations :: "'z env_scheme \<Rightarrow> list_conv_opts \<Rightarrow> db \<Rightarrow> err + conversation list" where
  "list_conversations e opts d = list_rows e SListConvs ''list conversations'' (map scan_conversation
     (select_rows (visit e SListConvs) (list_conv_where opts)
        (\<lambda>ra. (- c_last_message_ts (fst ra), - c_updated_at (fst ra)))
        (limit_or 50 (lc_limit opts)) (join_conv_aliases (convs d) d)))"

interpretation conv_table: idempotent_table c_id conv_merge
  by unfold_locales (simp_all add: conv_merge_def)

section \<open>Facts\<close>

lemma limit_or_pos: "0 < d \<Longrightarrow> 0 < limit_or d n"
  by (simp add: limit_or_def)

lemma conv_row_of_id [simp]: "c_id (conv_row_of now c) = conv_id c"
  by (simp add: conv_row_of_def)

lemma join_conv_aliases_eq:
  assumes "db_ok d"
  shows "join_conv_aliases rows d = map (\<lambda>c. (c, row_with al_key (''conversation'', c_id c) (aliases d))) rows"
  unfolding join_conv_aliases_def
  using filter_key_scan [OF db_okD(4) [OF assms], of _ "[0..<length (aliases d)]"]
  by (intro left_join_unique) simp

text \<open>A conversation as the store shows it: its row and its local alias.\<close>

definition conv_view :: "db \<Rightarrow> conv_row \<Rightarrow> conversation" where
  "conv_view d r = scan_conversation (r, row_with al_key (''conversation'', c_id r) (aliases d))"

lemma conv_view_simps [simp]:
  "conv_id (conv_view d r) = c_id r" "conv_last_ms (conv_view d r) = c_last_message_ts r"
  "conv_unread (conv_view d r) = (c_unread r \<noteq> 0)" "conv_pinned (conv_view d r) = (c_pinned r \<noteq> 0)"
  "conv_updated (conv_view d r) = c_updated_at r" "conv_is_group (conv_view d r) = (c_is_group r \<noteq> 0)"
  "conv_participants (conv_view d r) = c_participants_json r" "conv_name (conv_view d r) = c_name r"
  by (simp_all add: conv_view_def scan_conversation_def)

lemma get_conversation_eq:
  assumes "db_ok d" and "no_fault e"
  shows "get_conversation e cid d = (case row_with c_id cid (convs d) of
      None \<Rightarrow> Inl ErrNoRows | Some r \<Rightarrow> Inr (conv_view d r))"
proof -
  let ?g = "\<lambda>c. (c, row_with al_key (''conversation'', c_id c) (aliases d))"
  have "distinct (map (\<lambda>ra. c_id (fst ra)) (map ?g (convs d)))"
    using db_okD(1) [OF assms(1)] by (simp add: comp_def)
  from filter_key_scan [OF this, of cid "visit e SGetConv"]
  have "filter (\<lambda>ra. c_id (fst ra) = cid) (scan_rows (visit e SGetConv) (map ?g (convs d)))
      = (case map_option ?g (row_with c_id cid (convs d)) of None \<Rightarrow> [] | Some r \<Rightarrow> [r])"
    by (subst (asm) row_with_map [where key = c_id]) simp_all
  then show ?thesis using assms(2)
    by (simp add: get_conversation_def join_conv_aliases_eq [OF assms(1)] conv_view_def split: option.split)
qed

lemma upsert_conversation_frame [frame_simps]:
  "msgs (fst (upsert_conversation e c d)) = msgs d" "fts (fst (upsert_conversation e c d)) = fts d"
  "contacts (fst (upsert_conversation e c d)) = contacts d" "aliases (fst (upsert_conversation e c d)) = aliases d"
  "approvals (fst (upsert_conversation e c d)) = approvals d" "sync (fst (upsert_conversation e c d)) = sync d"
  by (simp_all add: upsert_conversation_def split: option.split)

lemma upsert_conversation_ok [store_inv]: "db_ok d \<Longrightarrow> db_ok (fst (upsert_conversation e c d))"
  by (auto simp: upsert_conversation_def conv_table.upsert_keys split: option.split
      intro!: db_ok_convs conv_table.upsert_distinct dest: db_okD(1))

lemma upsert_conversation_ids:
  "c_id ` set (convs d) \<subseteq> c_id ` set (convs (fst (upsert_conversation e c d)))"
  by (auto simp: upsert_conversation_def conv_table.upsert_keys split: option.split)

text \<open>An upserted conversation is read back with the values given, its own local alias, and the
  later of the stored and the given last-message times; every other conversation reads as before,
  and delivering the same conversation again changes nothing.\<close>

theorem upsert_conversation_readback:
  assumes "db_ok d" and "no_fault e" and "conv_id c \<noteq> ''''"
  shows "let d' = fst (upsert_conversation e c d) in
     snd (upsert_conversation e c d) = None
     \<and> get_conversation e (conv_id c) d' = Inr (c\<lparr>
         conv_platform := platform_or_gm (conv_platform c),
         conv_participants := nullable_json (conv_participants c),
         conv_alias := coalesce (alias_of d ''conversation'' (conv_id c)) '''',
         conv_last_ms := (case row_with c_id (conv_id c) (convs d) of None \<Rightarrow> conv_last_ms c
            | Some r \<Rightarrow> max (c_last_message_ts r) (conv_last_ms c)),
         conv_updated := now_ms e\<rparr>)
     \<and> (\<forall>cid. cid = conv_id c \<or> get_conversation e cid d' = get_conversation e cid d)
     \<and> fst (upsert_conversation e c d') = d'"
proof -
  define d' where "d' = fst (upsert_conversation e c d)"
  let ?r = "conv_row_of (now_ms e) c"
  have d': "d' = d\<lparr>convs := upsert_row c_id conv_merge ?r (convs d)\<rparr>"
    using assms(2,3) by (simp add: d'_def upsert_conversation_def)
  have ok: "db_ok d'" unfolding d'_def by (rule upsert_conversation_ok [OF assms(1)])
  have al: "aliases d' = aliases d" by (simp add: d')
  have same: "row_with c_id (conv_id c) (convs d')
      = Some (case row_with c_id (conv_id c) (convs d) of None \<Rightarrow> ?r | Some old \<Rightarrow> conv_merge old ?r)"
    using conv_table.upsert_same [of ?r "convs d"] by (simp add: d')
  have other: "row_with c_id cid (convs d') = row_with c_id cid (convs d)" if "cid \<noteq> conv_id c" for cid
    using conv_table.upsert_other [of cid ?r "convs d"] that by (simp add: d')
  have "snd (upsert_conversation e c d) = None"
    using assms(2,3) by (simp add: upsert_conversation_def)
  moreover have "get_conversation e (conv_id c) d' = Inr (c\<lparr>
         conv_platform := platform_or_gm (conv_platform c),
         conv_participants := nullable_json (conv_participants c),
         conv_alias := coalesce (alias_of d ''conversation'' (conv_id c)) '''',
         conv_last_ms := (case row_with c_id (conv_id c) (convs d) of None \<Rightarrow> conv_last_ms c
            | Some r \<Rightarrow> max (c_last_message_ts r) (conv_last_ms c)),
         conv_updated := now_ms e\<rparr>)"
    by (cases "row_with c_id (conv_id c) (convs d)")
       (auto simp: get_conversation_eq [OF ok assms(2)] same conv_view_def scan_conversation_def al alias_of_def
         conv_row_of_def conv_merge_def dest: row_with_Some)
  moreover have "cid = conv_id c \<or> get_conversation e cid d' = get_conversation e cid d" for cid
    using other [of cid] by (cases "cid = conv_id c") (simp_all add: get_conversation_eq assms(1,2) ok conv_view_def al split: option.split)
  moreover have "fst (upsert_conversation e c d') = d'"
    using assms(2,3) conv_table.upsert_idem [of ?r "convs d"] by (simp add: d' upsert_conversation_def)
  ultimately show ?thesis unfolding Let_def d'_def [symmetric] by blast
qed

text \<open>A listing is the page of the most recently active conversations that pass the filters, most
  recent first and at most \<open>limit\<close> of them (50 when none is given), each with its local alias.\<close>

theorem list_conversations_page:
  assumes "db_ok d" and "no_fault e"
  shows "\<exists>out. list_conversations e opts d = Inr out
     \<and> page_of (\<lambda>c. (- conv_last_ms c, - conv_updated c)) (nat (limit_or 50 (lc_limit opts)))
         (map (conv_view d) (filter (\<lambda>r. (lc_unread_only opts \<longrightarrow> c_unread r = 1) \<and> (lc_pinned opts \<longrightarrow> c_pinned r = 1)) (convs d))) out"
proof -
  let ?g = "\<lambda>c. (c, row_with al_key (''conversation'', c_id c) (aliases d))"
  let ?P = "\<lambda>r. (lc_unread_only opts \<longrightarrow> c_unread r = 1) \<and> (lc_pinned opts \<longrightarrow> c_pinned r = 1)"
  let ?ord = "\<lambda>ra. (- c_last_message_ts (fst ra), - c_updated_at (fst ra))"
  let ?sel = "select_rows (visit e SListConvs) (list_conv_where opts) ?ord (limit_or 50 (lc_limit opts)) (map ?g (convs d))"
  have "filter (list_conv_where opts) (map ?g (convs d)) = map ?g (filter ?P (convs d))"
    by (simp add: filter_map comp_def list_conv_where_def)
  then have "page_of ?ord (nat (limit_or 50 (lc_limit opts))) (map ?g (filter ?P (convs d))) ?sel"
    using select_rows_page [of "limit_or 50 (lc_limit opts)" ?ord "list_conv_where opts" "map ?g (convs d)" "visit e SListConvs"]
      limit_or_pos [of 50 "lc_limit opts"] by simp
  then have pg: "page_of (\<lambda>c. (- conv_last_ms c, - conv_updated c)) (nat (limit_or 50 (lc_limit opts)))
      (map scan_conversation (map ?g (filter ?P (convs d)))) (map scan_conversation ?sel)"
    by (rule page_of_map) (simp add: scan_conversation_def split: prod.split)
  have view: "map scan_conversation (map ?g (filter ?P (convs d))) = map (conv_view d) (filter ?P (convs d))"
    by (simp add: conv_view_def)
  have "list_conversations e opts d = Inr (map scan_conversation ?sel)"
    using assms by (simp add: list_conversations_def join_conv_aliases_eq)
  with pg show ?thesis unfolding view by (intro exI [of _ "map scan_conversation ?sel"] conjI)
qed

definition sample_conv :: conversation where
  "sample_conv = \<lparr>conv_id = ''c1'', conv_platform = '''', conv_name = ''Ann'', conv_alias = '''', conv_is_group = False,
     conv_participants = '''', conv_last_ms = 10, conv_unread = True, conv_pinned = False, conv_archived = False,
     conv_updated = 0\<rparr>"

theorem upsert_conversation_readback_witness:
  "get_conversation (quiet_env 5) ''c1'' (fst (upsert_conversation (quiet_env 5) sample_conv fresh_db))
     = Inr (sample_conv\<lparr>conv_platform := ''gm'', conv_participants := ''[]'', conv_updated := 5\<rparr>)"
proof -
  have "db_ok fresh_db" "no_fault (quiet_env 5)" "conv_id sample_conv \<noteq> ''''" by (simp_all add: sample_conv_def)
  note readback = upsert_conversation_readback [OF this, unfolded Let_def]
  have "alias_of fresh_db ''conversation'' (conv_id sample_conv) = None"
    "row_with c_id (conv_id sample_conv) (convs fresh_db) = None" by code_simp+
  with readback show ?thesis
    by (simp add: sample_conv_def platform_or_gm_def nullable_json_def coalesce_def)
qed

theorem list_conversations_page_witness:
  "\<exists>out. list_conversations (quiet_env 5) \<lparr>lc_limit = 0, lc_unread_only = True, lc_pinned = False\<rparr>
      (fst (upsert_conversation (quiet_env 5) sample_conv fresh_db)) = Inr out
     \<and> page_of (\<lambda>c. (- conv_last_ms c, - conv_updated c)) 50
         (map (conv_view (fst (upsert_conversation (quiet_env 5) sample_conv fresh_db)))
            (convs (fst (upsert_conversation (quiet_env 5) sample_conv fresh_db)))) out"
proof -
  let ?d = "fst (upsert_conversation (quiet_env 5) sample_conv fresh_db)"
  have "db_ok ?d" by (intro upsert_conversation_ok db_ok_fresh)
  moreover have "filter (\<lambda>r. c_unread r = 1) (convs ?d) = convs ?d" by code_simp
  ultimately show ?thesis
    using list_conversations_page [of ?d "quiet_env 5" "\<lparr>lc_limit = 0, lc_unread_only = True, lc_pinned = False\<rparr>"]
    by (simp add: limit_or_def)
qed

end
