(* ===== verification/Store_Messages.thy ===== *)
theory Store_Messages
  imports Store_Conversations
begin

text \<open>
  \<open>internal/store/messages.go\<close>: the messages table and its FTS mirror, the upsert that creates a
  missing conversation, listing, context windows around a message and the verbatim FTS search.
\<close>

record message =
  msg_id :: string
  msg_conv :: string
  msg_platform :: string
  msg_sender :: string
  msg_body :: "string option"
  msg_ts :: int
  msg_status :: int
  msg_from_me :: bool
  msg_media :: "string option"
  msg_mime :: "string option"
  msg_key :: string
  msg_reactions :: "string option"
  msg_reply :: "string option"
  msg_raw :: string

definition null_bytes :: "string \<Rightarrow> string option" where
  "null_bytes b = (if b = '''' then None else Some b)"

section \<open>UpsertMessage\<close>

definition msg_row_of :: "int \<Rightarrow> message \<Rightarrow> msg_row" where
  "msg_row_of now m = \<lparr>m_id = msg_id m, m_conv = msg_conv m,
     m_platform = (if msg_platform m = '''' then ''gm'' else msg_platform m), m_sender = msg_sender m,
     m_body = msg_body m, m_ts = msg_ts m, m_status = msg_status m, m_from_me = bool_to_int (msg_from_me m),
     m_media = msg_media m, m_mime = msg_mime m, m_key = null_bytes (msg_key m),
     m_reactions = msg_reactions m, m_reply = msg_reply m, m_raw = null_bytes (msg_raw m), m_updated_at = now\<rparr>"

definition msg_merge :: "msg_row \<Rightarrow> msg_row \<Rightarrow> msg_row" where
  "msg_merge old new = old\<lparr>m_conv := m_conv new, m_platform := m_platform new, m_sender := m_sender new,
     m_body := m_body new, m_ts := m_ts new, m_status := m_status new, m_from_me := m_from_me new,
     m_media := m_media new, m_mime := m_mime new, m_key := m_key new, m_reactions := m_reactions new,
     m_reply := m_reply new, m_raw := m_raw new, m_updated_at := m_updated_at new\<rparr>"

text \<open>INSERT OR IGNORE INTO conversations: the columns not named take the schema's defaults.\<close>

definition conv_stub :: "string \<Rightarrow> string \<Rightarrow> int \<Rightarrow> conv_row" where
  "conv_stub cid platform now = \<lparr>c_id = cid, c_platform = platform, c_name = '''', c_is_group = 0,
     c_participants_json = ''[]'', c_last_message_ts = 0, c_unread = 0, c_pinned = 0, c_archived = 0, c_updated_at = now\<rparr>"

definition conv_ignore :: "conv_row \<Rightarrow> conv_row \<Rightarrow> conv_row" where
  "conv_ignore old new = old"

text \<open>The triggers: \<open>messages_fts_ai\<close> after an insert, \<open>messages_fts_au\<close> after an update of \<open>body\<close>,
  a column the DO UPDATE always sets.\<close>

definition fts_after_upsert :: "msg_row list \<Rightarrow> msg_row \<Rightarrow> (string \<times> string) list \<Rightarrow> (string \<times> string) list" where
  "fts_after_upsert rows r ft = (case row_with m_id (m_id r) rows of
     None \<Rightarrow> ft @ [fts_of r]
   | Some old \<Rightarrow> delete_where (\<lambda>f. fst f = m_id old) ft @ [fts_of (msg_merge old r)])"

text \<open>The INSERT ... ON CONFLICT statement, under the foreign key.\<close>

definition insert_message :: "'z env_scheme \<Rightarrow> msg_row \<Rightarrow> db \<Rightarrow> string + db" where
  "insert_message e r d = (case exec_fault e SUpsertMessage of
     Some t \<Rightarrow> Inl t
   | None \<Rightarrow> if m_conv r \<notin> c_id ` set (convs d) then Inl (constraint_text e ''messages.conversation_id'')
       else Inr (d\<lparr>msgs := upsert_row m_id msg_merge r (msgs d), fts := fts_after_upsert (msgs d) r (fts d)\<rparr>))"

definition upsert_message :: "'z env_scheme \<Rightarrow> message \<Rightarrow> db \<Rightarrow> db \<times> err option" where
  "upsert_message e m d =
     (if msg_id m = '''' then (d, Some (Msg ''message id is required''))
      else if msg_conv m = '''' then (d, Some (Msg ''conversation id is required''))
      else let platform = (if msg_platform m = '''' then ''gm'' else msg_platform m) in
        (case exec_fault e SEnsureConv of
          Some t \<Rightarrow> (d, Some (Wrap (''ensure conversation '' @ msg_conv m) (Driver t)))
        | None \<Rightarrow> let d1 = d\<lparr>convs := upsert_row c_id conv_ignore (conv_stub (msg_conv m) platform (now_ms e)) (convs d)\<rparr> in
            (case insert_message e (msg_row_of (now_ms e) m) d1 of
              Inl t \<Rightarrow> (d1, Some (Wrap (''upsert message '' @ msg_id m) (Driver t)))
            | Inr d2 \<Rightarrow> (d2, None))))"

definition count_messages :: "'z env_scheme \<Rightarrow> db \<Rightarrow> err + nat" where
  "count_messages e d = query_row e SCountMessages [length (msgs d)]"

definition count_messages_conv :: "'z env_scheme \<Rightarrow> string \<Rightarrow> db \<Rightarrow> err + nat" where
  "count_messages_conv e cid d = query_row e SCountMessagesConv [length (filter (\<lambda>m. m_conv m = cid) (msgs d))]"

section \<open>Queries\<close>

text \<open>\<open>scanMessage\<close>: \<open>raw_proto\<close> is not selected, an empty key is left nil.\<close>

definition scan_message :: "msg_row \<Rightarrow> message" where
  "scan_message r = \<lparr>msg_id = m_id r, msg_conv = m_conv r, msg_platform = m_platform r, msg_sender = m_sender r,
     msg_body = m_body r, msg_ts = m_ts r, msg_status = m_status r, msg_from_me = (m_from_me r \<noteq> 0),
     msg_media = m_media r, msg_mime = m_mime r, msg_key = coalesce (m_key r) '''',
     msg_reactions = m_reactions r, msg_reply = m_reply r, msg_raw = ''''\<rparr>"

record list_message_opts =
  lm_conv :: string
  lm_sender :: string
  lm_since :: int
  lm_until :: int
  lm_limit :: int
  lm_order :: string

definition list_messages_where :: "list_message_opts \<Rightarrow> msg_row \<Rightarrow> bool" where
  "list_messages_where opts m \<longleftrightarrow>
     (lm_conv opts \<noteq> '''' \<longrightarrow> m_conv m = lm_conv opts) \<and> (lm_sender opts \<noteq> '''' \<longrightarrow> m_sender m = lm_sender opts)
     \<and> (lm_since opts \<noteq> zero_time_ms \<longrightarrow> lm_since opts \<le> m_ts m)
     \<and> (lm_until opts \<noteq> zero_time_ms \<longrightarrow> m_ts m \<le> lm_until opts)"

definition list_messages :: "'z env_scheme \<Rightarrow> list_message_opts \<Rightarrow> db \<Rightarrow> err + message list" where
  "list_messages e opts d = (let n = (if lm_limit opts \<le> 0 then 50 else lm_limit opts);
       order = (if to_upper e (lm_order opts) \<noteq> ''ASC'' then ''DESC'' else ''ASC'') in
     list_rows e SListMessages ''list messages'' (map scan_message
       (select_rows (visit e SListMessages) (list_messages_where opts)
          (\<lambda>m. if order = ''ASC'' then m_ts m else - m_ts m) n (msgs d))))"

definition get_message :: "'z env_scheme \<Rightarrow> string \<Rightarrow> db \<Rightarrow> err + message" where
  "get_message e mid d = not_found (query_row e SGetMessage
     (map scan_message (filter (\<lambda>m. m_id m = mid) (scan_rows (visit e SGetMessage) (msgs d)))))"

text \<open>ORDER BY ... DESC on every key, and the order of a message within its conversation.\<close>

definition sort_desc :: "('r \<Rightarrow> 'o::linorder) \<Rightarrow> 'r list \<Rightarrow> 'r list" where
  "sort_desc ord rows = rev (sort_key ord (rev rows))"

definition msg_order :: "msg_row \<Rightarrow> int \<times> string" where
  "msg_order m = (m_ts m, m_id m)"

definition before_anchor :: "message \<Rightarrow> msg_row \<Rightarrow> bool" where
  "before_anchor a m \<longleftrightarrow> m_conv m = msg_conv a \<and> (m_ts m < msg_ts a \<or> m_ts m = msg_ts a \<and> m_id m < msg_id a)"

definition after_anchor :: "message \<Rightarrow> msg_row \<Rightarrow> bool" where
  "after_anchor a m \<longleftrightarrow> m_conv m = msg_conv a \<and> (msg_ts a < m_ts m \<or> m_ts m = msg_ts a \<and> msg_id a < m_id m)"

text \<open>\<open>GetMessageContext\<close>: a failing query is returned unwrapped; \<open>rows.Err()\<close> is not looked at, so
  rows that failed to arrive are missing from the answer.\<close>

definition get_message_context :: "'z env_scheme \<Rightarrow> string \<Rightarrow> int \<Rightarrow> int \<Rightarrow> db \<Rightarrow> err + message list" where
  "get_message_context e anchor_id before0 after0 d =
     (let before = (if before0 < 0 then 0 else before0); after = (if after0 < 0 then 0 else after0) in
      case get_message e anchor_id d of
        Inl err \<Rightarrow> Inl err
      | Inr anchor \<Rightarrow>
         (case (if 0 < before then query_rows e SContextBefore (map scan_message (sql_limit before
               (sort_desc msg_order (filter (before_anchor anchor) (scan_rows (visit e SContextBefore) (msgs d))))))
             else Inr ([], None)) of
           Inl t \<Rightarrow> Inl (Driver t)
         | Inr (pre, _) \<Rightarrow> let out = rev pre @ [anchor] in
            (case (if 0 < after then query_rows e SContextAfter (map scan_message (sql_limit after
                  (sort_key msg_order (filter (after_anchor anchor) (scan_rows (visit e SContextAfter) (msgs d))))))
                else Inr ([], None)) of
              Inl t \<Rightarrow> Inl (Driver t)
            | Inr (post, _) \<Rightarrow> Inr (out @ post))))"

record search_hit =
  hit_id :: string
  hit_conv :: string
  hit_body :: string
  hit_snippet :: string
  hit_ts :: int
  hit_from_me :: bool

definition scan_hit :: "'z env_scheme \<Rightarrow> string \<Rightarrow> (string \<times> string) \<times> msg_row \<Rightarrow> search_hit" where
  "scan_hit e q fm = (case fm of (f, m) \<Rightarrow>
     \<lparr>hit_id = m_id m, hit_conv = m_conv m, hit_body = coalesce (m_body m) '''',
      hit_snippet = fts_snippet e q 12 (snd f), hit_ts = m_ts m, hit_from_me = (m_from_me m \<noteq> 0)\<rparr>)"

text \<open>JOIN: the pairs of rows that match.\<close>

definition inner_join :: "('l \<Rightarrow> 'r \<Rightarrow> bool) \<Rightarrow> 'l list \<Rightarrow> 'r list \<Rightarrow> ('l \<times> 'r) list" where
  "inner_join on ls rs = concat (map (\<lambda>l. map (\<lambda>r. (l, r)) (filter (on l) rs)) ls)"

definition search_messages :: "'z env_scheme \<Rightarrow> string \<Rightarrow> int \<Rightarrow> db \<Rightarrow> err + search_hit list" where
  "search_messages e q n0 d = (let n = (if n0 \<le> 0 then 50 else n0); what = ''fts search '' @ go_quote e q in
     case fts_match e q of
       Inl t \<Rightarrow> Inl (Wrap what (Driver t))
     | Inr matches \<Rightarrow> list_rows e SSearch what (map (scan_hit e q)
         (select_rows (visit e SSearch) (\<lambda>fm. matches (snd (fst fm))) (\<lambda>fm. - m_ts (snd fm)) n
            (inner_join (\<lambda>f m. m_id m = fst f) (fts d) (msgs d)))))"

interpretation msg_table: overwriting_table m_id msg_merge
  by unfold_locales (auto simp: msg_merge_def)

interpretation conv_stub_table: keeping_table c_id conv_ignore
  by unfold_locales (simp_all add: conv_ignore_def)

section \<open>Facts\<close>

lemma msg_row_of_simps [simp]: "m_id (msg_row_of now m) = msg_id m" "m_conv (msg_row_of now m) = msg_conv m"
  by (simp_all add: msg_row_of_def)

lemma conv_stub_id [simp]: "c_id (conv_stub cid p now) = cid"
  by (simp add: conv_stub_def)

lemma get_message_eq:
  assumes "db_ok d" and "no_fault e"
  shows "get_message e mid d = (case row_with m_id mid (msgs d) of
      None \<Rightarrow> Inl ErrNotFound | Some r \<Rightarrow> Inr (scan_message r))"
  using assms
  by (simp add: get_message_def filter_key_scan [OF db_okD(2)] not_found_def split: option.split)

lemma fts_after_upsert_mset:
  assumes "db_ok d"
  shows "mset (fts_after_upsert (msgs d) r (fts d)) = mset (map fts_of (upsert_row m_id msg_merge r (msgs d)))"
proof -
  have f: "mset (fts d) = mset (map fts_of (msgs d))" by (rule db_okD(7) [OF assms])
  have "mset (map fts_of (upsert_row m_id msg_merge r (msgs d)))
      = add_mset (fts_of r) (image_mset fts_of (mset (delete_where (\<lambda>x. m_id x = m_id r) (msgs d))))"
    using msg_table.upsert_mset [OF db_okD(2) [OF assms], of r] by simp
  also have "image_mset fts_of (mset (delete_where (\<lambda>x. m_id x = m_id r) (msgs d)))
      = mset (delete_where (\<lambda>f. fst f = m_id r) (map fts_of (msgs d)))"
    by (simp add: delete_where_def filter_map comp_def fts_of_def)
  also have "\<dots> = mset (delete_where (\<lambda>f. fst f = m_id r) (fts d))"
    unfolding delete_where_def mset_filter f ..
  finally have up: "mset (map fts_of (upsert_row m_id msg_merge r (msgs d)))
      = add_mset (fts_of r) (mset (delete_where (\<lambda>f. fst f = m_id r) (fts d)))" .
  show ?thesis
  proof (cases "row_with m_id (m_id r) (msgs d)")
    case None
    have "set (fts d) = fts_of ` set (msgs d)"
      using arg_cong [OF f, of set_mset] by (simp only: set_mset_mset set_map)
    then have "fst ` set (fts d) = m_id ` set (msgs d)"
      by (simp only: image_image) (simp add: fts_of_def)
    with None have "m_id r \<notin> fst ` set (fts d)" by (simp only: row_with_None not_False_eq_True)
    then have "delete_where (\<lambda>f. fst f = m_id r) (fts d) = fts d"
      by (rule delete_absent)
    with None up show ?thesis by (simp add: fts_after_upsert_def)
  next
    case (Some old)
    then have "m_id old = m_id r" by (rule row_with_Some [THEN conjunct2])
    with Some up show ?thesis by (simp add: fts_after_upsert_def msg_table.merge_new)
  qed
qed

lemma insert_message_ok:
  "db_ok d \<Longrightarrow> insert_message e r d = Inr d' \<Longrightarrow> db_ok d'"
proof -
  assume ok: "db_ok d" and ins: "insert_message e r d = Inr d'"
  then have conv: "m_conv r \<in> c_id ` set (convs d)"
    and d': "d' = d\<lparr>msgs := upsert_row m_id msg_merge r (msgs d), fts := fts_after_upsert (msgs d) r (fts d)\<rparr>"
    by (auto simp: insert_message_def split: option.splits if_splits)
  show "db_ok d'" unfolding d'
  proof (rule db_ok_msgs [OF ok])
    show "distinct (map m_id (upsert_row m_id msg_merge r (msgs d)))"
      by (rule msg_table.upsert_distinct [OF db_okD(2) [OF ok]])
    show "m_conv ` set (upsert_row m_id msg_merge r (msgs d)) \<subseteq> c_id ` set (convs d)"
      using msg_table.upsert_subset [of r "msgs d"] conv db_okD(6) [OF ok] by blast
    show "mset (fts_after_upsert (msgs d) r (fts d)) = mset (map fts_of (upsert_row m_id msg_merge r (msgs d)))"
      by (rule fts_after_upsert_mset [OF ok])
  qed
qed

lemma ensure_conv_ok:
  "db_ok d \<Longrightarrow> db_ok (d\<lparr>convs := upsert_row c_id conv_ignore r (convs d)\<rparr>)"
  by (intro db_ok_convs conv_stub_table.upsert_distinct) (auto simp: conv_stub_table.upsert_keys dest: db_okD(1))

lemma upsert_message_ok [store_inv]: "db_ok d \<Longrightarrow> db_ok (fst (upsert_message e m d))"
  by (auto simp: upsert_message_def Let_def split: option.split sum.split
      dest: insert_message_ok [OF ensure_conv_ok] intro: ensure_conv_ok)

lemma upsert_message_frame [frame_simps]:
  "contacts (fst (upsert_message e m d)) = contacts d" "aliases (fst (upsert_message e m d)) = aliases d"
  "approvals (fst (upsert_message e m d)) = approvals d" "sync (fst (upsert_message e m d)) = sync d"
  by (auto simp: upsert_message_def insert_message_def Let_def split: option.splits sum.splits if_splits)

lemma upsert_message_keeps_convs:
  "\<exists>new. convs (fst (upsert_message e m d)) = convs d @ new"
proof -
  have "\<exists>new. upsert_row c_id conv_ignore r (convs d) = convs d @ new" for r
    using conv_stub_table.upsert_present [of r "convs d"] conv_stub_table.upsert_absent [of r "convs d"]
    by (cases "c_id r \<in> c_id ` set (convs d)") auto
  then show ?thesis
    by (auto simp: upsert_message_def insert_message_def Let_def split: option.splits sum.splits if_splits)
qed

lemma upsert_message_result:
  assumes "no_fault e" and "msg_id m \<noteq> ''''" and "msg_conv m \<noteq> ''''"
  shows "upsert_message e m d = (d\<lparr>
      convs := upsert_row c_id conv_ignore (conv_stub (msg_conv m) (if msg_platform m = '''' then ''gm'' else msg_platform m) (now_ms e)) (convs d),
      msgs := upsert_row m_id msg_merge (msg_row_of (now_ms e) m) (msgs d),
      fts := fts_after_upsert (msgs d) (msg_row_of (now_ms e) m) (fts d)\<rparr>, None)"
  using assms
  by (simp add: upsert_message_def insert_message_def Let_def conv_stub_table.upsert_keys)

text \<open>C20: a stored message is read back with the values given (raw bytes apart, which no query
  selects); its conversation exists, a stub when it was not known and untouched when it was; the
  full-text index holds exactly one entry for it, with its current body; every other message reads
  as before, and delivering the message again changes no message.\<close>

theorem upsert_message_readback:
  assumes "db_ok d" and "no_fault e" and "msg_id m \<noteq> ''''" and "msg_conv m \<noteq> ''''"
  shows "let d' = fst (upsert_message e m d) in
     snd (upsert_message e m d) = None
     \<and> get_message e (msg_id m) d' = Inr (m\<lparr>msg_platform := (if msg_platform m = '''' then ''gm'' else msg_platform m), msg_raw := ''''\<rparr>)
     \<and> (\<forall>mid. mid = msg_id m \<or> get_message e mid d' = get_message e mid d)
     \<and> row_with c_id (msg_conv m) (convs d') = Some (case row_with c_id (msg_conv m) (convs d) of
          None \<Rightarrow> conv_stub (msg_conv m) (if msg_platform m = '''' then ''gm'' else msg_platform m) (now_ms e)
        | Some r \<Rightarrow> r)
     \<and> filter (\<lambda>f. fst f = msg_id m) (fts d') = [(msg_id m, coalesce (msg_body m) '''')]
     \<and> msgs (fst (upsert_message e m d')) = msgs d' \<and> convs (fst (upsert_message e m d')) = convs d'"
proof -
  define d' where "d' = fst (upsert_message e m d)"
  let ?r = "msg_row_of (now_ms e) m"
  let ?s = "conv_stub (msg_conv m) (if msg_platform m = '''' then ''gm'' else msg_platform m) (now_ms e)"
  note result = upsert_message_result [OF assms(2-4)]
  have ms: "msgs d' = upsert_row m_id msg_merge ?r (msgs d)"
    and cs: "convs d' = upsert_row c_id conv_ignore ?s (convs d)" by (simp_all add: d'_def result)
  have ok: "db_ok d'" unfolding d'_def by (rule upsert_message_ok [OF assms(1)])
  have same: "row_with m_id (msg_id m) (msgs d') = Some ?r"
    using msg_table.upsert_stored [of ?r "msgs d"] by (simp add: ms)
  have other: "row_with m_id mid (msgs d') = row_with m_id mid (msgs d)" if "mid \<noteq> msg_id m" for mid
    using msg_table.upsert_other [of mid ?r "msgs d"] that by (simp add: ms)
  have "snd (upsert_message e m d) = None" by (simp add: result)
  moreover have "get_message e (msg_id m) d'
      = Inr (m\<lparr>msg_platform := (if msg_platform m = '''' then ''gm'' else msg_platform m), msg_raw := ''''\<rparr>)"
    by (simp add: get_message_eq [OF ok assms(2)] same scan_message_def msg_row_of_def null_bytes_def coalesce_def)
  moreover have "mid = msg_id m \<or> get_message e mid d' = get_message e mid d" for mid
    using other [of mid] by (cases "mid = msg_id m") (simp_all add: get_message_eq assms(1,2) ok)
  moreover have "row_with c_id (msg_conv m) (convs d')
      = Some (case row_with c_id (msg_conv m) (convs d) of None \<Rightarrow> ?s | Some r \<Rightarrow> r)"
    using conv_stub_table.upsert_same [of ?s "convs d"] by (simp add: cs conv_ignore_def split: option.split)
  moreover have "filter (\<lambda>f. fst f = msg_id m) (fts d') = [(msg_id m, coalesce (msg_body m) '''')]"
  proof -
    have "mset (filter (\<lambda>f. fst f = msg_id m) (fts d')) = mset (filter (\<lambda>f. fst f = msg_id m) (map fts_of (msgs d')))"
      by (simp only: mset_filter db_okD(7) [OF ok])
    also have "filter (\<lambda>f. fst f = msg_id m) (map fts_of (msgs d')) = map fts_of (filter (\<lambda>r. m_id r = msg_id m) (msgs d'))"
      by (simp add: filter_map comp_def fts_of_def)
    also have "filter (\<lambda>r. m_id r = msg_id m) (msgs d') = [?r]"
      using filter_distinct_key [OF db_okD(2) [OF ok], of ?r] row_with_Some [OF same] by simp
    finally show ?thesis by (simp add: fts_of_def msg_row_of_def del: mset_filter)
  qed
  moreover have "msgs (fst (upsert_message e m d')) = msgs d'" "convs (fst (upsert_message e m d')) = convs d'"
    using msg_table.upsert_idem [of ?r "msgs d"]
      conv_stub_table.upsert_present [of ?s "upsert_row c_id conv_ignore ?s (convs d)"]
    by (simp_all add: result ms cs conv_stub_table.upsert_keys)
  ultimately show ?thesis unfolding Let_def d'_def [symmetric] by blast
qed

lemma list_messages_view:
  assumes "no_fault e"
  shows "\<exists>out. list_messages e opts d = Inr (map scan_message out)
     \<and> page_of (\<lambda>m. if to_upper e (lm_order opts) = ''ASC'' then m_ts m else - m_ts m)
         (nat (if lm_limit opts \<le> 0 then 50 else lm_limit opts))
         (filter (\<lambda>m. lm_conv opts \<in> {'''', m_conv m} \<and> lm_sender opts \<in> {'''', m_sender m}
             \<and> (lm_since opts = zero_time_ms \<or> lm_since opts \<le> m_ts m)
             \<and> (lm_until opts = zero_time_ms \<or> m_ts m \<le> lm_until opts)) (msgs d)) out"
proof -
  let ?n = "if lm_limit opts \<le> 0 then 50 else lm_limit opts"
  let ?ord = "\<lambda>m. if to_upper e (lm_order opts) = ''ASC'' then m_ts m else - m_ts m"
  let ?sel = "select_rows (visit e SListMessages) (list_messages_where opts) ?ord ?n (msgs d)"
  have P: "(\<lambda>m. lm_conv opts \<in> {'''', m_conv m} \<and> lm_sender opts \<in> {'''', m_sender m}
      \<and> (lm_since opts = zero_time_ms \<or> lm_since opts \<le> m_ts m)
      \<and> (lm_until opts = zero_time_ms \<or> m_ts m \<le> lm_until opts)) = list_messages_where opts"
    by (auto simp: fun_eq_iff list_messages_where_def)
  have "list_messages e opts d = Inr (map scan_message ?sel)"
    using assms by (simp add: list_messages_def Let_def if_distrib cong: if_cong)
  moreover have "page_of ?ord (nat ?n) (filter (list_messages_where opts) (msgs d)) ?sel"
    by (rule select_rows_page) simp
  ultimately show ?thesis unfolding P by blast
qed

text \<open>A listing is the page of at most \<open>limit\<close> messages (50 when none is given) that pass every
  filter given, the earliest first when the order is \<open>asc\<close> in any case, else the latest first; a
  time bound applies exactly when it is not the zero time.\<close>

theorem list_messages_page:
  assumes "no_fault e"
  shows "\<exists>out. list_messages e opts d = Inr (map scan_message out)
     \<and> page_of (\<lambda>m. if to_upper e (lm_order opts) = ''ASC'' then m_ts m else - m_ts m)
         (nat (if lm_limit opts \<le> 0 then 50 else lm_limit opts))
         (filter (\<lambda>m. lm_conv opts \<in> {'''', m_conv m} \<and> lm_sender opts \<in> {'''', m_sender m}
             \<and> (lm_since opts = zero_time_ms \<or> lm_since opts \<le> m_ts m)
             \<and> (lm_until opts = zero_time_ms \<or> m_ts m \<le> lm_until opts)) (msgs d)) out"
  by (rule list_messages_view [OF assms])

section \<open>The context window\<close>

lemma sort_desc_sorted:
  "inj_on ord (set rows) \<Longrightarrow> sort_desc ord rows = rev (sort_key ord rows)"
  unfolding sort_desc_def by (rule arg_cong [of _ _ rev], rule sort_key_perm_unique) simp_all

lemma filter_split_at:
  fixes k :: "'a \<Rightarrow> 'o::linorder"
  assumes "sorted_wrt (\<lambda>x y. k x < k y) L" and "i < length L"
  shows "filter (\<lambda>x. k x < k (L ! i)) L = take i L" "filter (\<lambda>x. k (L ! i) < k x) L = drop (Suc i) L"
proof -
  have split: "L = take i L @ L ! i # drop (Suc i) L" using assms(2) by (simp add: id_take_nth_drop)
  have s: "sorted_wrt (\<lambda>x y. k x < k y) (take i L @ L ! i # drop (Suc i) L)" using assms(1) split by simp
  then have lo: "\<forall>x\<in>set (take i L). k x < k (L ! i)" and hi: "\<forall>x\<in>set (drop (Suc i) L). k (L ! i) < k x"
    by (auto simp: sorted_wrt_append)
  from lo have "filter (\<lambda>x. k x < k (L ! i)) (take i L) = take i L" by (simp add: filter_id_conv)
  moreover from hi have "filter (\<lambda>x. k x < k (L ! i)) (drop (Suc i) L) = []" by (auto simp: filter_empty_conv)
  ultimately show "filter (\<lambda>x. k x < k (L ! i)) L = take i L" by (subst split) simp
  from hi have "filter (\<lambda>x. k (L ! i) < k x) (drop (Suc i) L) = drop (Suc i) L" by (simp add: filter_id_conv)
  moreover from lo have "filter (\<lambda>x. k (L ! i) < k x) (take i L) = []" by (auto simp: filter_empty_conv)
  ultimately show "filter (\<lambda>x. k (L ! i) < k x) L = drop (Suc i) L" by (subst split) simp
qed

text \<open>The messages of a conversation, oldest first, ties by id.\<close>

definition conversation_log :: "string \<Rightarrow> db \<Rightarrow> msg_row list" where
  "conversation_log cid d = sort_key msg_order (filter (\<lambda>m. m_conv m = cid) (msgs d))"

lemma msg_order_inj: "db_ok d \<Longrightarrow> inj_on msg_order (set (msgs d))"
  using db_okD(2) by (fastforce simp: msg_order_def distinct_map inj_on_def)

lemma conversation_log_strict:
  assumes "db_ok d"
  shows "sorted_wrt (\<lambda>x y. msg_order x < msg_order y) (conversation_log cid d)"
proof -
  let ?F = "filter (\<lambda>m. m_conv m = cid) (msgs d)"
  have "inj_on msg_order (set ?F)" using msg_order_inj [OF assms] by (rule inj_on_subset) auto
  moreover have "distinct ?F" using db_okD(2) [OF assms] by (simp add: distinct_map)
  ultimately have "distinct (map msg_order (conversation_log cid d))"
    by (simp add: conversation_log_def distinct_map)
  moreover have "sorted (map msg_order (conversation_log cid d))" by (simp add: conversation_log_def)
  ultimately have "sorted_wrt (<) (map msg_order (conversation_log cid d))" by (simp add: strict_sorted_iff)
  then show ?thesis by (simp add: sorted_wrt_map)
qed

lemma scan_sort_filter:
  assumes "db_ok d" and "\<And>m. P m = (m_conv m = cid \<and> Q m)"
  shows "sort_key msg_order (filter P (scan_rows p (msgs d))) = filter Q (conversation_log cid d)"
    and "sort_desc msg_order (filter P (scan_rows p (msgs d))) = rev (filter Q (conversation_log cid d))"
proof -
  have inj: "inj_on msg_order (set (filter P (scan_rows p (msgs d))))"
    using msg_order_inj [OF assms(1)] by (rule inj_on_subset) auto
  have "sort_key msg_order (filter P (scan_rows p (msgs d))) = sort_key msg_order (filter P (msgs d))"
    by (rule sort_key_perm_unique [OF _ inj]) (rule mset_filter_scan)
  also have "filter P (msgs d) = filter Q (filter (\<lambda>m. m_conv m = cid) (msgs d))"
    by (simp only: filter_filter) (rule filter_cong, simp_all add: assms(2) conj_commute)
  finally show *: "sort_key msg_order (filter P (scan_rows p (msgs d))) = filter Q (conversation_log cid d)"
    by (simp only: conversation_log_def filter_sort)
  show "sort_desc msg_order (filter P (scan_rows p (msgs d))) = rev (filter Q (conversation_log cid d))"
    by (simp only: sort_desc_sorted [OF inj] *)
qed

text \<open>The context of a message is the window of its conversation, in order of time and id, that
  starts up to \<open>before\<close> messages ahead of it and ends up to \<open>after\<close> messages behind it; negative
  counts read as zero.\<close>

theorem context_is_window:
  assumes "db_ok d" and "no_fault e" and "i < length (conversation_log cid d)"
  shows "get_message_context e (m_id (conversation_log cid d ! i)) before after d
    = Inr (map scan_message (drop (i - nat before) (take (i + 1 + nat after) (conversation_log cid d))))"
proof -
  let ?L = "conversation_log cid d"
  let ?a = "?L ! i"
  have mem: "?a \<in> set ?L" using assms(3) by (rule nth_mem)
  then have conv: "m_conv ?a = cid" and "?a \<in> set (msgs d)" by (simp_all add: conversation_log_def)
  with row_with_mem [OF db_okD(2) [OF assms(1)]] have anchor: "get_message e (m_id ?a) d = Inr (scan_message ?a)"
    by (simp add: get_message_eq [OF assms(1,2)])
  note cut = filter_split_at [OF conversation_log_strict [OF assms(1), of cid] assms(3)]
  have "before_anchor (scan_message ?a) m = (m_conv m = cid \<and> msg_order m < msg_order ?a)"
    "after_anchor (scan_message ?a) m = (m_conv m = cid \<and> msg_order ?a < msg_order m)" for m
    using conv by (auto simp: before_anchor_def after_anchor_def scan_message_def msg_order_def)
  from scan_sort_filter(2) [OF assms(1) this(1)] scan_sort_filter(1) [OF assms(1) this(2)]
  have pre: "sort_desc msg_order (filter (before_anchor (scan_message ?a)) (scan_rows p (msgs d))) = rev (take i ?L)"
    and post: "sort_key msg_order (filter (after_anchor (scan_message ?a)) (scan_rows p (msgs d))) = drop (Suc i) ?L" for p
    by (simp_all only: cut)
  have "get_message_context e (m_id ?a) before after d = Inr (map scan_message
      (rev (take (nat before) (rev (take i ?L))) @ ?a # take (nat after) (drop (Suc i) ?L)))"
    using assms(2)
    by (simp add: get_message_context_def anchor Let_def pre post sql_limit_def rev_map)
  also have "rev (take (nat before) (rev (take i ?L))) = drop (i - nat before) (take i ?L)"
    using assms(3) by (simp add: take_rev min_absorb2)
  also have "drop (i - nat before) (take i ?L) @ ?a # take (nat after) (drop (Suc i) ?L)
      = drop (i - nat before) (take (i + 1 + nat after) ?L)"
    using assms(3) take_add [of i "Suc (nat after)" ?L] by (simp flip: Cons_nth_drop_Suc)
  finally show ?thesis .
qed

section \<open>The verbatim search\<close>

lemma inner_join_fts:
  assumes "db_ok d"
  shows "mset (inner_join (\<lambda>f m. m_id m = fst f) (fts d) (msgs d)) = mset (map (\<lambda>m. (fts_of m, m)) (msgs d))"
proof -
  let ?h = "\<lambda>f. map (\<lambda>r. (f, r)) (filter (\<lambda>m. m_id m = fst f) (msgs d))"
  have h: "?h (fts_of m) = [(fts_of m, m)]" if "m \<in> set (msgs d)" for m
    using filter_distinct_key [OF db_okD(2) [OF assms] that] by (simp add: fts_of_def)
  have "mset (inner_join (\<lambda>f m. m_id m = fst f) (fts d) (msgs d)) = (\<Sum>f\<in>#mset (fts d). mset (?h f))"
    by (simp add: inner_join_def mset_concat comp_def sum_mset_sum_list flip: mset_map)
  also have "mset (fts d) = image_mset fts_of (mset (msgs d))"
    using db_okD(7) [OF assms] by simp
  also have "(\<Sum>f\<in>#image_mset fts_of (mset (msgs d)). mset (?h f)) = (\<Sum>m\<in>#mset (msgs d). mset (?h (fts_of m)))"
    by (simp only: multiset.map_comp comp_def)
  also have "\<dots> = (\<Sum>m\<in>#mset (msgs d). {#(fts_of m, m)#})"
    by (rule arg_cong [of _ _ sum_mset], rule image_mset_cong) (simp only: h set_mset_mset mset.simps)
  also have "\<dots> = image_mset (\<lambda>m. (fts_of m, m)) (mset (msgs d))" by (rule sum_mset_singleton_mset)
  finally show ?thesis by simp
qed

lemma page_of_mset: "mset rows = mset rows' \<Longrightarrow> page_of ord n rows out \<Longrightarrow> page_of ord n rows' out"
  unfolding page_of_def by (metis size_mset)

text \<open>The full-text search reports a query FTS5 rejects, and otherwise returns the page of at most
  \<open>limit\<close> messages (50 when none is given), latest first, whose stored body FTS5 matches: the index
  never holds a stale body and never hides or repeats a message.\<close>

theorem search_messages_page:
  assumes "db_ok d" and "no_fault e"
  shows "case fts_match e q of
     Inl t \<Rightarrow> search_messages e q n d = Inl (Wrap (''fts search '' @ go_quote e q) (Driver t))
   | Inr matches \<Rightarrow> \<exists>out. search_messages e q n d = Inr (map (\<lambda>m. scan_hit e q (fts_of m, m)) out)
       \<and> page_of (\<lambda>m. - m_ts m) (nat (if n \<le> 0 then 50 else n))
           (filter (\<lambda>m. matches (coalesce (m_body m) '''')) (msgs d)) out"
proof (cases "fts_match e q")
  case (Inl t)
  then show ?thesis by (simp add: search_messages_def)
next
  case (Inr matches)
  let ?n = "if n \<le> 0 then 50 else n"
  let ?P = "\<lambda>fm. matches (snd (fst fm))"
  let ?J = "inner_join (\<lambda>f m. m_id m = fst f) (fts d) (msgs d)"
  let ?sel = "select_rows (visit e SSearch) ?P (\<lambda>fm. - m_ts (snd fm)) ?n ?J"
  let ?hits = "filter (\<lambda>m. matches (coalesce (m_body m) '''')) (msgs d)"
  have "mset (filter ?P ?J) = mset (filter ?P (map (\<lambda>m. (fts_of m, m)) (msgs d)))"
    by (simp only: mset_filter inner_join_fts [OF assms(1)])
  also have "filter ?P (map (\<lambda>m. (fts_of m, m)) (msgs d)) = map (\<lambda>m. (fts_of m, m)) ?hits"
    by (simp add: filter_map comp_def fts_of_def)
  finally have "page_of (\<lambda>fm. - m_ts (snd fm)) (nat ?n) (map (\<lambda>m. (fts_of m, m)) ?hits) ?sel"
    by (rule page_of_mset) (rule select_rows_page, simp)
  then have "page_of (\<lambda>m. - m_ts m) (nat ?n) (map snd (map (\<lambda>m. (fts_of m, m)) ?hits)) (map snd ?sel)"
    by (rule page_of_map) simp
  then have pg: "page_of (\<lambda>m. - m_ts m) (nat ?n) ?hits (map snd ?sel)" by (simp add: comp_def)
  have "set ?sel \<subseteq> set (map (\<lambda>m. (fts_of m, m)) (msgs d))"
    using select_rows_subset [of "visit e SSearch" ?P "\<lambda>fm. - m_ts (snd fm)" ?n ?J]
      arg_cong [OF inner_join_fts [OF assms(1)], of set_mset] by (auto simp only: set_mset_mset)
  then have "map (scan_hit e q) ?sel = map (\<lambda>fm. scan_hit e q (fts_of (snd fm), snd fm)) ?sel"
    by (intro map_cong refl) auto
  moreover have "search_messages e q n d = Inr (map (scan_hit e q) ?sel)"
    using assms(2) Inr by (simp add: search_messages_def Let_def)
  ultimately have "search_messages e q n d = Inr (map (\<lambda>m. scan_hit e q (fts_of m, m)) (map snd ?sel))"
    by (simp only: map_map comp_def)
  with pg show ?thesis unfolding Inr sum.case by (intro exI conjI)
qed

section \<open>Concrete inputs\<close>

definition sample_msg :: "string \<Rightarrow> int \<Rightarrow> message" where
  "sample_msg mid ts = \<lparr>msg_id = mid, msg_conv = ''c1'', msg_platform = '''', msg_sender = ''p1'', msg_body = Some ''hello'',
     msg_ts = ts, msg_status = 1, msg_from_me = False, msg_media = None, msg_mime = None, msg_key = '''',
     msg_reactions = None, msg_reply = None, msg_raw = ''raw''\<rparr>"

definition sample_db :: db where
  "sample_db = fst (upsert_message (quiet_env 5) (sample_msg ''m3'' 30)
     (fst (upsert_message (quiet_env 5) (sample_msg ''m1'' 10)
     (fst (upsert_message (quiet_env 5) (sample_msg ''m2'' 20) fresh_db)))))"

lemma sample_db_ok [simp]: "db_ok sample_db"
  unfolding sample_db_def by (intro upsert_message_ok db_ok_fresh)

lemma sample_db_msgs: "msgs sample_db = map (\<lambda>(mid, ts). msg_row_of 5 (sample_msg mid ts)) [(''m2'', 20), (''m1'', 10), (''m3'', 30)]"
  by (simp add: sample_db_def upsert_message_result sample_msg_def msg_row_of_def)

lemma sample_log: "conversation_log ''c1'' sample_db
    = map (\<lambda>(mid, ts). msg_row_of 5 (sample_msg mid ts)) [(''m1'', 10), (''m2'', 20), (''m3'', 30)]"
  by (simp add: conversation_log_def sample_db_msgs msg_order_def msg_row_of_def sample_msg_def)

theorem upsert_message_readback_witness:
  "get_message (quiet_env 5) ''m4'' (fst (upsert_message (quiet_env 5) (sample_msg ''m4'' 40) sample_db))
     = Inr ((sample_msg ''m4'' 40)\<lparr>msg_platform := ''gm'', msg_raw := ''''\<rparr>)"
proof -
  have "msg_id (sample_msg ''m4'' 40) \<noteq> ''''" "msg_conv (sample_msg ''m4'' 40) \<noteq> ''''"
    by (simp_all add: sample_msg_def)
  from upsert_message_readback [OF sample_db_ok no_fault_quiet this, of 5]
  show ?thesis unfolding Let_def by (simp add: sample_msg_def)
qed

theorem list_messages_page_witness:
  "\<exists>out. list_messages (quiet_env 5) \<lparr>lm_conv = ''c1'', lm_sender = '''', lm_since = 15, lm_until = zero_time_ms,
        lm_limit = 1, lm_order = ''asc''\<rparr> sample_db = Inr (map scan_message out)
     \<and> page_of (\<lambda>m. if to_upper (quiet_env 5) ''asc'' = ''ASC'' then m_ts m else - m_ts m) 1
         (filter (\<lambda>m. ''c1'' \<in> {'''', m_conv m} \<and> '''' \<in> {'''', m_sender m}
           \<and> ((15::int) = zero_time_ms \<or> 15 \<le> m_ts m) \<and> (zero_time_ms = zero_time_ms \<or> m_ts m \<le> zero_time_ms)) (msgs sample_db)) out"
  using list_messages_page [OF no_fault_quiet [of 5], of "\<lparr>lm_conv = ''c1'', lm_sender = '''', lm_since = 15,
    lm_until = zero_time_ms, lm_limit = 1, lm_order = ''asc''\<rparr>" sample_db]
  by (simp del: insert_iff)

theorem context_is_window_witness:
  "get_message_context (quiet_env 5) ''m2'' 1 7 sample_db
     = Inr (map (\<lambda>(mid, ts). scan_message (msg_row_of 5 (sample_msg mid ts))) [(''m1'', 10), (''m2'', 20), (''m3'', 30)])"
proof -
  have "1 < length (conversation_log ''c1'' sample_db)" by (simp add: sample_log)
  from context_is_window [OF sample_db_ok no_fault_quiet this, of 5 1 7]
  show ?thesis by (simp add: sample_log sample_msg_def)
qed

theorem search_messages_page_witness:
  "\<exists>out. search_messages (quiet_env 5) ''ell'' 2 sample_db = Inr (map (\<lambda>m. scan_hit (quiet_env 5) ''ell'' (fts_of m, m)) out)
     \<and> page_of (\<lambda>m. - m_ts m) 2 (filter (\<lambda>m. str_contains ''ell'' (coalesce (m_body m) '''')) (msgs sample_db)) out"
  using search_messages_page [OF sample_db_ok no_fault_quiet, of 5 "''ell''" 2] by simp

end
