(* ===== verification/Store_Contacts.thy ===== *)
theory Store_Contacts
  imports Store_Aliases
begin

text \<open>
  \<open>internal/store/contacts.go\<close>: the address book, its search by escaped LIKE patterns over name,
  local alias and numbers, and the lookups by participant id and by number.
\<close>

record contact =
  con_id :: string
  con_platform :: string
  con_contact_id :: string
  con_name :: string
  con_e164 :: string
  con_formatted :: string
  con_color :: string
  con_is_me :: bool
  con_alias :: string
  con_display :: string

definition contact_row_of :: "int \<Rightarrow> contact \<Rightarrow> contact_row" where
  "contact_row_of now c = \<lparr>k_id = con_id c,
     k_platform = (if con_platform c = '''' then ''gm'' else con_platform c),
     k_contact_id = con_contact_id c, k_name = con_name c, k_e164 = con_e164 c,
     k_formatted = con_formatted c, k_color = con_color c, k_is_me = bool_to_int (con_is_me c),
     k_updated_at = now\<rparr>"

definition contact_merge :: "contact_row \<Rightarrow> contact_row \<Rightarrow> contact_row" where
  "contact_merge old new = old\<lparr>k_platform := k_platform new, k_contact_id := k_contact_id new,
     k_name := k_name new, k_e164 := k_e164 new, k_formatted := k_formatted new, k_color := k_color new,
     k_is_me := k_is_me new, k_updated_at := k_updated_at new\<rparr>"

definition upsert_contact :: "'z env_scheme \<Rightarrow> contact \<Rightarrow> db \<Rightarrow> db \<times> err option" where
  "upsert_contact e c d =
     (if con_id c = '''' then (d, Some (Msg ''participant id is required''))
      else (case exec_fault e SUpsertContact of
          Some t \<Rightarrow> (d, Some (Wrap (''upsert contact '' @ con_id c) (Driver t)))
        | None \<Rightarrow> (d\<lparr>contacts := upsert_row k_id contact_merge (contact_row_of (now_ms e) c) (contacts d)\<rparr>, None)))"

definition count_contacts :: "'z env_scheme \<Rightarrow> db \<Rightarrow> err + nat" where
  "count_contacts e d = query_row e SCountContacts [length (contacts d)]"

text \<open>\<open>scanContactWithAlias\<close>: the row joined with its alias; the alias wins as display name.\<close>

definition scan_contact :: "contact_row \<times> alias_row option \<Rightarrow> contact" where
  "scan_contact ra = (case ra of (r, a) \<Rightarrow> (let alias = coalesce (map_option al_alias a) '''' in
     \<lparr>con_id = k_id r, con_platform = k_platform r, con_contact_id = k_contact_id r, con_name = k_name r,
      con_e164 = k_e164 r, con_formatted = k_formatted r, con_color = k_color r,
      con_is_me = (k_is_me r \<noteq> 0), con_alias = alias,
      con_display = (if alias \<noteq> '''' then alias else k_name r)\<rparr>))"

definition join_contact_aliases :: "db \<Rightarrow> (contact_row \<times> alias_row option) list" where
  "join_contact_aliases d = left_join (\<lambda>c a. al_key a = (''contact'', k_id c)) (contacts d) (aliases d)"

text \<open>The pattern \<open>SearchContacts\<close> builds: backslashes and percent signs are escaped.\<close>

definition like_pattern :: "string \<Rightarrow> string" where
  "like_pattern q = ''%'' @ replace_char (CHR ''%'') [esc_char, CHR ''%''] (replace_char esc_char [esc_char, esc_char] q) @ ''%''"

definition search_contacts_where :: "string \<Rightarrow> contact_row \<times> alias_row option \<Rightarrow> bool" where
  "search_contacts_where q ra \<longleftrightarrow> q = '''' \<or> (let like = like_pattern q in
     sql_like like (k_name (fst ra))
     \<or> (case snd ra of None \<Rightarrow> False | Some a \<Rightarrow> sql_like like (al_alias a))
     \<or> sql_like like (k_e164 (fst ra)) \<or> sql_like like (k_formatted (fst ra)))"

definition contact_label :: "contact_row \<times> alias_row option \<Rightarrow> string" where
  "contact_label ra = coalesce (map_option al_alias (snd ra)) (k_name (fst ra))"

definition search_contacts :: "'z env_scheme \<Rightarrow> string \<Rightarrow> int \<Rightarrow> db \<Rightarrow> err + contact list" where
  "search_contacts e q n d = list_rows e SSearchContacts ''search contacts'' (map scan_contact
     (select_rows (visit e SSearchContacts) (search_contacts_where q) (\<lambda>ra. nocase (contact_label ra))
        (if n \<le> 0 then 50 else n) (join_contact_aliases d)))"

definition get_contact :: "'z env_scheme \<Rightarrow> string \<Rightarrow> db \<Rightarrow> err + contact" where
  "get_contact e cid d = not_found (query_row e SGetContact (map scan_contact
     (filter (\<lambda>ra. k_id (fst ra) = cid) (scan_rows (visit e SGetContact) (join_contact_aliases d)))))"

definition get_contact_by_number :: "'z env_scheme \<Rightarrow> string \<Rightarrow> db \<Rightarrow> err + contact" where
  "get_contact_by_number e number d = not_found (query_row e SGetContactByNumber (map scan_contact
     (sql_limit 1 (filter (\<lambda>ra. k_e164 (fst ra) = number \<or> k_formatted (fst ra) = number)
        (scan_rows (visit e SGetContactByNumber) (join_contact_aliases d))))))"

interpretation contact_table: overwriting_table k_id contact_merge
  by unfold_locales (auto simp: contact_merge_def)

section \<open>Facts\<close>

lemma contact_row_of_id [simp]: "k_id (contact_row_of now c) = con_id c"
  by (simp add: contact_row_of_def)

definition contact_view :: "db \<Rightarrow> contact_row \<Rightarrow> contact" where
  "contact_view d r = scan_contact (r, row_with al_key (''contact'', k_id r) (aliases d))"

lemma join_contact_aliases_eq:
  assumes "db_ok d"
  shows "join_contact_aliases d
    = map (\<lambda>c. (c, row_with al_key (''contact'', k_id c) (aliases d))) (contacts d)"
  unfolding join_contact_aliases_def
  using filter_key_scan [OF db_okD(4) [OF assms], of _ "[0..<length (aliases d)]"]
  by (intro left_join_unique) simp

lemma get_contact_eq:
  assumes "db_ok d" and "no_fault e"
  shows "get_contact e cid d = (case row_with k_id cid (contacts d) of
      None \<Rightarrow> Inl ErrNotFound | Some r \<Rightarrow> Inr (contact_view d r))"
proof -
  let ?g = "\<lambda>c. (c, row_with al_key (''contact'', k_id c) (aliases d))"
  have "distinct (map (\<lambda>ra. k_id (fst ra)) (map ?g (contacts d)))"
    using db_okD(3) [OF assms(1)] by (simp add: comp_def)
  from filter_key_scan [OF this, of cid "visit e SGetContact"]
  have "filter (\<lambda>ra. k_id (fst ra) = cid) (scan_rows (visit e SGetContact) (map ?g (contacts d)))
      = (case map_option ?g (row_with k_id cid (contacts d)) of None \<Rightarrow> [] | Some r \<Rightarrow> [r])"
    by (subst (asm) row_with_map [where key = k_id]) simp_all
  then show ?thesis using assms(2)
    by (simp add: get_contact_def join_contact_aliases_eq [OF assms(1)] contact_view_def not_found_def
        split: option.split)
qed

lemma upsert_contact_frame [frame_simps]:
  "convs (fst (upsert_contact e c d)) = convs d" "msgs (fst (upsert_contact e c d)) = msgs d"
  "fts (fst (upsert_contact e c d)) = fts d" "aliases (fst (upsert_contact e c d)) = aliases d"
  "approvals (fst (upsert_contact e c d)) = approvals d" "sync (fst (upsert_contact e c d)) = sync d"
  by (simp_all add: upsert_contact_def split: option.split)

lemma upsert_contact_ok [store_inv]: "db_ok d \<Longrightarrow> db_ok (fst (upsert_contact e c d))"
  by (auto simp: upsert_contact_def split: option.split
      intro!: db_ok_contacts contact_table.upsert_distinct dest: db_okD(3))

lemma replace_twice:
  "replace_char (CHR ''%'') [esc_char, CHR ''%''] (replace_char esc_char [esc_char, esc_char] q)
    = escape_chars {CHR ''%'', esc_char} q"
  using esc_char_neq [symmetric] by (induction q) (auto simp: replace_char_def escape_chars_def)

lemma like_pattern_eq: "like_pattern q = ''%'' @ escape_chars {CHR ''%'', esc_char} q @ ''%''"
  by (simp only: like_pattern_def replace_twice)

text \<open>A contact answers a query when its name, its alias or one of its numbers contains it.\<close>

definition contact_matches :: "string \<Rightarrow> contact \<Rightarrow> bool" where
  "contact_matches q c \<longleftrightarrow> contains_nocase q (con_name c) \<or> contains_nocase q (con_alias c)
     \<or> contains_nocase q (con_e164 c) \<or> contains_nocase q (con_formatted c)"

lemma contains_nocase_Nil: "contains_nocase q '''' \<longleftrightarrow> q = ''''"
  by (simp add: contains_nocase_iff nocase_def)

lemma search_contacts_where_iff:
  assumes "CHR ''_'' \<notin> set q"
  shows "search_contacts_where q (r, a) \<longleftrightarrow> contact_matches q (scan_contact (r, a))"
proof -
  have lk: "sql_like (like_pattern q) s \<longleftrightarrow> contains_nocase q s" for s
    unfolding like_pattern_eq by (rule like_contains) (use assms in auto)
  have "contains_nocase '''' s" for s by (auto simp: contains_nocase_iff nocase_def)
  then show ?thesis
    by (cases a) (auto simp: search_contacts_where_def lk contact_matches_def scan_contact_def Let_def
        coalesce_def contains_nocase_Nil)
qed

lemma get_contact_by_number_cases:
  assumes "db_ok d" and "no_fault e"
  shows "(\<exists>r \<in> set (contacts d). (k_e164 r = num \<or> k_formatted r = num)
      \<and> get_contact_by_number e num d = Inr (contact_view d r))
    \<or> (\<forall>r \<in> set (contacts d). k_e164 r \<noteq> num \<and> k_formatted r \<noteq> num)
      \<and> get_contact_by_number e num d = Inl ErrNotFound"
proof -
  let ?g = "\<lambda>c. (c, row_with al_key (''contact'', k_id c) (aliases d))"
  let ?hits = "filter (\<lambda>ra. k_e164 (fst ra) = num \<or> k_formatted (fst ra) = num)
        (scan_rows (visit e SGetContactByNumber) (map ?g (contacts d)))"
  have set: "set ?hits = ?g ` {r \<in> set (contacts d). k_e164 r = num \<or> k_formatted r = num}" by auto
  show ?thesis
  proof (cases ?hits)
    case Nil
    with set have none: "{r \<in> set (contacts d). k_e164 r = num \<or> k_formatted r = num} = {}" by simp
    from Nil have "get_contact_by_number e num d = Inl ErrNotFound"
      using assms by (simp add: get_contact_by_number_def join_contact_aliases_eq sql_limit_def not_found_def)
    with none show ?thesis by auto
  next
    case (Cons h hs)
    have "h \<in> ?g ` {r \<in> set (contacts d). k_e164 r = num \<or> k_formatted r = num}"
      unfolding set [symmetric] Cons by simp
    then obtain r where r: "h = ?g r" "r \<in> set (contacts d)" "k_e164 r = num \<or> k_formatted r = num"
      by (elim imageE) simp
    from Cons have "get_contact_by_number e num d = Inr (scan_contact h)"
      using assms by (simp add: get_contact_by_number_def join_contact_aliases_eq sql_limit_def not_found_def)
    then have "get_contact_by_number e num d = Inr (contact_view d r)" by (simp only: r(1) contact_view_def)
    with r(2,3) show ?thesis by blast
  qed
qed

text \<open>An upserted contact is read back with the values given and is shown under its local alias
  when one is set, under its own name otherwise; other contacts read as before; a number that is
  its E.164 or formatted number finds a contact that has it.\<close>

theorem upsert_contact_readback:
  assumes "db_ok d" and "no_fault e" and "con_id c \<noteq> ''''"
  shows "let d' = fst (upsert_contact e c d); label = coalesce (alias_of d ''contact'' (con_id c)) '''' in
     snd (upsert_contact e c d) = None
     \<and> get_contact e (con_id c) d' = Inr (c\<lparr>
         con_platform := (if con_platform c = '''' then ''gm'' else con_platform c), con_alias := label,
         con_display := (if label \<noteq> '''' then label else con_name c)\<rparr>)
     \<and> (\<forall>cid. cid = con_id c \<or> get_contact e cid d' = get_contact e cid d)
     \<and> (\<exists>x. get_contact_by_number e (con_e164 c) d' = Inr x
            \<and> (con_e164 x = con_e164 c \<or> con_formatted x = con_e164 c))"
proof -
  define d' where "d' = fst (upsert_contact e c d)"
  let ?r = "contact_row_of (now_ms e) c"
  have d': "d' = d\<lparr>contacts := upsert_row k_id contact_merge ?r (contacts d)\<rparr>"
    using assms(2,3) by (simp add: d'_def upsert_contact_def)
  have ok: "db_ok d'" unfolding d'_def by (rule upsert_contact_ok [OF assms(1)])
  have al: "aliases d' = aliases d" by (simp add: d')
  have same: "row_with k_id (con_id c) (contacts d') = Some ?r"
    using contact_table.upsert_stored [of ?r "contacts d"] by (simp add: d')
  have other: "row_with k_id cid (contacts d') = row_with k_id cid (contacts d)" if "cid \<noteq> con_id c" for cid
    using contact_table.upsert_other [of cid ?r "contacts d"] that by (simp add: d')
  have "snd (upsert_contact e c d) = None"
    using assms(2,3) by (simp add: upsert_contact_def)
  moreover have "get_contact e (con_id c) d' = Inr (c\<lparr>
         con_platform := (if con_platform c = '''' then ''gm'' else con_platform c),
         con_alias := coalesce (alias_of d ''contact'' (con_id c)) '''',
         con_display := (if coalesce (alias_of d ''contact'' (con_id c)) '''' \<noteq> ''''
            then coalesce (alias_of d ''contact'' (con_id c)) '''' else con_name c)\<rparr>)"
    by (simp add: get_contact_eq [OF ok assms(2)] same contact_view_def scan_contact_def al alias_of_def
        contact_row_of_def Let_def)
  moreover have "cid = con_id c \<or> get_contact e cid d' = get_contact e cid d" for cid
    using other [of cid]
    by (cases "cid = con_id c") (simp_all add: get_contact_eq assms(1,2) ok contact_view_def al split: option.split)
  moreover have "\<exists>x. get_contact_by_number e (con_e164 c) d' = Inr x
      \<and> (con_e164 x = con_e164 c \<or> con_formatted x = con_e164 c)"
  proof -
    have "?r \<in> set (contacts d')" "k_e164 ?r = con_e164 c"
      using row_with_Some [OF same] by (simp_all add: contact_row_of_def)
    with get_contact_by_number_cases [OF ok assms(2), of "con_e164 c"] show ?thesis
      by (auto simp: contact_view_def scan_contact_def Let_def)
  qed
  ultimately show ?thesis unfolding Let_def d'_def [symmetric] by blast
qed

text \<open>A search whose query has no underscore returns the page of at most \<open>limit\<close> contacts (50 when
  none is given), in case-insensitive order of their labels, whose name, alias or number contains
  the query case-insensitively: percent signs and backslashes in the query are literal.\<close>

theorem search_contacts_page:
  assumes "db_ok d" and "no_fault e" and "CHR ''_'' \<notin> set q"
  shows "\<exists>out. search_contacts e q n d = Inr (map (contact_view d) out)
     \<and> page_of (\<lambda>r. nocase (coalesce (alias_of d ''contact'' (k_id r)) (k_name r))) (nat (if n \<le> 0 then 50 else n))
         (filter (\<lambda>r. contact_matches q (contact_view d r)) (contacts d)) out"
proof -
  let ?g = "\<lambda>c. (c, row_with al_key (''contact'', k_id c) (aliases d))"
  let ?ord = "\<lambda>ra. nocase (contact_label ra)"
  let ?n = "if n \<le> 0 then 50 else n"
  let ?sel = "select_rows (visit e SSearchContacts) (search_contacts_where q) ?ord ?n (map ?g (contacts d))"
  let ?P = "\<lambda>r. contact_matches q (contact_view d r)"
  have "filter (search_contacts_where q) (map ?g (contacts d)) = map ?g (filter ?P (contacts d))"
    by (simp add: filter_map comp_def search_contacts_where_iff [OF assms(3)] contact_view_def)
  then have "page_of ?ord (nat ?n) (map ?g (filter ?P (contacts d))) ?sel"
    using select_rows_page [of ?n ?ord "search_contacts_where q" "map ?g (contacts d)" "visit e SSearchContacts"]
    by simp
  then have pg: "page_of (\<lambda>r. nocase (coalesce (alias_of d ''contact'' (k_id r)) (k_name r))) (nat ?n)
      (map fst (map ?g (filter ?P (contacts d)))) (map fst ?sel)"
    by (rule page_of_map) (auto simp: contact_label_def alias_of_def)
  have "set ?sel \<subseteq> ?g ` set (contacts d)"
    using select_rows_subset [of "visit e SSearchContacts" "search_contacts_where q" ?ord ?n "map ?g (contacts d)"]
    by (simp only: set_map) blast
  then have "scan_contact ra = contact_view d (fst ra)" if "ra \<in> set ?sel" for ra
    using that by (auto simp only: contact_view_def fst_conv)
  then have "map scan_contact ?sel = map (\<lambda>ra. contact_view d (fst ra)) ?sel"
    by (intro map_cong refl)
  moreover have "search_contacts e q n d = Inr (map scan_contact ?sel)"
    using assms by (simp add: search_contacts_def join_contact_aliases_eq)
  ultimately show ?thesis using pg by (intro exI [of _ "map fst ?sel"] conjI) (simp_all add: comp_def)
qed

text \<open>An underscore in the query is not escaped and matches any character: the query finds a
  contact whose name has some other ASCII character in its place.\<close>

theorem search_underscore_wildcard:
  assumes "{CHR ''%'', CHR ''_'', esc_char} \<inter> set (a @ b) = {}" and "byte_of c < 128"
    and "k_name r = x @ a @ [c] @ b @ y"
  shows "search_contacts_where (a @ ''_'' @ b) (r, al)"
proof -
  let ?X = "{CHR ''%'', esc_char}"
  have us: "escape_chars ?X (a @ ''_'' @ b) = escape_chars ?X a @ ''_'' @ escape_chars ?X b"
    using esc_char_neq(2) [symmetric] by (simp add: escape_chars_def)
  have "sql_like (escape_chars ?X b @ ''%'') (b @ y)"
    by (subst like_escaped) (use assms(1) in auto)
  moreover have "sql_like (CHR ''_'' # p) (c # s) = sql_like p s" for p s
    by (subst sql_like.simps) (use assms(2) in simp)
  ultimately have "sql_like (escape_chars ?X a @ ''_'' @ escape_chars ?X b @ ''%'') (a @ [c] @ b @ y)"
    by (subst like_escaped) (use assms(1) in auto)
  then have "sql_like (like_pattern (a @ ''_'' @ b)) (k_name r)"
    unfolding like_pattern_eq us assms(3) by (simp add: like_percent) blast
  then show ?thesis by (simp add: search_contacts_where_def Let_def)
qed

definition sample_contact :: contact where
  "sample_contact = \<lparr>con_id = ''p1'', con_platform = '''', con_contact_id = ''g1'', con_name = ''Jon'', con_e164 = ''+15'',
     con_formatted = ''15'', con_color = '''', con_is_me = False, con_alias = '''', con_display = ''''\<rparr>"

theorem upsert_contact_readback_witness:
  "get_contact (quiet_env 5) ''p1'' (fst (upsert_contact (quiet_env 5) sample_contact fresh_db))
     = Inr (sample_contact\<lparr>con_platform := ''gm'', con_display := ''Jon''\<rparr>)"
proof -
  have "con_id sample_contact \<noteq> ''''" by (simp add: sample_contact_def)
  note readback = upsert_contact_readback [OF db_ok_fresh no_fault_quiet this, of 5, unfolded Let_def]
  have "alias_of fresh_db ''contact'' (con_id sample_contact) = None" by (simp add: alias_of_def)
  with readback show ?thesis by (simp add: sample_contact_def coalesce_def)
qed

theorem search_contacts_page_witness:
  "\<exists>out. search_contacts (quiet_env 5) ''jO'' 0 (fst (upsert_contact (quiet_env 5) sample_contact fresh_db))
      = Inr (map (contact_view (fst (upsert_contact (quiet_env 5) sample_contact fresh_db))) out)
    \<and> page_of (\<lambda>r. nocase (coalesce (alias_of (fst (upsert_contact (quiet_env 5) sample_contact fresh_db)) ''contact'' (k_id r)) (k_name r)))
        50 [contact_row_of 5 sample_contact] out"
proof -
  let ?d = "fst (upsert_contact (quiet_env 5) sample_contact fresh_db)"
  have ok: "db_ok ?d" by (intro upsert_contact_ok db_ok_fresh)
  have cs: "contacts ?d = [contact_row_of 5 sample_contact]"
    by (simp add: upsert_contact_def sample_contact_def)
  have "contact_matches ''jO'' (contact_view ?d (contact_row_of 5 sample_contact))"
  proof -
    have "contains_nocase ''jO'' ''Jon''" by code_simp
    then show ?thesis
      by (simp add: contact_matches_def contact_view_def scan_contact_def Let_def contact_row_of_def sample_contact_def)
  qed
  with search_contacts_page [OF ok no_fault_quiet, of "''jO''" 5 0] cs show ?thesis by simp
qed

theorem search_underscore_wildcard_witness:
  "search_contacts_where ''J_n'' (contact_row_of 5 sample_contact, None)"
proof -
  have "{CHR ''%'', CHR ''_'', esc_char} \<inter> set (''J'' @ ''n'') = {}" by (simp add: esc_char_def)
  from search_underscore_wildcard [OF this, of "CHR ''o''" "contact_row_of 5 sample_contact" "''''" "''''" None]
  show ?thesis by (simp add: contact_row_of_def sample_contact_def byte_of_def)
qed

end
