(* ===== verification/Go_Json.thy ===== *)
theory Go_Json
  imports Go_Text
begin

text \<open>
  \<open>encoding/json\<close> as the program uses it: values, the compact encoder with its HTML escaping, the
  decoder, and the fields of objects as struct decoding looks them up.
\<close>

text \<open>Number literals that are not integers are kept as text.\<close>

datatype json =
    JNull
  | JBool bool
  | JInt int
  | JLit string
  | JStr string
  | JArr "json list"
  | JObj "(string \<times> json) list"

section \<open>Encoding\<close>

definition json_chunk :: "string \<Rightarrow> string" where
  "json_chunk c = (let r = chunk_rune c in
     if r = 34 \<or> r = 92 then [backslash, char_of r]
     else if r = 8 then backslash # ''b'' else if r = 12 then backslash # ''f''
     else if r = 10 then backslash # ''n'' else if r = 13 then backslash # ''r''
     else if r = 9 then backslash # ''t''
     else if r < 32 \<or> r = 60 \<or> r = 62 \<or> r = 38 then backslash # ''u'' @ hex_digits 4 r
     else if r < 128 then c
     else if r = rune_error \<and> length c = 1 then backslash # ''ufffd''
     else if r = 8232 \<or> r = 8233 then backslash # ''u'' @ hex_digits 4 r
     else c)"

definition json_string :: "string \<Rightarrow> string" where
  "json_string s = [CHR 34] @ concat (map json_chunk (chunks s)) @ [CHR 34]"

fun marshal :: "json \<Rightarrow> string" where
  "marshal JNull = ''null''"
| "marshal (JBool b) = (if b then ''true'' else ''false'')"
| "marshal (JInt i) = itoa i"
| "marshal (JLit t) = t"
| "marshal (JStr s) = json_string s"
| "marshal (JArr vs) = ''['' @ join_with '','' (map marshal vs) @ '']''"
| "marshal (JObj fs) = ''{'' @ join_with '','' (map (\<lambda>kv. json_string (fst kv) @ '':'' @ marshal (snd kv)) fs) @ ''}''"

text \<open>A map is encoded with its keys sorted, a struct with its fields as declared.\<close>

definition json_map :: "(string \<times> json) list \<Rightarrow> json" where
  "json_map fs = JObj (sort_key fst fs)"

section \<open>Decoding\<close>

definition is_json_space :: "char \<Rightarrow> bool" where
  "is_json_space c \<longleftrightarrow> byte_of c \<in> {32, 9, 10, 13}"

definition is_json_digit :: "char \<Rightarrow> bool" where
  "is_json_digit c \<longleftrightarrow> 48 \<le> byte_of c \<and> byte_of c \<le> 57"

definition skip_ws :: "string \<Rightarrow> string" where
  "skip_ws s = dropWhile is_json_space s"

text \<open>The bytes of a string literal up to its closing quote, and what follows.\<close>

fun split_literal :: "string \<Rightarrow> (string \<times> string) option" where
  "split_literal [] = None"
| "split_literal [c] = (if c = CHR 34 then Some ([], []) else None)"
| "split_literal (c # d # s) =
     (if c = CHR 34 then Some ([], d # s)
      else if byte_of c < 32 then None
      else if c = backslash then map_option (\<lambda>(l, r). (c # d # l, r)) (split_literal s)
      else map_option (\<lambda>(l, r). (c # l, r)) (split_literal (d # s)))"

definition hex_value :: "char \<Rightarrow> nat option" where
  "hex_value c = (let b = byte_of c in
     if 48 \<le> b \<and> b \<le> 57 then Some (b - 48)
     else if 97 \<le> b \<and> b \<le> 102 then Some (b - 87)
     else if 65 \<le> b \<and> b \<le> 70 then Some (b - 55) else None)"

fun hex_number :: "nat \<Rightarrow> string \<Rightarrow> nat option" where
  "hex_number acc [] = Some acc"
| "hex_number acc (c # s) = (case hex_value c of None \<Rightarrow> None | Some v \<Rightarrow> hex_number (acc * 16 + v) s)"

text \<open>\<open>getu4\<close>: the rune of a \<open>\uXXXX\<close> at the head of a string.\<close>

definition get_u4 :: "string \<Rightarrow> nat option" where
  "get_u4 s = (if length s < 6 \<or> take 2 s \<noteq> [backslash, CHR ''u''] then None
     else hex_number 0 (take 4 (drop 2 s)))"

definition is_surrogate :: "nat \<Rightarrow> bool" where
  "is_surrogate r \<longleftrightarrow> 55296 \<le> r \<and> r \<le> 57343"

definition decode_surrogates :: "nat \<Rightarrow> nat \<Rightarrow> nat" where
  "decode_surrogates r1 r2 =
     (if 55296 \<le> r1 \<and> r1 < 56320 \<and> 56320 \<le> r2 \<and> r2 \<le> 57343
      then (r1 - 55296) * 1024 + (r2 - 56320) + 65536 else rune_error)"

fun unescape :: "nat \<Rightarrow> string \<Rightarrow> string option" where
  "unescape 0 s = (if s = [] then Some [] else None)"
| "unescape (Suc n) [] = Some []"
| "unescape (Suc n) (c # s) =
     (if c \<noteq> backslash then map_option ((#) c) (unescape n s)
      else (case s of
          [] \<Rightarrow> None
        | d # s' \<Rightarrow>
            if d = CHR 34 \<or> d = backslash \<or> d = CHR ''/'' then map_option ((#) d) (unescape n s')
            else if d = CHR ''b'' then map_option ((#) (char_of (8::nat))) (unescape n s')
            else if d = CHR ''f'' then map_option ((#) (char_of (12::nat))) (unescape n s')
            else if d = CHR ''n'' then map_option ((#) (char_of (10::nat))) (unescape n s')
            else if d = CHR ''r'' then map_option ((#) (char_of (13::nat))) (unescape n s')
            else if d = CHR ''t'' then map_option ((#) (char_of (9::nat))) (unescape n s')
            else (case get_u4 (c # s) of
                None \<Rightarrow> None
              | Some r \<Rightarrow>
                  if is_surrogate r then
                    (case get_u4 (drop 5 s) of
                      Some r' \<Rightarrow>
                        if decode_surrogates r r' \<noteq> rune_error
                        then map_option ((@) (encode_rune (decode_surrogates r r'))) (unescape n (drop 11 s))
                        else map_option ((@) (encode_rune rune_error)) (unescape n (drop 5 s))
                    | None \<Rightarrow> map_option ((@) (encode_rune rune_error)) (unescape n (drop 5 s)))
                  else map_option ((@) (encode_rune r)) (unescape n (drop 5 s)))))"

text \<open>Bytes that are not UTF-8 are replaced by U+FFFD, then the escapes are read.\<close>

definition unquote :: "string \<Rightarrow> string option" where
  "unquote raw = (let s = string_of_runes (runes raw) in unescape (length s) s)"

definition parse_string :: "string \<Rightarrow> (string \<times> string) option" where
  "parse_string s = (case split_literal s of
     None \<Rightarrow> None | Some (raw, rest) \<Rightarrow> map_option (\<lambda>t. (t, rest)) (unquote raw))"

fun nat_of_digits :: "nat \<Rightarrow> string \<Rightarrow> nat" where
  "nat_of_digits acc [] = acc"
| "nat_of_digits acc (c # s) = nat_of_digits (acc * 10 + (byte_of c - 48)) s"

text \<open>A number literal: sign, integer part, fraction, exponent.\<close>

definition parse_number :: "string \<Rightarrow> (json \<times> string) option" where
  "parse_number s =
     (let neg = (take 1 s = ''-''); s1 = (if neg then drop 1 s else s);
        ip = takeWhile is_json_digit s1; s2 = dropWhile is_json_digit s1;
        fp = (if take 1 s2 = ''.'' then takeWhile is_json_digit (drop 1 s2) else '''');
        s3 = (if take 1 s2 = ''.'' then dropWhile is_json_digit (drop 1 s2) else s2);
        isexp = (s3 \<noteq> [] \<and> hd s3 \<in> {CHR ''e'', CHR ''E''});
        s4 = (if isexp then drop 1 s3 else s3);
        s5 = (if isexp \<and> s4 \<noteq> [] \<and> hd s4 \<in> {CHR ''+'', CHR ''-''} then drop 1 s4 else s4);
        ep = (if isexp then takeWhile is_json_digit s5 else '''');
        rest = (if isexp then dropWhile is_json_digit s5 else s3) in
      if ip = [] \<or> 1 < length ip \<and> hd ip = CHR ''0'' \<or> take 1 s2 = ''.'' \<and> fp = [] \<or> isexp \<and> ep = [] then None
      else if take 1 s2 \<noteq> ''.'' \<and> \<not> isexp
        then Some (JInt (if neg then - int (nat_of_digits 0 ip) else int (nat_of_digits 0 ip)), rest)
        else Some (JLit (take (length s - length rest) s), rest))"

text \<open>The decoder; every level of nesting and every element uses one unit of fuel, of which an input
  of length \<open>n\<close> needs at most \<open>n + 1\<close>.\<close>

fun parse_value :: "nat \<Rightarrow> string \<Rightarrow> (json \<times> string) option"
  and parse_elems :: "nat \<Rightarrow> string \<Rightarrow> (json list \<times> string) option"
  and parse_members :: "nat \<Rightarrow> string \<Rightarrow> ((string \<times> json) list \<times> string) option" where
  "parse_value 0 s0 = None"
| "parse_value (Suc n) s0 = (let s = skip_ws s0 in
     if has_prefix ''null'' s then Some (JNull, drop 4 s)
     else if has_prefix ''true'' s then Some (JBool True, drop 4 s)
     else if has_prefix ''false'' s then Some (JBool False, drop 5 s)
     else if has_prefix [CHR 34] s then map_option (\<lambda>(t, r). (JStr t, r)) (parse_string (drop 1 s))
     else if has_prefix ''['' s then
       (if has_prefix '']'' (skip_ws (drop 1 s)) then Some (JArr [], drop 1 (skip_ws (drop 1 s)))
        else map_option (\<lambda>(vs, r). (JArr vs, r)) (parse_elems n (drop 1 s)))
     else if has_prefix ''{'' s then
       (if has_prefix ''}'' (skip_ws (drop 1 s)) then Some (JObj [], drop 1 (skip_ws (drop 1 s)))
        else map_option (\<lambda>(fs, r). (JObj fs, r)) (parse_members n (drop 1 s)))
     else parse_number s)"
| "parse_elems 0 s = None"
| "parse_elems (Suc n) s = (case parse_value n s of
     None \<Rightarrow> None
   | Some (v, r) \<Rightarrow> (let r' = skip_ws r in
       if has_prefix '']'' r' then Some ([v], drop 1 r')
       else if has_prefix '','' r' then map_option (\<lambda>(vs, q). (v # vs, q)) (parse_elems n (drop 1 r'))
       else None))"
| "parse_members 0 s = None"
| "parse_members (Suc n) s = (if \<not> has_prefix [CHR 34] (skip_ws s) then None
     else (case parse_string (drop 1 (skip_ws s)) of
         None \<Rightarrow> None
       | Some (k, r) \<Rightarrow> if \<not> has_prefix '':'' (skip_ws r) then None
           else (case parse_value n (drop 1 (skip_ws r)) of
               None \<Rightarrow> None
             | Some (v, q) \<Rightarrow> (let q' = skip_ws q in
                 if has_prefix ''}'' q' then Some ([(k, v)], drop 1 q')
                 else if has_prefix '','' q' then map_option (\<lambda>(fs, z). ((k, v) # fs, z)) (parse_members n (drop 1 q'))
                 else None))))"

definition parse_json :: "string \<Rightarrow> json option" where
  "parse_json s = (case parse_value (2 * length s + 2) s of
     None \<Rightarrow> None | Some (v, rest) \<Rightarrow> if skip_ws rest = [] then Some v else None)"

section \<open>Fields of an object\<close>

text \<open>Struct decoding: an exact name or, failing that, one equal up to case; the last one wins. The
  names the program declares are ASCII, and so is the folding of the model.\<close>

definition ascii_fold :: "string \<Rightarrow> string" where
  "ascii_fold s = map (\<lambda>c. if 65 \<le> byte_of c \<and> byte_of c \<le> 90 then char_of (byte_of c + 32) else c) s"

definition obj_values :: "string \<Rightarrow> (string \<times> json) list \<Rightarrow> json list" where
  "obj_values name fs = map snd (filter (\<lambda>kv. ascii_fold (fst kv) = ascii_fold name) fs)"

text \<open>Decoding into a field of a given type takes its values in turn: null changes nothing, a value of
  another type changes nothing and makes the decoding fail, once the rest has been decoded.\<close>

definition get_string :: "(string \<times> json) list \<Rightarrow> string \<Rightarrow> string" where
  "get_string fs name = foldl (\<lambda>acc v. case v of JStr s \<Rightarrow> s | _ \<Rightarrow> acc) '''' (obj_values name fs)"

definition get_bool :: "(string \<times> json) list \<Rightarrow> string \<Rightarrow> bool" where
  "get_bool fs name = foldl (\<lambda>acc v. case v of JBool b \<Rightarrow> b | _ \<Rightarrow> acc) False (obj_values name fs)"

definition int64_ok :: "int \<Rightarrow> bool" where
  "int64_ok i \<longleftrightarrow> - (2 ^ 63) \<le> i \<and> i < 2 ^ 63"

definition get_int :: "(string \<times> json) list \<Rightarrow> string \<Rightarrow> int" where
  "get_int fs name = foldl (\<lambda>acc v. case v of JInt i \<Rightarrow> if int64_ok i then i else acc | _ \<Rightarrow> acc) 0 (obj_values name fs)"

datatype json_kind = KString | KBool | KInt

fun kind_ok :: "json_kind \<Rightarrow> json \<Rightarrow> bool" where
  "kind_ok k JNull = True"
| "kind_ok KString (JStr s) = True"
| "kind_ok KBool (JBool b) = True"
| "kind_ok KInt (JInt i) = int64_ok i"
| "kind_ok k v = False"

text \<open>Whether a struct with the given fields decodes without an error.\<close>

definition fields_ok :: "(string \<times> json_kind) list \<Rightarrow> (string \<times> json) list \<Rightarrow> bool" where
  "fields_ok decl fs \<longleftrightarrow> (\<forall>(name, k) \<in> set decl. list_all (kind_ok k) (obj_values name fs))"

end
