(* ===== verification/Sync_Pump.thy ===== *)
theory Sync_Pump
  imports Store_Messages Store_Contacts Go_Json
begin

text \<open>
  \<open>internal/sync/sync.go\<close>: the pump that turns libgm events into store rows.
\<close>

section \<open>libgm's data, as its getters read it\<close>

text \<open>A nil message reads as its zero value, so optional submessages are flattened into their fields.\<close>

record gm_participant =
  part_id :: string
  part_number :: string
  part_full_name :: string
  part_first_name :: string
  part_contact_id :: string
  part_formatted :: string
  part_color :: string
  part_is_me :: bool

record gm_conversation =
  gc_id :: string
  gc_name :: string
  gc_is_group :: bool
  gc_participants :: "gm_participant option list"
  gc_last_ts :: int
  gc_unread :: bool
  gc_pinned :: bool
  gc_outgoing :: string

record gm_media =
  media_id :: string
  media_mime :: string
  media_key :: string

datatype gm_info = InfoText string | InfoMedia gm_media | InfoNone

record gm_reaction =
  re_emoji :: string
  re_participants :: "string list"

record gm_message =
  gmm_id :: string
  gmm_conv :: string
  gmm_participant :: string
  gmm_tmp :: string
  gmm_ts :: int
  gmm_status :: int
  gmm_info :: "gm_info list"
  gmm_reactions :: "gm_reaction option list"
  gmm_reply :: "string option"

record wrapped_message =
  w_message :: "gm_message option"
  w_old :: bool
  w_data :: string

record gm_contact =
  gct_participant :: string
  gct_contact_id :: string
  gct_name :: string
  gct_number :: string
  gct_number2 :: string
  gct_formatted :: string
  gct_color :: string

record gm_sim =
  sim_participant :: string
  sim_payload :: "string option"

datatype gm_event =
    ClientReady string "gm_conversation option list"
  | AuthTokenRefreshed
  | EvConversation gm_conversation
  | EvMessage wrapped_message
  | EvSettings "gm_sim list"
  | PhoneNotResponding | PhoneRespondingAgain
  | GaiaLoggedOut
  | ListenFatalError string
  | ListenTemporaryError string | ListenRecovered
  | PairSuccessful | BrowserActive
  | OtherEvent

section \<open>Conversions\<close>

definition normalize_timestamp_ms :: "int \<Rightarrow> int" where
  "normalize_timestamp_ms ts = (if ts > 100000000000000 then ts div 1000 else ts)"

fun first_non_empty :: "string list \<Rightarrow> string" where
  "first_non_empty [] = ''''"
| "first_non_empty (v # vs) = (if v \<noteq> '''' then v else first_non_empty vs)"

definition participant_name :: "gm_participant \<Rightarrow> string" where
  "participant_name p = (if part_full_name p = '''' then part_first_name p else part_full_name p)"

text \<open>\<open>map[string]any\<close> is encoded with its keys sorted.\<close>

definition participant_json :: "gm_participant \<Rightarrow> json" where
  "participant_json p = json_map
     [(''id'', JStr (part_id p)), (''name'', JStr (participant_name p)), (''e164'', JStr (part_number p)),
      (''formatted_number'', JStr (part_formatted p)), (''is_me'', JBool (part_is_me p))]"

definition some_of :: "'a option list \<Rightarrow> 'a list" where
  "some_of xs = concat (map (\<lambda>x. case x of None \<Rightarrow> [] | Some y \<Rightarrow> [y]) xs)"

definition participants_json :: "gm_participant option list \<Rightarrow> string" where
  "participants_json ps = (if ps = [] then ''[]'' else marshal (JArr (map participant_json (some_of ps))))"

text \<open>A repeated field without elements is a nil slice, which is encoded as \<open>null\<close>.\<close>

definition reaction_json :: "gm_reaction \<Rightarrow> json" where
  "reaction_json r = json_map
     [(''emoji'', JStr (re_emoji r)),
      (''participants'', if re_participants r = [] then JNull else JArr (map JStr (re_participants r)))]"

definition reactions_json :: "gm_reaction option list \<Rightarrow> string option" where
  "reactions_json rs = (if some_of rs = [] then None else Some (marshal (JArr (map reaction_json (some_of rs)))))"

definition message_body :: "gm_message \<Rightarrow> string" where
  "message_body m = join_with [char_of (10::nat)] (concat (map (\<lambda>i. case i of
     InfoText t \<Rightarrow> if t \<noteq> '''' then [t] else [] | _ \<Rightarrow> []) (gmm_info m)))"

fun first_media :: "gm_info list \<Rightarrow> gm_media option" where
  "first_media [] = None"
| "first_media (InfoMedia mc # is) = Some mc"
| "first_media (_ # is) = first_media is"

definition primary_media :: "gm_message \<Rightarrow> gm_media option" where
  "primary_media m = first_media (gmm_info m)"

text \<open>The names of the status enumeration belong to the generated protobuf code.\<close>

definition is_from_me :: "(int \<Rightarrow> string) \<Rightarrow> gm_message \<Rightarrow> bool" where
  "is_from_me status_name m \<longleftrightarrow> (let s = status_name (gmm_status m) in
     str_contains ''OUTGOING'' s \<or> str_contains ''SENT_BY_ME'' s)"

definition reply_to_id :: "gm_message \<Rightarrow> string option" where
  "reply_to_id m = (case gmm_reply m of None \<Rightarrow> None | Some i \<Rightarrow> if i \<noteq> '''' then Some i else None)"

definition conversation_row :: "gm_conversation \<Rightarrow> string \<Rightarrow> conversation option" where
  "conversation_row c platform =
     (if gc_id c = '''' then None
      else Some \<lparr>conv_id = gc_id c, conv_platform = platform, conv_name = gc_name c, conv_alias = '''',
        conv_is_group = gc_is_group c, conv_participants = participants_json (gc_participants c),
        conv_last_ms = normalize_timestamp_ms (gc_last_ts c), conv_unread = gc_unread c,
        conv_pinned = gc_pinned c, conv_archived = False, conv_updated = zero_time_ms\<rparr>)"

definition non_empty :: "string \<Rightarrow> string option" where
  "non_empty s = (if s \<noteq> '''' then Some s else None)"

definition message_row :: "(int \<Rightarrow> string) \<Rightarrow> wrapped_message \<Rightarrow> string \<Rightarrow> message option" where
  "message_row status_name w platform = (case w_message w of
     None \<Rightarrow> None
   | Some m \<Rightarrow> if gmm_id m = '''' then None
       else (let media = primary_media m in
         Some \<lparr>msg_id = gmm_id m, msg_conv = gmm_conv m, msg_platform = platform, msg_sender = gmm_participant m,
           msg_body = non_empty (message_body m), msg_ts = normalize_timestamp_ms (gmm_ts m),
           msg_status = gmm_status m, msg_from_me = is_from_me status_name m,
           msg_media = (case media of None \<Rightarrow> None | Some x \<Rightarrow> non_empty (media_id x)),
           msg_mime = (case media of None \<Rightarrow> None | Some x \<Rightarrow> non_empty (media_mime x)),
           msg_key = (case media of None \<Rightarrow> '''' | Some x \<Rightarrow> media_key x),
           msg_reactions = reactions_json (gmm_reactions m), msg_reply = reply_to_id m, msg_raw = w_data w\<rparr>))"

section \<open>The pump\<close>

record pump =
  p_db :: db
  p_fatal :: "err list"

definition err_logged_out :: err where
  "err_logged_out = Msg ''phone reports logged-out state; re-run `gmcli auth`''"

text \<open>\<open>fail\<close>: a send that does not block on a channel of capacity one.\<close>

definition pump_fail :: "err \<Rightarrow> pump \<Rightarrow> pump" where
  "pump_fail err p = (if length (p_fatal p) < 1 then p\<lparr>p_fatal := p_fatal p @ [err]\<rparr> else p)"

definition pump_touch :: "'z env_scheme \<Rightarrow> db \<Rightarrow> db" where
  "pump_touch e d = fst (mark_sync e zero_time_ms (now_ms e) d)"

definition participant_contact :: "gm_participant \<Rightarrow> contact" where
  "participant_contact p = \<lparr>con_id = part_id p, con_platform = ''gm'', con_contact_id = part_contact_id p,
     con_name = participant_name p, con_e164 = part_number p, con_formatted = part_formatted p,
     con_color = part_color p, con_is_me = part_is_me p, con_alias = '''', con_display = ''''\<rparr>"

definition upsert_participant :: "'z env_scheme \<Rightarrow> gm_participant \<Rightarrow> db \<Rightarrow> db" where
  "upsert_participant e p d = (if part_id p = '''' then d else fst (upsert_contact e (participant_contact p) d))"

fun upsert_participants :: "'z calls \<Rightarrow> nat \<Rightarrow> gm_participant option list \<Rightarrow> db \<Rightarrow> db" where
  "upsert_participants E i [] d = d"
| "upsert_participants E i (None # ps) d = upsert_participants E (Suc i) ps d"
| "upsert_participants E i (Some p # ps) d = upsert_participants E (Suc i) ps (upsert_participant (here (at E i)) p d)"

definition on_conversation :: "'z calls \<Rightarrow> gm_conversation \<Rightarrow> db \<Rightarrow> db" where
  "on_conversation E c d = (case conversation_row c ''gm'' of
     None \<Rightarrow> d
   | Some row \<Rightarrow> (case upsert_conversation (here E) row d of
       (d', Some err) \<Rightarrow> d'
     | (d', None) \<Rightarrow> upsert_participants E 1 (gc_participants c) d'))"

definition on_message :: "'z calls \<Rightarrow> (int \<Rightarrow> string) \<Rightarrow> wrapped_message \<Rightarrow> db \<Rightarrow> db" where
  "on_message E status_name w d = (case message_row status_name w ''gm'' of
     None \<Rightarrow> d
   | Some row \<Rightarrow> (case upsert_message (here E) row d of
       (d', Some err) \<Rightarrow> d'
     | (d', None) \<Rightarrow> if w_old w then d'
         else fst (mark_sync (here (at E 1)) (msg_ts row) (now_ms (here (at E 1))) d')))"

fun apply_snapshot :: "'z calls \<Rightarrow> nat \<Rightarrow> gm_conversation option list \<Rightarrow> db \<Rightarrow> db" where
  "apply_snapshot E i [] d = d"
| "apply_snapshot E i (None # cs) d = apply_snapshot E (Suc i) cs d"
| "apply_snapshot E i (Some c # cs) d = apply_snapshot E (Suc i) cs (on_conversation (at E i) c d)"

definition on_client_ready :: "'z calls \<Rightarrow> gm_conversation option list \<Rightarrow> db \<Rightarrow> db" where
  "on_client_ready E cs d = pump_touch (here E) (apply_snapshot E 1 cs d)"

fun pump_handle :: "'z calls \<Rightarrow> (int \<Rightarrow> string) \<Rightarrow> gm_event \<Rightarrow> pump \<Rightarrow> pump" where
  "pump_handle E nm (ClientReady sid cs) p = p\<lparr>p_db := on_client_ready E cs (p_db p)\<rparr>"
| "pump_handle E nm AuthTokenRefreshed p = p\<lparr>p_db := pump_touch (here E) (p_db p)\<rparr>"
| "pump_handle E nm (EvConversation c) p = p\<lparr>p_db := on_conversation E c (p_db p)\<rparr>"
| "pump_handle E nm (EvMessage w) p = p\<lparr>p_db := on_message E nm w (p_db p)\<rparr>"
| "pump_handle E nm GaiaLoggedOut p = pump_fail err_logged_out p"
| "pump_handle E nm (ListenFatalError t) p = pump_fail (Wrap ''libgm listen fatal error'' (Driver t)) p"
| "pump_handle E nm _ p = p"

fun import_contacts :: "'z calls \<Rightarrow> nat \<Rightarrow> gm_contact option list \<Rightarrow> db \<Rightarrow> db \<times> nat" where
  "import_contacts E i [] d = (d, 0)"
| "import_contacts E i (None # cs) d = import_contacts E (Suc i) cs d"
| "import_contacts E i (Some c # cs) d =
     (if gct_participant c = '''' then import_contacts E (Suc i) cs d
      else (case upsert_contact (here (at E i)) \<lparr>con_id = gct_participant c, con_platform = ''gm'',
            con_contact_id = gct_contact_id c, con_name = gct_name c,
            con_e164 = first_non_empty [gct_number c, gct_number2 c], con_formatted = gct_formatted c,
            con_color = gct_color c, con_is_me = False, con_alias = '''', con_display = ''''\<rparr> d of
          (d', Some err) \<Rightarrow> import_contacts E (Suc i) cs d'
        | (d', None) \<Rightarrow> (let r = import_contacts E (Suc i) cs d' in (fst r, snd r + 1))))"

fun import_messages :: "'z calls \<Rightarrow> (int \<Rightarrow> string) \<Rightarrow> nat \<Rightarrow> gm_message option list \<Rightarrow> db \<Rightarrow> db \<times> nat" where
  "import_messages E nm i [] d = (d, 0)"
| "import_messages E nm i (None # ms) d = import_messages E nm (Suc i) ms d"
| "import_messages E nm i (Some m # ms) d =
     (if gmm_id m = '''' then import_messages E nm (Suc i) ms d
      else (let r = import_messages E nm (Suc i) ms
              (on_message (at E i) nm \<lparr>w_message = Some m, w_old = True, w_data = ''''\<rparr> d) in
        (fst r, snd r + 1)))"

section \<open>Facts\<close>

lemma mark_sync_ok [store_inv]: "db_ok d \<Longrightarrow> db_ok (fst (mark_sync e a b d))"
  by (simp add: mark_sync_def split: option.split)

lemma pump_touch_ok [store_inv]: "db_ok d \<Longrightarrow> db_ok (pump_touch e d)"
  by (simp add: pump_touch_def mark_sync_ok)

lemma upsert_participant_ok [store_inv]: "db_ok d \<Longrightarrow> db_ok (upsert_participant e p d)"
  by (simp add: upsert_participant_def upsert_contact_ok)

lemma upsert_participants_ok [store_inv]: "db_ok d \<Longrightarrow> db_ok (upsert_participants E i ps d)"
  by (induction E i ps d rule: upsert_participants.induct) (simp_all add: upsert_participant_ok)

lemma on_conversation_ok [store_inv]: "db_ok d \<Longrightarrow> db_ok (on_conversation E c d)"
proof -
  assume ok: "db_ok d"
  have "db_ok d'" if "upsert_conversation e row d = (d', r)" for e row d' r
    using upsert_conversation_ok [OF ok, of e row] that by simp
  with ok show ?thesis
    by (auto simp: on_conversation_def split: option.split prod.split intro!: upsert_participants_ok)
qed

lemma on_message_ok [store_inv]: "db_ok d \<Longrightarrow> db_ok (on_message E nm w d)"
proof -
  assume ok: "db_ok d"
  have "db_ok d'" if "upsert_message e row d = (d', r)" for e row d' r
    using upsert_message_ok [OF ok, of e row] that by simp
  with ok show ?thesis
    by (auto simp: on_message_def split: option.split prod.split intro!: mark_sync_ok)
qed

lemma apply_snapshot_ok [store_inv]: "db_ok d \<Longrightarrow> db_ok (apply_snapshot E i cs d)"
  by (induction E i cs d rule: apply_snapshot.induct) (simp_all add: on_conversation_ok)

lemma import_contacts_ok [store_inv]: "db_ok d \<Longrightarrow> db_ok (fst (import_contacts E i cs d))"
proof (induction E i cs d rule: import_contacts.induct)
  case (3 E i c cs d)
  then show ?case
    by (auto simp: Let_def split: prod.split option.split) (metis fst_conv upsert_contact_ok)+
qed simp_all

lemma import_messages_ok [store_inv]: "db_ok d \<Longrightarrow> db_ok (fst (import_messages E nm i ms d))"
  by (induction E nm i ms d rule: import_messages.induct) (simp_all add: Let_def on_message_ok)

section \<open>Freshness\<close>

text \<open>The freshness row only moves forward.\<close>

definition event_ts :: "db \<Rightarrow> int option" where
  "event_ts d = map_option last_event_ts (sync d)"

definition fresher :: "db \<Rightarrow> db \<Rightarrow> bool" where
  "fresher d d' \<longleftrightarrow> (case sync d of None \<Rightarrow> sync d' = None
     | Some r \<Rightarrow> (\<exists>r'. sync d' = Some r' \<and> last_event_ts r \<le> last_event_ts r' \<and> last_connect_ts r \<le> last_connect_ts r'))"

lemma fresher_refl [simp]: "fresher d d"
  by (simp add: fresher_def split: option.split)

lemma fresher_same: "sync d' = sync d \<Longrightarrow> fresher d d'"
  by (simp add: fresher_def split: option.split)

lemma fresher_trans: "fresher a b \<Longrightarrow> fresher b c \<Longrightarrow> fresher a c"
  by (auto simp: fresher_def split: option.splits)

lemma mark_sync_fresher: "fresher d (fst (mark_sync e a b d))"
  by (simp add: mark_sync_def fresher_def split: option.split)

lemma upsert_participants_sync [simp]: "sync (upsert_participants E i ps d) = sync d"
  by (induction E i ps d rule: upsert_participants.induct) (simp_all add: upsert_participant_def frame_simps)

lemma on_conversation_sync [simp]: "sync (on_conversation E c d) = sync d"
proof -
  have "sync d' = sync d" if "upsert_conversation e row d = (d', r)" for e row d' r
    using upsert_conversation_frame(6) [of e row d] that by simp
  then show ?thesis by (auto simp: on_conversation_def split: option.split prod.split)
qed

lemma apply_snapshot_sync [simp]: "sync (apply_snapshot E i cs d) = sync d"
  by (induction E i cs d rule: apply_snapshot.induct) simp_all

lemma upsert_message_sync: "upsert_message e row d = (d', r) \<Longrightarrow> sync d' = sync d"
  using upsert_message_frame(4) [of e row d] by simp

lemma on_message_old: "w_old w \<Longrightarrow> sync (on_message E nm w d) = sync d"
  by (auto simp: on_message_def split: option.split prod.split dest: upsert_message_sync)

lemma on_message_fresher: "fresher d (on_message E nm w d)"
  by (auto simp: on_message_def split: option.split prod.split dest!: upsert_message_sync fresher_same
      intro: fresher_trans mark_sync_fresher)

lemma pump_fail_db [simp]: "p_db (pump_fail err p) = p_db p"
  by (simp add: pump_fail_def)

lemma pump_fail_fatal: "length (p_fatal (pump_fail err p)) = max 1 (length (p_fatal p))"
  by (cases "p_fatal p") (simp_all add: pump_fail_def)

fun pump_run :: "'z calls \<Rightarrow> (int \<Rightarrow> string) \<Rightarrow> nat \<Rightarrow> gm_event list \<Rightarrow> pump \<Rightarrow> pump" where
  "pump_run E nm i [] p = p"
| "pump_run E nm i (ev # evs) p = pump_run E nm (Suc i) evs (pump_handle (at E i) nm ev p)"

definition pump_ok :: "pump \<Rightarrow> bool" where
  "pump_ok p \<longleftrightarrow> db_ok (p_db p) \<and> length (p_fatal p) \<le> 1"

lemma pump_handle_ok: "pump_ok p \<Longrightarrow> pump_ok (pump_handle E nm ev p)"
  by (cases ev) (auto simp: pump_ok_def pump_fail_fatal on_client_ready_def pump_touch_ok apply_snapshot_ok
      on_conversation_ok on_message_ok)

lemma pump_handle_fresher: "fresher (p_db p) (p_db (pump_handle E nm ev p))"
proof (cases ev)
  case (ClientReady sid cs)
  have "fresher (p_db p) (apply_snapshot E 1 cs (p_db p))" by (simp add: fresher_same)
  from fresher_trans [OF this mark_sync_fresher] ClientReady show ?thesis
    by (simp add: on_client_ready_def pump_touch_def)
qed (simp_all add: pump_touch_def mark_sync_fresher fresher_same on_message_fresher)

lemma pump_handle_fatal: "p_fatal p \<noteq> [] \<Longrightarrow> p_fatal (pump_handle E nm ev p) = p_fatal p"
  by (cases ev) (simp_all add: pump_fail_def)

text \<open>C22: whatever events arrive, in whatever order, and whatever the driver does, the store's invariant
  is kept, the freshness times never move back, and the fatal channel never blocks or drops its
  first error: it holds at most one, and what it holds stays.\<close>

theorem pump_run_safe:
  assumes "db_ok (p_db p)" and "length (p_fatal p) \<le> 1"
  shows "let p' = pump_run E nm i evs p in
     db_ok (p_db p') \<and> fresher (p_db p) (p_db p') \<and> length (p_fatal p') \<le> 1
     \<and> (p_fatal p \<noteq> [] \<longrightarrow> p_fatal p' = p_fatal p)"
proof -
  have "pump_ok p \<Longrightarrow> pump_ok (pump_run E nm i evs p) \<and> fresher (p_db p) (p_db (pump_run E nm i evs p))
      \<and> (p_fatal p \<noteq> [] \<longrightarrow> p_fatal (pump_run E nm i evs p) = p_fatal p)" for p
  proof (induction evs arbitrary: i p)
    case (Cons ev evs)
    let ?q = "pump_handle (at E i) nm ev p"
    from Cons.IH [OF pump_handle_ok [OF Cons.prems, of "at E i" nm ev], of "Suc i"]
    show ?case
      using fresher_trans [OF pump_handle_fresher [of p "at E i" nm ev]] pump_handle_fatal [of p "at E i" nm ev]
      by auto
  qed simp
  with assms show ?thesis by (simp add: pump_ok_def Let_def)
qed

text \<open>A message event is stored as \<open>MessageRow\<close> converts it and read back; a live one moves the
  last-event time to at least its own, a history row leaves the freshness alone.\<close>

theorem message_event_stored:
  assumes "db_ok (p_db p)" and "\<And>q. no_fault (E q)" and "no_fault e"
    and "message_row nm w ''gm'' = Some row" and "msg_conv row \<noteq> ''''" and "sync (p_db p) = Some s"
  shows "let d' = p_db (pump_handle E nm (EvMessage w) p) in
     get_message e (msg_id row) d' = Inr (row\<lparr>msg_raw := ''''\<rparr>)
     \<and> (if w_old w then sync d' = sync (p_db p)
        else \<exists>s'. sync d' = Some s' \<and> last_event_ts s' = max (last_event_ts s) (msg_ts row)
          \<and> last_connect_ts s' = max (last_connect_ts s) (now_ms (at E 1 [])))"
proof -
  have row: "msg_id row \<noteq> ''''" "msg_platform row = ''gm''"
    using assms(4) by (auto simp: message_row_def Let_def split: option.splits if_splits)
  define d1 where "d1 = fst (upsert_message (here E) row (p_db p))"
  have nf: "no_fault (here E)" "no_fault (here (at E 1))" using assms(2) by (simp_all add: here_def at_def)
  have up: "upsert_message (here E) row (p_db p) = (d1, None)"
    using upsert_message_result [OF nf(1) row(1) assms(5), of "p_db p"] by (simp add: d1_def)
  have ok: "db_ok d1" unfolding d1_def by (rule upsert_message_ok [OF assms(1)])
  have sync1: "sync d1 = Some s" using upsert_message_sync [OF up] assms(6) by simp
  have read: "get_message e (msg_id row) d2 = Inr (row\<lparr>msg_raw := ''''\<rparr>)" if "msgs d2 = msgs d1" "db_ok d2" for d2
  proof -
    have "msgs d1 = upsert_row m_id msg_merge (msg_row_of (now_ms (here E)) row) (msgs (p_db p))"
      using upsert_message_result [OF nf(1) row(1) assms(5), of "p_db p"] by (simp add: d1_def)
    with msg_table.upsert_stored [of "msg_row_of (now_ms (here E)) row" "msgs (p_db p)"] that(1)
    have "row_with m_id (msg_id row) (msgs d2) = Some (msg_row_of (now_ms (here E)) row)" by simp
    then show ?thesis
      by (simp add: get_message_eq [OF that(2) assms(3)] scan_message_def msg_row_of_def null_bytes_def coalesce_def row)
  qed
  show ?thesis
  proof (cases "w_old w")
    case True
    with assms(4) up have "on_message E nm w (p_db p) = d1" by (simp add: on_message_def)
    with True read [OF refl ok] sync1 assms(6) show ?thesis by (simp add: Let_def)
  next
    case False
    let ?e = "here (at E 1)"
    let ?d2 = "fst (mark_sync ?e (msg_ts row) (now_ms ?e) d1)"
    have d2: "on_message E nm w (p_db p) = ?d2" using assms(4) up False by (simp add: on_message_def)
    have "msgs ?d2 = msgs d1" by (simp add: mark_sync_def split: option.split)
    note r = read [OF this mark_sync_ok [OF ok]]
    have "sync ?d2 = Some \<lparr>last_event_ts = max (last_event_ts s) (msg_ts row),
        last_connect_ts = max (last_connect_ts s) (now_ms ?e), sync_updated_at = now_ms ?e\<rparr>"
      using nf(2) sync1 by (simp add: mark_sync_def)
    with False d2 r show ?thesis by (simp add: Let_def here_def)
  qed
qed

section \<open>Batches of contacts\<close>

text \<open>Contacts written one after the other, each in its own environment.\<close>

fun put_contacts :: "('z env_scheme \<times> contact) list \<Rightarrow> db \<Rightarrow> db" where
  "put_contacts [] d = d"
| "put_contacts (ec # ecs) d = put_contacts ecs (fst (upsert_contact (fst ec) (snd ec) d))"

lemma put_contacts_frame:
  "db_ok d \<Longrightarrow> db_ok (put_contacts ecs d) \<and> aliases (put_contacts ecs d) = aliases d
    \<and> convs (put_contacts ecs d) = convs d \<and> msgs (put_contacts ecs d) = msgs d"
  by (induction ecs arbitrary: d) (simp_all add: upsert_contact_ok frame_simps)

lemma put_contacts_row:
  assumes "\<forall>ec \<in> set ecs. no_fault (fst ec) \<and> con_id (snd ec) \<noteq> ''''"
    and "distinct (map (\<lambda>ec. con_id (snd ec)) ecs)"
  shows "row_with k_id k (contacts (put_contacts ecs d))
    = (case List.find (\<lambda>ec. con_id (snd ec) = k) ecs of None \<Rightarrow> row_with k_id k (contacts d)
       | Some ec \<Rightarrow> Some (contact_row_of (now_ms (fst ec)) (snd ec)))"
  using assms
proof (induction ecs arbitrary: d)
  case (Cons ec ecs)
  let ?r = "contact_row_of (now_ms (fst ec)) (snd ec)"
  have d1: "contacts (fst (upsert_contact (fst ec) (snd ec) d)) = upsert_row k_id contact_merge ?r (contacts d)"
    using Cons.prems(1) by (simp add: upsert_contact_def)
  have none: "List.find (\<lambda>x. con_id (snd x) = con_id (snd ec)) ecs = None"
    using Cons.prems(2) unfolding find_None_iff' by (simp add: image_iff) metis
  show ?case
    using Cons contact_table.upsert_stored [of ?r "contacts d"] contact_table.upsert_other [of k ?r "contacts d"] none
    by (cases "con_id (snd ec) = k") (auto simp: d1 split: option.split)
qed simp

lemma put_contacts_read:
  assumes "db_ok d" and "no_fault e"
    and "\<forall>ec \<in> set ecs. no_fault (fst ec) \<and> con_id (snd ec) \<noteq> ''''"
    and "distinct (map (\<lambda>ec. con_id (snd ec)) ecs)" and "ec \<in> set ecs"
  shows "\<exists>x. get_contact e (con_id (snd ec)) (put_contacts ecs d) = Inr x \<and> con_name x = con_name (snd ec)
    \<and> con_e164 x = con_e164 (snd ec) \<and> con_formatted x = con_formatted (snd ec) \<and> con_is_me x = con_is_me (snd ec)"
proof -
  have "List.find (\<lambda>x. con_id (snd x) = con_id (snd ec)) ecs = Some ec"
    using find_distinct_key [OF assms(4,5)] by simp
  with put_contacts_row [OF assms(3,4), of "con_id (snd ec)" d] show ?thesis
    using put_contacts_frame [OF assms(1), of ecs] assms(2)
    by (auto simp: get_contact_eq contact_view_def scan_contact_def Let_def contact_row_of_def)
qed

fun participant_calls :: "'z calls \<Rightarrow> nat \<Rightarrow> gm_participant option list \<Rightarrow> ('z env_scheme \<times> contact) list" where
  "participant_calls E i [] = []"
| "participant_calls E i (None # ps) = participant_calls E (Suc i) ps"
| "participant_calls E i (Some p # ps) = (if part_id p = '''' then [] else [(here (at E i), participant_contact p)])
     @ participant_calls E (Suc i) ps"

lemma upsert_participants_put: "upsert_participants E i ps d = put_contacts (participant_calls E i ps) d"
  by (induction E i ps d rule: upsert_participants.induct) (simp_all add: upsert_participant_def)

lemma participant_calls_contacts:
  "map snd (participant_calls E i ps) = map participant_contact (filter (\<lambda>p. part_id p \<noteq> '''') (some_of ps))"
  by (induction E i ps rule: participant_calls.induct) (simp_all add: some_of_def)

lemma participant_calls_env: "(\<And>q. no_fault (E q)) \<Longrightarrow> \<forall>ec \<in> set (participant_calls E i ps). no_fault (fst ec) \<and> con_id (snd ec) \<noteq> ''''"
  by (induction E i ps rule: participant_calls.induct) (auto simp: here_def at_def participant_contact_def)

text \<open>A conversation event is stored as \<open>ConversationRow\<close> converts it, with the later of the two
  last-message times, unarchived, and every participant with an id becomes a contact.\<close>

theorem conversation_event_stored:
  assumes "db_ok (p_db p)" and "\<And>q. no_fault (E q)" and "no_fault e" and "gc_id c \<noteq> ''''"
    and "distinct (map part_id (filter (\<lambda>x. part_id x \<noteq> '''') (some_of (gc_participants c))))"
  shows "let d' = p_db (pump_handle E nm (EvConversation c) p) in
     (\<exists>x. get_conversation e (gc_id c) d' = Inr x \<and> conv_name x = gc_name c \<and> conv_is_group x = gc_is_group c
        \<and> conv_participants x = participants_json (gc_participants c) \<and> conv_unread x = gc_unread c
        \<and> conv_pinned x = gc_pinned c \<and> \<not> conv_archived x
        \<and> conv_last_ms x = (case row_with c_id (gc_id c) (convs (p_db p)) of None \<Rightarrow> normalize_timestamp_ms (gc_last_ts c)
            | Some r \<Rightarrow> max (c_last_message_ts r) (normalize_timestamp_ms (gc_last_ts c))))
     \<and> (\<forall>a \<in> set (some_of (gc_participants c)). part_id a = '''' \<or>
          (\<exists>x. get_contact e (part_id a) d' = Inr x \<and> con_name x = participant_name a \<and> con_e164 x = part_number a
             \<and> con_is_me x = part_is_me a))"
proof -
  obtain row where row: "conversation_row c ''gm'' = Some row" "conv_id row = gc_id c"
    using assms(4) by (auto simp: conversation_row_def)
  define d1 where "d1 = fst (upsert_conversation (here E) row (p_db p))"
  let ?ecs = "participant_calls E 1 (gc_participants c)"
  have nf: "no_fault (here E)" using assms(2) by (simp add: here_def)
  have up: "upsert_conversation (here E) row (p_db p) = (d1, None)"
    using nf row(2) assms(4) by (simp add: d1_def upsert_conversation_def)
  have d': "on_conversation E c (p_db p) = put_contacts ?ecs d1"
    by (simp add: on_conversation_def row up upsert_participants_put)
  have ok1: "db_ok d1" unfolding d1_def by (rule upsert_conversation_ok [OF assms(1)])
  note fr = put_contacts_frame [OF ok1, of ?ecs]
  have env: "\<forall>ec \<in> set ?ecs. no_fault (fst ec) \<and> con_id (snd ec) \<noteq> ''''"
    by (rule participant_calls_env) (rule assms(2))
  have ids: "map (\<lambda>ec. con_id (snd ec)) ?ecs = map part_id (filter (\<lambda>x. part_id x \<noteq> '''') (some_of (gc_participants c)))"
  proof -
    have "map (\<lambda>ec. con_id (snd ec)) ?ecs = map con_id (map snd ?ecs)" by simp
    then show ?thesis by (simp only: participant_calls_contacts map_map) (simp add: participant_contact_def)
  qed
  have dist: "distinct (map (\<lambda>ec. con_id (snd ec)) ?ecs)" using assms(5) by (simp only: ids)
  have "\<exists>x. get_contact e (part_id a) (put_contacts ?ecs d1) = Inr x \<and> con_name x = participant_name a
      \<and> con_e164 x = part_number a \<and> con_is_me x = part_is_me a"
    if a: "a \<in> set (some_of (gc_participants c))" "part_id a \<noteq> ''''" for a
  proof -
    have "participant_contact a \<in> set (map snd ?ecs)" unfolding participant_calls_contacts using a by auto
    then obtain ec where "ec \<in> set ?ecs" "snd ec = participant_contact a" by auto
    with put_contacts_read [OF ok1 assms(3) env dist, of ec] show ?thesis
      by (auto simp: participant_contact_def)
  qed
  moreover have "\<exists>x. get_conversation e (gc_id c) (put_contacts ?ecs d1) = Inr x \<and> conv_name x = gc_name c \<and> conv_is_group x = gc_is_group c
        \<and> conv_participants x = participants_json (gc_participants c) \<and> conv_unread x = gc_unread c
        \<and> conv_pinned x = gc_pinned c \<and> \<not> conv_archived x
        \<and> conv_last_ms x = (case row_with c_id (gc_id c) (convs (p_db p)) of None \<Rightarrow> normalize_timestamp_ms (gc_last_ts c)
            | Some r \<Rightarrow> max (c_last_message_ts r) (normalize_timestamp_ms (gc_last_ts c)))"
  proof -
    have cs: "convs d1 = upsert_row c_id conv_merge (conv_row_of (now_ms (here E)) row) (convs (p_db p))"
      using nf row(2) assms(4) by (simp add: d1_def upsert_conversation_def)
    have r: "row_with c_id (gc_id c) (convs d1) = Some (case row_with c_id (gc_id c) (convs (p_db p)) of
        None \<Rightarrow> conv_row_of (now_ms (here E)) row | Some old \<Rightarrow> conv_merge old (conv_row_of (now_ms (here E)) row))"
      using conv_table.upsert_same [of "conv_row_of (now_ms (here E)) row" "convs (p_db p)"] by (simp add: cs row(2))
    have json: "participants_json ps \<noteq> ''''" for ps by (simp add: participants_json_def)
    have "row = \<lparr>conv_id = gc_id c, conv_platform = ''gm'', conv_name = gc_name c, conv_alias = '''',
        conv_is_group = gc_is_group c, conv_participants = participants_json (gc_participants c),
        conv_last_ms = normalize_timestamp_ms (gc_last_ts c), conv_unread = gc_unread c,
        conv_pinned = gc_pinned c, conv_archived = False, conv_updated = zero_time_ms\<rparr>"
      using row(1) by (simp add: conversation_row_def split: if_splits)
    then show ?thesis using fr assms(3) r
      by (auto simp: get_conversation_eq conv_view_def scan_conversation_def conv_row_of_def conv_merge_def
          nullable_json_def json split: option.split)
  qed
  ultimately show ?thesis by (simp add: d' Let_def) blast
qed

text \<open>\<open>ImportMessages\<close> reports every message that has an id as imported, whether or not it could be
  stored; history rows never move the freshness times.\<close>

theorem import_messages_counts:
  "snd (import_messages E nm i ms d) = length (filter (\<lambda>m. gmm_id m \<noteq> '''') (some_of ms))
   \<and> sync (fst (import_messages E nm i ms d)) = sync d"
  by (induction E nm i ms d rule: import_messages.induct) (simp_all add: some_of_def Let_def on_message_old)

section \<open>Concrete inputs\<close>

definition sample_gm_message :: gm_message where
  "sample_gm_message = \<lparr>gmm_id = ''m1'', gmm_conv = ''c1'', gmm_participant = ''p1'', gmm_tmp = ''t1'',
     gmm_ts = 1700000000000000, gmm_status = 1, gmm_info = [InfoText ''hi'', InfoText ''there''], gmm_reactions = [],
     gmm_reply = None\<rparr>"

definition sample_wrapped :: wrapped_message where
  "sample_wrapped = \<lparr>w_message = Some sample_gm_message, w_old = False, w_data = ''raw''\<rparr>"

definition sample_gm_conversation :: gm_conversation where
  "sample_gm_conversation = \<lparr>gc_id = ''c1'', gc_name = ''Ann'', gc_is_group = False, gc_participants = [None,
     Some \<lparr>part_id = ''p1'', part_number = ''+15'', part_full_name = '''', part_first_name = ''Ann'', part_contact_id = '''',
       part_formatted = ''15'', part_color = '''', part_is_me = False\<rparr>], gc_last_ts = 1700000000000, gc_unread = True,
     gc_pinned = False, gc_outgoing = ''me''\<rparr>"

definition synced_db :: db where
  "synced_db = fresh_db\<lparr>sync := Some \<lparr>last_event_ts = 7, last_connect_ts = 8, sync_updated_at = 9\<rparr>\<rparr>"

lemma synced_db_ok [simp]: "db_ok synced_db" "sync synced_db = Some \<lparr>last_event_ts = 7, last_connect_ts = 8, sync_updated_at = 9\<rparr>"
  "convs synced_db = []"
  by (simp_all add: synced_db_def)

theorem pump_run_safe_witness:
  "db_ok (p_db (pump_run (\<lambda>_. quiet_env 5) (\<lambda>_. '''') 0 [ListenFatalError ''eof'', GaiaLoggedOut] \<lparr>p_db = synced_db, p_fatal = []\<rparr>))"
  using pump_run_safe [of "\<lparr>p_db = synced_db, p_fatal = []\<rparr>" "\<lambda>_. quiet_env 5" "\<lambda>_. ''''" 0 "[ListenFatalError ''eof'', GaiaLoggedOut]"]
  by (simp add: Let_def del: pump_run.simps)

theorem message_event_stored_witness:
  "\<exists>s. sync (p_db (pump_handle (\<lambda>_. quiet_env 5) (\<lambda>_. '''') (EvMessage sample_wrapped) \<lparr>p_db = synced_db, p_fatal = []\<rparr>)) = Some s
     \<and> last_event_ts s = 1700000000000"
proof -
  let ?row = "the (message_row (\<lambda>_. '''') sample_wrapped ''gm'')"
  have row: "message_row (\<lambda>_. '''') sample_wrapped ''gm'' = Some ?row" "msg_conv ?row = ''c1'' \<and> msg_ts ?row = 1700000000000"
    by (simp_all add: message_row_def sample_wrapped_def sample_gm_message_def Let_def normalize_timestamp_ms_def)
  then have "msg_conv ?row \<noteq> ''''" by simp
  from message_event_stored [of "\<lparr>p_db = synced_db, p_fatal = []\<rparr>" "\<lambda>_. quiet_env 5" "quiet_env 5", OF _ _ _ row(1) this] row(2)
  show ?thesis unfolding Let_def by (auto simp: sample_wrapped_def)
qed

theorem conversation_event_stored_witness:
  "\<exists>x. get_contact (quiet_env 6) ''p1'' (p_db (pump_handle (\<lambda>_. quiet_env 5) (\<lambda>_. '''') (EvConversation sample_gm_conversation)
      \<lparr>p_db = synced_db, p_fatal = []\<rparr>)) = Inr x \<and> con_name x = ''Ann''"
proof -
  have "gc_id sample_gm_conversation \<noteq> ''''"
    "distinct (map part_id (filter (\<lambda>x. part_id x \<noteq> '''') (some_of (gc_participants sample_gm_conversation))))"
    by (simp_all add: sample_gm_conversation_def some_of_def)
  from conversation_event_stored [of "\<lparr>p_db = synced_db, p_fatal = []\<rparr>" "\<lambda>_. quiet_env 5" "quiet_env 6", OF _ _ _ this]
  show ?thesis unfolding Let_def by (auto simp: sample_gm_conversation_def some_of_def participant_name_def)
qed

end
