(* ===== verification/Store_Search.thy ===== *)
theory Store_Search
  imports Sync_Pump
begin

text \<open>
  \<open>internal/store/search.go\<close>: the full-text search with its fallbacks for natural-language input, the
  resolution of a person or group to conversations, and the display names that answers carry.
\<close>

section \<open>Names of a conversation\<close>

record participant_summary =
  ps_id :: string
  ps_name :: string
  ps_e164 :: string
  ps_formatted :: string
  ps_is_me :: bool

text \<open>Decoding \<open>participants_json\<close> with its error ignored: what is not an object is a zero value.\<close>

definition decode_participant :: "json \<Rightarrow> participant_summary" where
  "decode_participant v = (let fs = (case v of JObj fs \<Rightarrow> fs | _ \<Rightarrow> []) in
     \<lparr>ps_id = get_string fs ''id'', ps_name = get_string fs ''name'', ps_e164 = get_string fs ''e164'',
      ps_formatted = get_string fs ''formatted_number'', ps_is_me = get_bool fs ''is_me''\<rparr>)"

definition decode_participants :: "string \<Rightarrow> participant_summary list" where
  "decode_participants s = (case parse_json s of Some (JArr vs) \<Rightarrow> map decode_participant vs | _ \<Rightarrow> [])"

definition participant_label :: "participant_summary \<Rightarrow> string list" where
  "participant_label p = (if ps_is_me p then []
     else if ps_name p \<noteq> '''' then [ps_name p]
     else if ps_e164 p \<noteq> '''' then [ps_e164 p]
     else if ps_formatted p \<noteq> '''' then [ps_formatted p] else [])"

definition participant_names :: "conversation \<Rightarrow> string list" where
  "participant_names c = concat (map participant_label (decode_participants (conv_participants c)))"

definition conversation_display_name :: "conversation \<Rightarrow> string" where
  "conversation_display_name c =
     (if trim_space (conv_alias c) \<noteq> '''' then conv_alias c
      else if trim_space (conv_name c) \<noteq> '''' then conv_name c
      else (let names = participant_names c in
        if names = [] then conv_id c else join_with '', '' names))"

definition iso_time :: "'z env_scheme \<Rightarrow> int \<Rightarrow> string" where
  "iso_time e ms = (if ms \<le> 0 then '''' else iso_local e ms)"

section \<open>Terms of a free-form query\<close>

definition fallback_stopwords :: "string list" where
  "fallback_stopwords =
    [''the'', ''and'', ''for'', ''are'', ''was'', ''were'', ''you'', ''your'', ''has'', ''have'', ''had'', ''this'',
     ''that'', ''with'', ''from'', ''they'', ''them'', ''then'', ''what'', ''when'', ''where'', ''who'', ''why'', ''how'',
     ''did'', ''does'', ''will'', ''would'', ''could'', ''should'', ''can'', ''get'', ''got'', ''our'', ''out'', ''not'',
     ''but'', ''all'', ''any'', ''about'', ''there'', ''here'', ''just'', ''into'', ''some'', ''been'']"

definition is_term_rune :: "'u unicode_scheme \<Rightarrow> nat \<Rightarrow> bool" where
  "is_term_rune u r \<longleftrightarrow> is_letter_rune u r \<or> is_digit_rune u r"

definition searchable_terms :: "'u unicode_scheme \<Rightarrow> string \<Rightarrow> string list" where
  "searchable_terms u q = filter (\<lambda>f. \<not> rune_count f < 3 \<and> to_lower u f \<notin> set fallback_stopwords)
     (map (trim_func (\<lambda>r. \<not> is_term_rune u r)) (str_fields q))"

definition looks_like_fts_syntax :: "string \<Rightarrow> bool" where
  "looks_like_fts_syntax q \<longleftrightarrow> index_any ([CHR 34] @ ''()*:^{}'') q \<noteq> None
     \<or> (\<exists>w \<in> set (str_fields q). w \<in> set [''AND'', ''OR'', ''NOT'', ''NEAR''])"

definition quote_term :: "string \<Rightarrow> string" where
  "quote_term t = [CHR 34] @ replace_char (CHR 34) [CHR 34, CHR 34] t @ [CHR 34]"

definition join_quoted :: "string list \<Rightarrow> string \<Rightarrow> string" where
  "join_quoted terms sep = join_with sep (map quote_term terms)"

section \<open>SearchMessagesRich\<close>

record search_opts =
  so_query :: string
  so_conv :: string
  so_since :: int
  so_until :: int
  so_limit :: int

record rich_hit =
  rh_id :: string
  rh_conv :: string
  rh_conv_name :: string
  rh_sender :: string
  rh_body :: string
  rh_snippet :: string
  rh_ts :: int
  rh_iso :: string
  rh_from_me :: bool

text \<open>The joined row: FTS entry, message, contact of the sender, alias of the sender.\<close>

type_synonym search_row = "(((string \<times> string) \<times> msg_row) \<times> contact_row option) \<times> alias_row option"

definition search_join :: "db \<Rightarrow> search_row list" where
  "search_join d = left_join (\<lambda>fmc a. al_key a = (''contact'', m_sender (snd (fst fmc))))
     (left_join (\<lambda>fm c. k_id c = m_sender (snd fm)) (inner_join (\<lambda>f m. m_id m = fst f) (fts d) (msgs d)) (contacts d))
     (aliases d)"

fun coalesce_all :: "string option list \<Rightarrow> string" where
  "coalesce_all [] = ''''"
| "coalesce_all (None # xs) = coalesce_all xs"
| "coalesce_all (Some x # xs) = x"

definition search_where :: "(string \<Rightarrow> bool) \<Rightarrow> search_opts \<Rightarrow> search_row \<Rightarrow> bool" where
  "search_where matches opts r \<longleftrightarrow> (case r of (((f, m), c), a) \<Rightarrow> matches (snd f)
     \<and> (so_conv opts \<noteq> '''' \<longrightarrow> m_conv m = so_conv opts)
     \<and> (so_since opts \<noteq> zero_time_ms \<longrightarrow> so_since opts \<le> m_ts m)
     \<and> (so_until opts \<noteq> zero_time_ms \<longrightarrow> m_ts m \<le> so_until opts))"

definition scan_rich :: "'z env_scheme \<Rightarrow> string \<Rightarrow> search_row \<Rightarrow> rich_hit" where
  "scan_rich e q r = (case r of (((f, m), c), a) \<Rightarrow>
     \<lparr>rh_id = m_id m, rh_conv = m_conv m, rh_conv_name = '''',
      rh_sender = (if m_from_me m \<noteq> 0 then ''me''
        else coalesce_all [map_option al_alias a, map_option k_name c, map_option k_e164 c, Some '''']),
      rh_body = coalesce (m_body m) '''', rh_snippet = fts_snippet e q 48 (snd f), rh_ts = m_ts m,
      rh_iso = iso_time e (m_ts m), rh_from_me = (m_from_me m \<noteq> 0)\<rparr>)"

definition search_once :: "'z env_scheme \<Rightarrow> string \<Rightarrow> search_opts \<Rightarrow> int \<Rightarrow> db \<Rightarrow> err + rich_hit list" where
  "search_once e q opts n d = (case fts_match e q of
     Inl t \<Rightarrow> Inl (Driver t)
   | Inr matches \<Rightarrow> (case query_rows e (SSearchRich q) (map (scan_rich e q)
         (select_rows (visit e (SSearchRich q)) (search_where matches opts) (\<lambda>r. - m_ts (snd (fst (fst r)))) n (search_join d))) of
       Inl t \<Rightarrow> Inl (Driver t)
     | Inr (out, Some t) \<Rightarrow> Inl (Driver t)
     | Inr (out, None) \<Rightarrow> Inr out))"

text \<open>\<open>attachConversationNames\<close>: each conversation is looked up once; a failed lookup leaves no name.\<close>

fun attach_names :: "'z calls \<Rightarrow> nat \<Rightarrow> (string \<times> string) list \<Rightarrow> rich_hit list \<Rightarrow> db \<Rightarrow> rich_hit list" where
  "attach_names E i names [] d = []"
| "attach_names E i names (h # hs) d = (case map_of names (rh_conv h) of
     Some name \<Rightarrow> h\<lparr>rh_conv_name := name\<rparr> # attach_names E (Suc i) names hs d
   | None \<Rightarrow> (let name = (case get_conversation (here (at E i)) (rh_conv h) d of
         Inr c \<Rightarrow> conversation_display_name c | Inl _ \<Rightarrow> '''') in
       h\<lparr>rh_conv_name := name\<rparr> # attach_names E (Suc i) ((rh_conv h, name) # names) hs d))"

text \<open>The third tier, once a query has answered: when it found nothing, any of the terms will do.\<close>

definition any_term :: "'z calls \<Rightarrow> search_opts \<Rightarrow> int \<Rightarrow> rich_hit list \<Rightarrow> db \<Rightarrow> err + rich_hit list" where
  "any_term E opts n hits d =
    (let terms = searchable_terms (here E) (so_query opts) in
     case (if hits = [] \<and> \<not> looks_like_fts_syntax (so_query opts) \<and> 1 < length terms
         then search_once (here (at E 2)) (join_quoted terms '' OR '') opts n d else Inr hits) of
       Inl err \<Rightarrow> Inl (Wrap (''fts search '' @ go_quote (here E) (so_query opts)) err)
     | Inr hits' \<Rightarrow> Inr (attach_names (at E 3) 0 [] hits' d))"

definition search_messages_rich :: "'z calls \<Rightarrow> search_opts \<Rightarrow> db \<Rightarrow> err + rich_hit list" where
  "search_messages_rich E opts d =
    (let n = (if so_limit opts \<le> 0 then 50 else so_limit opts); q = so_query opts in
     case search_once (here (at E 0)) q opts n d of
       Inr hits \<Rightarrow> any_term E opts n hits d
     | Inl err \<Rightarrow> (let terms = searchable_terms (here E) q in
         if terms = [] then Inr []
         else (let fallback = join_quoted terms '' '' in
           if fallback = q then Inl err
           else (case search_once (here (at E 1)) fallback opts n d of
               Inl err' \<Rightarrow> Inl (Wrap (''fts search '' @ go_quote (here E) q) err')
             | Inr hits \<Rightarrow> any_term E opts n hits d))))"

section \<open>FindConversations\<close>

definition escape_like :: "string \<Rightarrow> string" where
  "escape_like s = replace_char (CHR ''_'') [esc_char, CHR ''_'']
     (replace_char (CHR ''%'') [esc_char, CHR ''%''] (replace_char esc_char [esc_char, esc_char] s))"

definition id_pattern :: "string \<Rightarrow> string" where
  "id_pattern pid = ''%'' @ [CHR 34] @ ''id'' @ [CHR 34] @ '':'' @ [CHR 34] @ escape_like pid @ [CHR 34] @ ''%''"

definition find_conv_where :: "string \<Rightarrow> contact list \<Rightarrow> conv_row \<times> alias_row option \<Rightarrow> bool" where
  "find_conv_where q cs ra \<longleftrightarrow> (let like = ''%'' @ escape_like q @ ''%'' in
     sql_like like (c_name (fst ra))
     \<or> (case snd ra of None \<Rightarrow> False | Some a \<Rightarrow> sql_like like (al_alias a))
     \<or> sql_like like (c_participants_json (fst ra))
     \<or> (\<exists>c \<in> set cs. con_id c \<noteq> '''' \<and> sql_like (id_pattern (con_id c)) (c_participants_json (fst ra))))"

definition find_conversations :: "'z calls \<Rightarrow> string \<Rightarrow> int \<Rightarrow> db \<Rightarrow> err + conversation list" where
  "find_conversations E q0 n0 d = (let n = (if n0 \<le> 0 then 25 else n0); q = trim_space q0 in
     if q = '''' then list_conversations (here E) \<lparr>lc_limit = n, lc_unread_only = False, lc_pinned = False\<rparr> d
     else (let cs = (case search_contacts (here (at E 0)) q 10 d of Inr cs \<Rightarrow> cs | Inl _ \<Rightarrow> []) in
       list_rows (here (at E 1)) SFindConvs ''find conversations'' (map scan_conversation
         (select_rows (visit (here (at E 1)) SFindConvs) (find_conv_where q cs)
            (\<lambda>ra. - c_last_message_ts (fst ra)) n (join_conv_aliases (convs d) d)))))"

section \<open>EnrichMessages\<close>

record rich_message = message +
  rm_sender :: string
  rm_iso :: string

definition sender_label :: "'z env_scheme \<Rightarrow> string \<Rightarrow> db \<Rightarrow> string" where
  "sender_label e sid d = (let name = (case get_contact e sid d of
       Inr c \<Rightarrow> if con_display c = '''' then con_e164 c else con_display c | Inl _ \<Rightarrow> '''') in
     if name = '''' then sid else name)"

fun enrich_messages :: "'z calls \<Rightarrow> nat \<Rightarrow> (string \<times> string) list \<Rightarrow> message list \<Rightarrow> db \<Rightarrow> rich_message list" where
  "enrich_messages E i cache [] d = []"
| "enrich_messages E i cache (m # ms) d = (let rich = (\<lambda>name. message.extend m
        (rich_message.fields name (iso_time (here (at E i)) (msg_ts m)))) in
     if msg_from_me m then rich ''me'' # enrich_messages E (Suc i) cache ms d
     else if msg_sender m = '''' then rich '''' # enrich_messages E (Suc i) cache ms d
     else (case map_of cache (msg_sender m) of
         Some name \<Rightarrow> rich name # enrich_messages E (Suc i) cache ms d
       | None \<Rightarrow> (let name = sender_label (here (at E i)) (msg_sender m) d in
           rich name # enrich_messages E (Suc i) ((msg_sender m, name) # cache) ms d)))"

section \<open>Facts\<close>

lemma select_rows_props:
  assumes "0 \<le> n"
  shows "sorted (map ord (select_rows p P ord n rows))" "length (select_rows p P ord n rows) \<le> nat n"
  using select_rows_page [OF assms, of ord P rows p] by (auto simp: page_of_def)

lemma search_join_msgs: "r \<in> set (search_join d) \<Longrightarrow> snd (fst (fst r)) \<in> set (msgs d)"
  unfolding search_join_def by (drule left_join_fst, drule left_join_fst) (auto simp: inner_join_def)

lemma search_once_Inr:
  assumes "search_once e q opts n d = Inr hits" and "0 \<le> n"
  shows "sorted (map (\<lambda>h. - rh_ts h) hits)" and "length hits \<le> nat n"
    and "h \<in> set hits \<Longrightarrow> \<exists>m \<in> set (msgs d). rh_id h = m_id m \<and> rh_conv h = m_conv m \<and> rh_ts h = m_ts m
      \<and> rh_body h = coalesce (m_body m) ''''
      \<and> so_conv opts \<in> {'''', m_conv m} \<and> (so_since opts = zero_time_ms \<or> so_since opts \<le> m_ts m)
      \<and> (so_until opts = zero_time_ms \<or> m_ts m \<le> so_until opts)"
proof -
  let ?ord = "\<lambda>r :: search_row. - m_ts (snd (fst (fst r)))"
  obtain matches where sel: "hits = map (scan_rich e q)
      (select_rows (visit e (SSearchRich q)) (search_where matches opts) ?ord n (search_join d))"
    using assms(1) by (auto simp: search_once_def query_rows_def split: sum.splits option.splits fault.splits prod.splits)
  let ?sel = "select_rows (visit e (SSearchRich q)) (search_where matches opts) ?ord n (search_join d)"
  have ts: "rh_ts (scan_rich e q r) = m_ts (snd (fst (fst r)))" for r
    by (simp add: scan_rich_def split: prod.split)
  show "sorted (map (\<lambda>h. - rh_ts h) hits)"
    using select_rows_props(1) [OF assms(2), of ?ord "visit e (SSearchRich q)" "search_where matches opts" "search_join d"]
    by (simp add: sel comp_def ts)
  show "length hits \<le> nat n"
    using select_rows_props(2) [OF assms(2), of "visit e (SSearchRich q)" "search_where matches opts" ?ord "search_join d"]
    by (simp add: sel)
  assume "h \<in> set hits"
  then obtain r where h: "h = scan_rich e q r" and "r \<in> set ?sel" by (auto simp: sel)
  then have r: "r \<in> set (search_join d)" "search_where matches opts r"
    using select_rows_subset [of "visit e (SSearchRich q)" "search_where matches opts" ?ord n "search_join d"] by auto
  obtain f m c a where "r = (((f, m), c), a)" by (metis prod.exhaust)
  with r show "\<exists>m \<in> set (msgs d). rh_id h = m_id m \<and> rh_conv h = m_conv m \<and> rh_ts h = m_ts m
      \<and> rh_body h = coalesce (m_body m) ''''
      \<and> so_conv opts \<in> {'''', m_conv m} \<and> (so_since opts = zero_time_ms \<or> so_since opts \<le> m_ts m)
      \<and> (so_until opts = zero_time_ms \<or> m_ts m \<le> so_until opts)"
    using search_join_msgs [of r d] by (auto simp: h scan_rich_def search_where_def)
qed

lemma attach_names_keeps:
  "map (rh_conv_name_update (\<lambda>_. '''')) (attach_names E i names hits d) = map (rh_conv_name_update (\<lambda>_. '''')) hits"
  by (induction E i names hits d rule: attach_names.induct) (simp_all add: Let_def split: option.split)

lemma attach_names_mem:
  "h \<in> set (attach_names E i names hits d) \<Longrightarrow> \<exists>h' \<in> set hits. \<exists>name. h = h'\<lparr>rh_conv_name := name\<rparr>"
  by (induction E i names hits d rule: attach_names.induct) (auto simp: Let_def split: option.splits)

lemma attach_names_ts: "map (\<lambda>h. - rh_ts h) (attach_names E i names hits d) = map (\<lambda>h. - rh_ts h) hits"
  by (induction E i names hits d rule: attach_names.induct) (simp_all add: Let_def split: option.split)

lemma attach_names_length: "length (attach_names E i names hits d) = length hits"
  using attach_names_keeps by (metis length_map)

text \<open>An answer of one of the queries, with the names attached.\<close>

definition answered :: "'z calls \<Rightarrow> search_opts \<Rightarrow> int \<Rightarrow> db \<Rightarrow> rich_hit list \<Rightarrow> bool" where
  "answered E opts n d out \<longleftrightarrow> (\<exists>k q hits. search_once (here (at E k)) q opts n d = Inr hits
     \<and> out = attach_names (at E 3) 0 [] hits d)"

lemma any_term_answered:
  "any_term E opts n hits d = Inr out \<Longrightarrow> search_once (here (at E k)) q opts n d = Inr hits \<Longrightarrow> answered E opts n d out"
  unfolding any_term_def Let_def answered_def
  by (auto split: sum.splits if_splits)

lemma rich_answered:
  assumes "search_messages_rich E opts d = Inr out"
  shows "out = [] \<or> answered E opts (if so_limit opts \<le> 0 then 50 else so_limit opts) d out"
  using assms any_term_answered [of E opts "if so_limit opts \<le> 0 then 50 else so_limit opts" _ d out]
  unfolding search_messages_rich_def Let_def by (auto split: sum.splits if_splits)

text \<open>C21: whichever of the three queries answered, and whatever the driver did, an answer lists stored
  messages of the chat asked for and within the time bounds, latest first, at most \<open>limit\<close> of them
  (50 when none is given), with their stored bodies.\<close>

theorem rich_search_sound:
  assumes "search_messages_rich E opts d = Inr hits"
  shows "sorted (map (\<lambda>h. - rh_ts h) hits) \<and> length hits \<le> nat (if so_limit opts \<le> 0 then 50 else so_limit opts)
    \<and> (\<forall>h \<in> set hits. \<exists>m \<in> set (msgs d). rh_id h = m_id m \<and> rh_conv h = m_conv m \<and> rh_ts h = m_ts m
      \<and> rh_body h = coalesce (m_body m) ''''
      \<and> so_conv opts \<in> {'''', m_conv m} \<and> (so_since opts = zero_time_ms \<or> so_since opts \<le> m_ts m)
      \<and> (so_until opts = zero_time_ms \<or> m_ts m \<le> so_until opts))"
  using rich_answered [OF assms] unfolding answered_def
proof (elim disjE exE conjE)
  fix k q found
  assume once: "search_once (here (at E k)) q opts (if so_limit opts \<le> 0 then 50 else so_limit opts) d = Inr found"
    and hits: "hits = attach_names (at E 3) 0 [] found d"
  have n: "0 \<le> (if so_limit opts \<le> 0 then 50 else so_limit opts)" by simp
  note found = search_once_Inr [OF once n]
  have "\<exists>m \<in> set (msgs d). rh_id h = m_id m \<and> rh_conv h = m_conv m \<and> rh_ts h = m_ts m
      \<and> rh_body h = coalesce (m_body m) ''''
      \<and> so_conv opts \<in> {'''', m_conv m} \<and> (so_since opts = zero_time_ms \<or> so_since opts \<le> m_ts m)
      \<and> (so_until opts = zero_time_ms \<or> m_ts m \<le> so_until opts)" if "h \<in> set hits" for h
  proof -
    from attach_names_mem [OF that [unfolded hits]] obtain h' name where "h' \<in> set found" "h = h'\<lparr>rh_conv_name := name\<rparr>"
      by blast
    with found(3) [of h'] show ?thesis by simp
  qed
  with found(1,2) show ?thesis by (simp add: hits attach_names_ts attach_names_length)
qed simp

lemma search_once_no_fault:
  "no_fault e \<Longrightarrow> fts_match e q = Inr f \<Longrightarrow> \<exists>hits. search_once e q opts n d = Inr hits"
  by (simp add: search_once_def)

text \<open>Free-form input never fails: FTS5 accepting every query of quoted terms is enough for the search
  to return hits or an empty list, whatever the user typed.\<close>

theorem rich_search_total:
  assumes "\<And>q. no_fault (E q)"
    and "\<And>q terms sep. terms \<noteq> [] \<Longrightarrow> sep \<in> {'' '', '' OR ''} \<Longrightarrow> \<exists>f. fts_match (E q) (join_quoted terms sep) = Inr f"
  shows "\<exists>hits. search_messages_rich E opts d = Inr hits"
proof -
  let ?n = "if so_limit opts \<le> 0 then 50 else so_limit opts"
  have quoted: "\<exists>hits. search_once (here (at E k)) (join_quoted terms sep) opts ?n d = Inr hits"
    if "terms \<noteq> []" "sep \<in> {'' '', '' OR ''}" for k terms sep
    using assms(2) [OF that, of "[k]"] search_once_no_fault [OF assms(1)] unfolding here_def at_def by blast
  have any: "\<exists>out. any_term E opts ?n hits d = Inr out" for hits
  proof (cases "hits = [] \<and> \<not> looks_like_fts_syntax (so_query opts) \<and> 1 < length (searchable_terms (here E) (so_query opts))")
    case True
    then have "searchable_terms (here E) (so_query opts) \<noteq> []" by auto
    from quoted [OF this, of "'' OR ''" 2] True show ?thesis by (auto simp: any_term_def Let_def)
  qed (auto simp: any_term_def Let_def)
  show ?thesis
  proof (cases "search_once (here (at E 0)) (so_query opts) opts ?n d")
    case (Inr hits)
    with any [of hits] show ?thesis by (simp add: search_messages_rich_def Let_def)
  next
    case (Inl err)
    let ?terms = "searchable_terms (here E) (so_query opts)"
    show ?thesis
    proof (cases "?terms = []")
      case False
      from quoted [OF False, of "'' ''" 0] Inl have "join_quoted ?terms '' '' \<noteq> so_query opts" by auto
      moreover from quoted [OF False, of "'' ''" 1]
      obtain hits where "search_once (here (at E 1)) (join_quoted ?terms '' '') opts ?n d = Inr hits" by blast
      ultimately show ?thesis using Inl False any [of hits] by (simp add: search_messages_rich_def Let_def)
    qed (use Inl in \<open>simp add: search_messages_rich_def Let_def\<close>)
  qed
qed

section \<open>Quoting for FTS5\<close>

text \<open>FTS5's own reading of a string literal, a doubled quote standing for one, and of a query made of
  such literals with a fixed separator.\<close>

fun read_phrase :: "string \<Rightarrow> (string \<times> string) option" where
  "read_phrase [] = None"
| "read_phrase [c] = (if c = CHR 34 then Some ([], []) else None)"
| "read_phrase (c # d # s) =
     (if c = CHR 34 then (if d = CHR 34 then map_option (\<lambda>(t, r). (CHR 34 # t, r)) (read_phrase s) else Some ([], d # s))
      else map_option (\<lambda>(t, r). (c # t, r)) (read_phrase (d # s)))"

fun read_phrases :: "nat \<Rightarrow> string \<Rightarrow> string \<Rightarrow> string list option" where
  "read_phrases 0 sep s = None"
| "read_phrases (Suc n) sep s = (if take 1 s \<noteq> [CHR 34] then None
     else (case read_phrase (drop 1 s) of
         None \<Rightarrow> None
       | Some (t, rest) \<Rightarrow> if rest = [] then Some [t]
           else if has_prefix sep rest then map_option ((#) t) (read_phrases n sep (drop (length sep) rest))
           else None))"

lemma read_phrase_quoted:
  "take 1 rest \<noteq> [CHR 34] \<Longrightarrow> read_phrase (replace_char (CHR 34) [CHR 34, CHR 34] t @ CHR 34 # rest) = Some (t, rest)"
proof (induction t)
  case Nil
  then show ?case by (cases rest) (simp_all add: replace_char_def)
next
  case (Cons c t)
  have split: "read_phrase (c # s) = map_option (\<lambda>(t, r). (c # t, r)) (read_phrase s)" if "c \<noteq> CHR 34" "s \<noteq> []" for s
    using that by (cases s) simp_all
  have "replace_char (CHR 34) [CHR 34, CHR 34] (c # t)
      = (if c = CHR 34 then [CHR 34, CHR 34] else [c]) @ replace_char (CHR 34) [CHR 34, CHR 34] t"
    by (simp add: replace_char_def)
  with Cons show ?case by (cases "c = CHR 34") (simp_all add: split)
qed

text \<open>The fallback queries mean exactly their terms: read by FTS5's rules, a query of quoted terms
  yields the terms that went in, whatever quotes or operators they contain.\<close>

theorem join_quoted_roundtrip:
  assumes "terms \<noteq> []" and "sep \<in> {'' '', '' OR ''}"
  shows "read_phrases (length terms) sep (join_quoted terms sep) = Some terms"
  using assms(1)
proof (induction terms)
  case (Cons t ts)
  have sep: "take 1 sep \<noteq> [CHR 34]" "sep \<noteq> []" using assms(2) by auto
  show ?case
  proof (cases "ts = []")
    case True
    then show ?thesis using read_phrase_quoted [of "[]" t] by (simp add: join_quoted_def quote_term_def)
  next
    case False
    then have "join_quoted (t # ts) sep = quote_term t @ sep @ join_quoted ts sep"
      by (cases ts) (simp_all add: join_quoted_def)
    moreover have "take 1 (sep @ join_quoted ts sep) \<noteq> [CHR 34]" using sep by (cases sep) simp_all
    ultimately show ?thesis using read_phrase_quoted [of "sep @ join_quoted ts sep" t] Cons.IH [OF False] sep(2)
      by (simp add: quote_term_def)
  qed
qed simp

section \<open>Finding conversations\<close>

lemma escape_like_eq: "escape_like s = escape_chars {CHR ''%'', CHR ''_'', esc_char} s"
  unfolding escape_like_def using esc_char_neq [symmetric]
  by (induction s) (auto simp: replace_char_def escape_chars_def)

lemma like_escape_like: "sql_like (''%'' @ escape_like q @ ''%'') s \<longleftrightarrow> contains_nocase q s"
  unfolding escape_like_eq by (rule like_contains) auto

text \<open>The key and value of a participant's id, as it stands in \<open>participants_json\<close>.\<close>

definition id_entry :: "string \<Rightarrow> string" where
  "id_entry pid = [CHR 34] @ ''id'' @ [CHR 34] @ '':'' @ [CHR 34] @ pid @ [CHR 34]"

lemma like_id_pattern: "sql_like (id_pattern pid) s \<longleftrightarrow> contains_nocase (id_entry pid) s"
proof -
  have "id_pattern pid = ''%'' @ escape_chars {CHR ''%'', CHR ''_'', esc_char} (id_entry pid) @ ''%''"
    by (simp add: id_pattern_def id_entry_def escape_like_eq escape_chars_def esc_char_def)
  then show ?thesis by (simp only:) (rule like_contains, auto)
qed

text \<open>A person or group is resolved to the page of at most \<open>limit\<close> conversations (25 when none is
  given), latest activity first, whose name, alias or participant list contains the trimmed query
  case-insensitively, or whose participant list names a contact the contact search finds.\<close>

theorem find_conversations_page:
  assumes "db_ok d" and "\<And>p. no_fault (E p)" and "trim_space q \<noteq> ''''"
  shows "\<exists>cs out. search_contacts (here (at E 0)) (trim_space q) 10 d = Inr cs
     \<and> find_conversations E q n d = Inr (map (conv_view d) out)
     \<and> page_of (\<lambda>r. - c_last_message_ts r) (nat (if n \<le> 0 then 25 else n))
         (filter (\<lambda>r. contains_nocase (trim_space q) (c_name r)
            \<or> contains_nocase (trim_space q) (coalesce (alias_of d ''conversation'' (c_id r)) '''')
            \<or> contains_nocase (trim_space q) (c_participants_json r)
            \<or> (\<exists>c \<in> set cs. con_id c \<noteq> '''' \<and> contains_nocase (id_entry (con_id c)) (c_participants_json r))) (convs d)) out"
proof -
  let ?q = "trim_space q" and ?n = "if n \<le> 0 then 25 else n"
  have nf: "no_fault (here (at E k))" for k using assms(2) by (simp add: here_def at_def)
  obtain cs where cs: "search_contacts (here (at E 0)) ?q 10 d = Inr cs"
    using nf by (simp add: search_contacts_def)
  let ?g = "\<lambda>c. (c, row_with al_key (''conversation'', c_id c) (aliases d))"
  let ?ord = "\<lambda>ra :: conv_row \<times> alias_row option. - c_last_message_ts (fst ra)"
  let ?sel = "select_rows (visit (here (at E 1)) SFindConvs) (find_conv_where ?q cs) ?ord ?n (map ?g (convs d))"
  let ?P = "\<lambda>r. contains_nocase ?q (c_name r) \<or> contains_nocase ?q (coalesce (alias_of d ''conversation'' (c_id r)) '''')
      \<or> contains_nocase ?q (c_participants_json r)
      \<or> (\<exists>c \<in> set cs. con_id c \<noteq> '''' \<and> contains_nocase (id_entry (con_id c)) (c_participants_json r))"
  have "find_conv_where ?q cs (?g r) = ?P r" for r
    using assms(3)
    by (auto simp: find_conv_where_def like_escape_like [unfolded append.simps] like_id_pattern alias_of_def coalesce_def Let_def
        contains_nocase_Nil split: option.split)
  then have "filter (find_conv_where ?q cs) (map ?g (convs d)) = map ?g (filter ?P (convs d))"
    by (simp only: filter_map comp_def)
  then have "page_of ?ord (nat ?n) (map ?g (filter ?P (convs d))) ?sel"
    using select_rows_page [of ?n ?ord "find_conv_where ?q cs" "map ?g (convs d)" "visit (here (at E 1)) SFindConvs"]
    by simp
  then have "page_of (\<lambda>r. - c_last_message_ts r) (nat ?n) (map fst (map ?g (filter ?P (convs d)))) (map fst ?sel)"
    by (rule page_of_map) simp
  then have pg: "page_of (\<lambda>r. - c_last_message_ts r) (nat ?n) (filter ?P (convs d)) (map fst ?sel)"
    by (simp add: comp_def)
  have "set ?sel \<subseteq> ?g ` set (convs d)"
    using select_rows_subset [of "visit (here (at E 1)) SFindConvs" "find_conv_where ?q cs" ?ord ?n "map ?g (convs d)"]
    by (simp only: set_map) blast
  then have "scan_conversation ra = conv_view d (fst ra)" if "ra \<in> set ?sel" for ra
    using that by (auto simp only: conv_view_def fst_conv)
  then have "map scan_conversation ?sel = map (\<lambda>ra. conv_view d (fst ra)) ?sel" by (intro map_cong refl)
  moreover have "find_conversations E q n d = Inr (map scan_conversation ?sel)"
    using assms nf cs by (simp add: find_conversations_def join_conv_aliases_eq Let_def)
  ultimately have "find_conversations E q n d = Inr (map (conv_view d) (map fst ?sel))" by (simp add: comp_def)
  with cs pg show ?thesis by blast
qed

section \<open>Sender names\<close>

definition sender_name :: "'z env_scheme \<Rightarrow> message \<Rightarrow> db \<Rightarrow> string" where
  "sender_name e m d = (if msg_from_me m then ''me'' else if msg_sender m = '''' then '''' else sender_label e (msg_sender m) d)"

lemma enrich_cached:
  assumes "\<forall>(sid, name) \<in> set cache. name = sender_label e sid d"
  shows "enrich_messages (\<lambda>_. e) i cache ms d
    = map (\<lambda>m. message.extend m (rich_message.fields (sender_name e m d) (iso_time e (msg_ts m)))) ms"
  using assms
proof (induction ms arbitrary: i cache)
  case (Cons m ms)
  have hit: "map_of cache s = Some name \<Longrightarrow> name = sender_label e s d" for s name
    using Cons.prems by (auto dest: map_of_SomeD)
  have "\<forall>(sid, name) \<in> set ((msg_sender m, sender_label e (msg_sender m) d) # cache). name = sender_label e sid d"
    using Cons.prems by simp
  from Cons.IH [OF this] Cons.IH [OF Cons.prems] show ?case
    by (auto simp: Let_def here_def at_def sender_name_def split: option.split dest: hit)
qed simp

text \<open>The name cache of \<open>EnrichMessages\<close> changes nothing: every message is kept, in order, and carries
  \<open>me\<close>, its sender's alias, name or number, or the bare sender id, as a fresh lookup would give.\<close>

theorem enrich_messages_map:
  assumes "db_ok d" and "no_fault e"
  shows "enrich_messages (\<lambda>_. e) i [] ms d = map (\<lambda>m. message.extend m (rich_message.fields
     (if msg_from_me m then ''me'' else if msg_sender m = '''' then ''''
      else case row_with k_id (msg_sender m) (contacts d) of
        None \<Rightarrow> msg_sender m
      | Some r \<Rightarrow> first_non_empty [coalesce (alias_of d ''contact'' (msg_sender m)) '''', k_name r, k_e164 r, msg_sender m])
     (iso_time e (msg_ts m)))) ms"
proof -
  have "sender_label e sid d = (case row_with k_id sid (contacts d) of
        None \<Rightarrow> sid
      | Some r \<Rightarrow> first_non_empty [coalesce (alias_of d ''contact'' sid) '''', k_name r, k_e164 r, sid])" for sid
    using row_with_Some [of k_id sid "contacts d"]
    by (auto simp: sender_label_def get_contact_eq [OF assms] contact_view_def scan_contact_def alias_of_def
        Let_def split: option.split)
  then show ?thesis by (simp only: enrich_cached [of "[]" e d, simplified] sender_name_def)
qed

text \<open>The search's own sender names skip the number: for a sender known only by number, with no name
  and no alias, a hit carries no name at all, where \<open>EnrichMessages\<close> gives the number.\<close>

theorem search_hides_number:
  assumes "db_ok d" and "no_fault e" and "r \<in> set (contacts d)" and "k_name r = ''''" and "k_e164 r \<noteq> ''''"
    and "alias_of d ''contact'' (k_id r) = None" and "m_sender m = k_id r" and "m_from_me m = 0"
  shows "rh_sender (scan_rich e q (((f, m), Some r), None)) = '''' \<and> sender_label e (k_id r) d = k_e164 r"
proof -
  have "row_with k_id (k_id r) (contacts d) = Some r" by (rule row_with_mem [OF db_okD(3) [OF assms(1)] assms(3)])
  then show ?thesis using assms
    by (simp add: scan_rich_def sender_label_def get_contact_eq contact_view_def scan_contact_def alias_of_def
        coalesce_def Let_def)
qed

section \<open>Two surprises\<close>

text \<open>A search whose query has no searchable term reports no matches even when the database failed:
  any error of the first query is taken for rejected syntax.\<close>

theorem rich_search_swallows_fault:
  assumes "fts_match (E [0]) (so_query opts) = Inr f"
    and "fault (E [0]) (SSearchRich (so_query opts)) = Some (AtQuery t)"
    and "searchable_terms (here E) (so_query opts) = []"
  shows "search_messages_rich E opts d = Inr []"
  using assms by (simp add: search_messages_rich_def search_once_def query_rows_def here_def at_def Let_def)

lemma join_with_infix: "x \<in> set xs \<Longrightarrow> \<exists>a b. join_with sep xs = a @ x @ b"
proof (induction sep xs rule: join_with.induct)
  case (2 sep y)
  then show ?case by (auto intro: exI [of _ "[]"])
next
  case (3 sep y z ys)
  show ?case
  proof (cases "x = y")
    case True
    then have "join_with sep (y # z # ys) = [] @ x @ (sep @ join_with sep (z # ys))" by simp
    then show ?thesis by blast
  next
    case False
    with 3 obtain a b where "join_with sep (z # ys) = a @ x @ b" by auto
    then have "join_with sep (y # z # ys) = (y @ sep @ a) @ x @ b" by simp
    then show ?thesis by blast
  qed
qed simp

lemma participants_json_has_name:
  assumes "some_of ps \<noteq> []"
  shows "str_contains ''name'' (participants_json ps)"
proof -
  obtain p qs where ps: "some_of ps = p # qs" using assms by (cases "some_of ps") auto
  then have "ps \<noteq> []" by (auto simp: some_of_def)
  let ?fs = "sort_key fst [(''id'', JStr (part_id p)), (''name'', JStr (participant_name p)), (''e164'', JStr (part_number p)),
      (''formatted_number'', JStr (part_formatted p)), (''is_me'', JBool (part_is_me p))]"
  have "(''name'', JStr (participant_name p)) \<in> set ?fs" by simp
  then have "json_string ''name'' @ '':'' @ marshal (JStr (participant_name p))
      \<in> set (map (\<lambda>kv. json_string (fst kv) @ '':'' @ marshal (snd kv)) ?fs)" by force
  from join_with_infix [OF this] obtain a b where "marshal (participant_json p) = ''{'' @ (a @ (json_string ''name'' @ '':'' @ marshal (JStr (participant_name p))) @ b) @ ''}''"
    unfolding participant_json_def json_map_def marshal.simps by metis
  moreover have "json_string ''name'' = [CHR 34] @ ''name'' @ [CHR 34]"
    by (simp add: json_string_def chunks_ascii is_ascii_def json_chunk_def chunk_rune_ascii byte_of_def Let_def)
  ultimately obtain a b where one: "marshal (participant_json p) = a @ ''name'' @ b"
    by (metis append.assoc)
  from join_with_infix [of "marshal (participant_json p)" "map marshal (map participant_json (some_of ps))" "'',''"] ps
  obtain a' b' where "participants_json ps = ''['' @ (a' @ marshal (participant_json p) @ b') @ '']''"
    using \<open>ps \<noteq> []\<close> by (auto simp: participants_json_def)
  with one have "participants_json ps = (''['' @ a' @ a) @ ''name'' @ (b @ b' @ '']'')" by simp
  then show ?thesis unfolding str_contains_iff by blast
qed

text \<open>The participant list is matched as text, keys included: looking for \<open>name\<close> finds every
  conversation that was stored with a participant.\<close>

theorem find_matches_json_keys:
  assumes "some_of ps \<noteq> []" and "c_participants_json r = participants_json ps"
  shows "find_conv_where ''name'' cs (r, a)"
proof -
  obtain x y where "c_participants_json r = x @ ''name'' @ y"
    using participants_json_has_name [OF assms(1)] assms(2) by (auto simp: str_contains_iff)
  then have "contains_nocase ''name'' (c_participants_json r)" unfolding contains_nocase_iff by blast
  then show ?thesis by (simp add: find_conv_where_def like_escape_like [unfolded append.simps] Let_def)
qed

section \<open>Concrete inputs\<close>

definition hello_opts :: search_opts where
  "hello_opts = \<lparr>so_query = ''hello'', so_conv = ''c1'', so_since = 15, so_until = zero_time_ms, so_limit = 0\<rparr>"

theorem rich_search_sound_witness:
  "\<exists>hits. search_messages_rich (\<lambda>_. quiet_env 5) hello_opts sample_db = Inr hits \<and> length hits \<le> 50
     \<and> (\<forall>h \<in> set hits. 15 \<le> rh_ts h)"
proof -
  have once: "\<exists>h. search_once (quiet_env 5) q hello_opts 50 sample_db = Inr h" for q
    by (simp add: search_once_def)
  obtain found where found: "search_once (quiet_env 5) (so_query hello_opts) hello_opts 50 sample_db = Inr found"
    using once by blast
  obtain more where more: "search_once (quiet_env 5) (join_quoted (searchable_terms (quiet_env 5) (so_query hello_opts)) '' OR '')
      hello_opts 50 sample_db = Inr more"
    using once by blast
  obtain hits where h: "search_messages_rich (\<lambda>_. quiet_env 5) hello_opts sample_db = Inr hits"
  proof -
    have "so_limit hello_opts \<le> 0" by (simp add: hello_opts_def)
    then have "search_messages_rich (\<lambda>_. quiet_env 5) hello_opts sample_db = any_term (\<lambda>_. quiet_env 5) hello_opts 50 found sample_db"
      by (simp add: search_messages_rich_def here_def at_def Let_def found)
    also have "\<exists>hits. \<dots> = Inr hits" by (simp add: any_term_def here_def at_def Let_def more)
    finally show ?thesis using that by blast
  qed
  from rich_search_sound [OF this] h show ?thesis by (auto simp: hello_opts_def zero_time_ms_def)
qed

theorem rich_search_total_witness:
  "\<exists>hits. search_messages_rich (\<lambda>_. quiet_env 5) hello_opts sample_db = Inr hits"
  by (rule rich_search_total) simp_all

theorem join_quoted_roundtrip_witness:
  "read_phrases 2 '' OR '' (join_quoted [''who's'', ''a'' @ [CHR 34] @ ''b''] '' OR '') = Some [''who's'', ''a'' @ [CHR 34] @ ''b'']"
  using join_quoted_roundtrip [of "[''who's'', ''a'' @ [CHR 34] @ ''b'']" "'' OR ''"] by (simp add: numeral_2_eq_2 del: read_phrases.simps)

lemma trim_ann: "trim_space '' ann'' = ''ann''"
  by (simp add: trim_space_ascii is_ascii_def byte_of_def is_space_rune_def)

theorem find_conversations_page_witness:
  "\<exists>out. find_conversations (\<lambda>_. quiet_env 5) '' ann'' 3 sample_db = Inr (map (conv_view sample_db) out)"
proof -
  have "trim_space '' ann'' \<noteq> ''''" by (simp only: trim_ann) simp
  from find_conversations_page [OF sample_db_ok no_fault_quiet this, of "\<lambda>_. 5" 3] show ?thesis by blast
qed

theorem enrich_messages_map_witness:
  "map rm_sender (enrich_messages (\<lambda>_. quiet_env 5) 0 [] [sample_msg ''m1'' 10, (sample_msg ''m2'' 20)\<lparr>msg_from_me := True\<rparr>] sample_db)
     = [''p1'', ''me'']"
proof -
  have "contacts sample_db = []" by (simp add: sample_db_def frame_simps)
  then show ?thesis unfolding enrich_messages_map [OF sample_db_ok no_fault_quiet]
    by (simp add: sample_msg_def message.defs rich_message.defs)
qed

definition number_only_db :: db where
  "number_only_db = fst (upsert_contact (quiet_env 5) (sample_contact\<lparr>con_name := ''''\<rparr>) fresh_db)"

theorem search_hides_number_witness:
  "rh_sender (scan_rich (quiet_env 5) ''hello'' ((((''m1'', ''hello''), msg_row_of 5 (sample_msg ''m1'' 10)),
      Some (contact_row_of 5 (sample_contact\<lparr>con_name := ''''\<rparr>))), None)) = ''''
   \<and> sender_label (quiet_env 5) ''p1'' number_only_db = ''+15''"
proof -
  let ?r = "contact_row_of 5 (sample_contact\<lparr>con_name := ''''\<rparr>)"
  let ?m = "msg_row_of 5 (sample_msg ''m1'' 10)"
  have ok: "db_ok number_only_db" unfolding number_only_db_def by (intro upsert_contact_ok db_ok_fresh)
  have r: "?r \<in> set (contacts number_only_db)" "k_name ?r = ''''" "k_e164 ?r \<noteq> ''''"
      "alias_of number_only_db ''contact'' (k_id ?r) = None"
    by (simp_all add: number_only_db_def upsert_contact_def sample_contact_def contact_row_of_def alias_of_def)
  have m: "m_sender ?m = k_id ?r" "m_from_me ?m = 0"
    by (simp_all add: msg_row_of_def sample_msg_def sample_contact_def)
  from search_hides_number [OF ok no_fault_quiet r m, of 5 "''hello''" "(''m1'', ''hello'')"]
  show ?thesis by (simp add: sample_contact_def contact_row_of_def)
qed

definition broken_env :: env where
  "broken_env = (quiet_env 5)\<lparr>fault := (\<lambda>_. Some (AtQuery ''disk I/O error''))\<rparr>"

theorem rich_search_swallows_fault_witness:
  "search_messages_rich (\<lambda>_. broken_env) \<lparr>so_query = ''hi'', so_conv = '''', so_since = zero_time_ms, so_until = zero_time_ms,
      so_limit = 0\<rparr> sample_db = Inr []"
proof (rule rich_search_swallows_fault)
  have "str_fields ''hi'' = [''hi'']"
    by (simp add: str_fields_def chunks_ascii is_ascii_def byte_of_def field_chunks.simps chunk_rune_ascii is_space_rune_def)
  then show "searchable_terms (here (\<lambda>_. broken_env)) (so_query \<lparr>so_query = ''hi'', so_conv = '''', so_since = zero_time_ms,
      so_until = zero_time_ms, so_limit = 0\<rparr>) = []"
    by (simp add: searchable_terms_def trim_func_ascii is_ascii_def byte_of_def is_term_rune_def is_letter_rune_def
        rune_count_def chunks_ascii)
qed (simp_all add: broken_env_def)

theorem find_matches_json_keys_witness:
  "find_conv_where ''name'' [] (conv_row_of 5 (the (conversation_row sample_gm_conversation ''gm'')), None)"
proof (rule find_matches_json_keys)
  show "some_of (gc_participants sample_gm_conversation) \<noteq> []" by (simp add: sample_gm_conversation_def some_of_def)
  have "participants_json ps \<noteq> ''''" for ps by (simp add: participants_json_def)
  then show "c_participants_json (conv_row_of 5 (the (conversation_row sample_gm_conversation ''gm'')))
      = participants_json (gc_participants sample_gm_conversation)"
    by (simp add: conversation_row_def conv_row_of_def nullable_json_def) (simp add: sample_gm_conversation_def)
qed

end
