(* ===== verification/Store_Approvals.thy ===== *)
theory Store_Approvals
  imports Store_Schema
begin

text \<open>
  \<open>internal/store/approvals.go\<close>: the human-in-the-loop queue of proposed outgoing messages. An
  approval is pending until it is resolved, once, to a terminal status.
\<close>

definition approval_pending :: string where
  "approval_pending = ''pending''"

definition approval_terminal :: "string list" where
  "approval_terminal = [''sent'', ''failed'', ''denied'', ''canceled'']"

definition create_approval :: "'z env_scheme \<Rightarrow> approval \<Rightarrow> db \<Rightarrow> db \<times> err option" where
  "create_approval e a d =
     (if ap_id a = '''' then (d, Some (Msg ''approval id is required''))
      else if ap_conv a = '''' then (d, Some (Msg ''conversation id is required''))
      else if ap_body a = '''' then (d, Some (Msg ''body is required''))
      else (case (case exec_fault e SCreateApproval of
            Some t \<Rightarrow> Some t
          | None \<Rightarrow> if ap_id a \<in> ap_id ` set (approvals d) then Some (constraint_text e ''approvals.approval_id'') else None) of
          Some t \<Rightarrow> (d, Some (Wrap (''create approval '' @ ap_id a) (Driver t)))
        | None \<Rightarrow> (d\<lparr>approvals := approvals d @ [\<lparr>ap_id = ap_id a, ap_conv = ap_conv a, ap_body = ap_body a,
              ap_reply = ap_reply a, ap_by = ap_by a, ap_status = ''pending'', ap_error = None,
              ap_message_id = None, ap_created_at = now_ms e, ap_updated_at = now_ms e\<rparr>]\<rparr>, None)))"

definition get_approval :: "'z env_scheme \<Rightarrow> string \<Rightarrow> db \<Rightarrow> err + approval" where
  "get_approval e aid d = not_found (query_row e SGetApproval
     (filter (\<lambda>a. ap_id a = aid) (scan_rows (visit e SGetApproval) (approvals d))))"

definition list_approvals :: "'z env_scheme \<Rightarrow> string \<Rightarrow> int \<Rightarrow> db \<Rightarrow> err + approval list" where
  "list_approvals e status n d = list_rows e SListApprovals ''list approvals''
     (select_rows (visit e SListApprovals) (\<lambda>a. status \<noteq> '''' \<longrightarrow> ap_status a = status) (\<lambda>a. - ap_created_at a)
        (if n \<le> 0 then 50 else n) (approvals d))"

definition resolve_row :: "int \<Rightarrow> string \<Rightarrow> string option \<Rightarrow> string option \<Rightarrow> approval \<Rightarrow> approval" where
  "resolve_row now status error message_id a =
     a\<lparr>ap_status := status, ap_error := error, ap_message_id := message_id, ap_updated_at := now\<rparr>"

definition resolve_approval ::
  "'z env_scheme \<Rightarrow> string \<Rightarrow> string \<Rightarrow> string option \<Rightarrow> string option \<Rightarrow> db \<Rightarrow> db \<times> err option" where
  "resolve_approval e aid status error message_id d =
     (if status \<notin> set approval_terminal
      then (d, Some (Msg (''invalid terminal approval status '' @ go_quote e status)))
      else (case exec_fault e SResolveApproval of
          Some t \<Rightarrow> (d, Some (Wrap (''resolve approval '' @ aid) (Driver t)))
        | None \<Rightarrow> (let hit = (\<lambda>a. ap_id a = aid \<and> ap_status a = ''pending'');
              d' = d\<lparr>approvals := update_where hit (resolve_row (now_ms e) status error message_id) (approvals d)\<rparr> in
            if rows_affected hit (approvals d) = 0
            then (d', Some (case get_approval e aid d' of Inl err \<Rightarrow> err | Inr _ \<Rightarrow> ErrApprovalResolved))
            else (d', None))))"

section \<open>What a queue of requests resolved at most once promises\<close>

text \<open>
  An attempt names a key and may succeed; it succeeds only on a pending key, and then sets that
  key's status and no other; an attempt that fails changes no status.
\<close>

locale once_queue =
  fixes status :: "'q \<Rightarrow> 'k \<Rightarrow> 's option" and pending :: 's
    and attempt :: "'op \<Rightarrow> 'q \<Rightarrow> 'q \<times> bool" and target :: "'op \<Rightarrow> 'k" and result :: "'op \<Rightarrow> 's"
    and inv :: "'q \<Rightarrow> bool"
  assumes attempt_inv: "inv q \<Longrightarrow> inv (fst (attempt p q))"
    and attempt_ok: "inv q \<Longrightarrow> snd (attempt p q) \<Longrightarrow>
      status q (target p) = Some pending \<and> result p \<noteq> pending
      \<and> status (fst (attempt p q)) = (status q)(target p \<mapsto> result p)"
    and attempt_fail: "inv q \<Longrightarrow> \<not> snd (attempt p q) \<Longrightarrow> status (fst (attempt p q)) = status q"
begin

fun attempts :: "'op list \<Rightarrow> 'q \<Rightarrow> 'q \<times> bool list" where
  "attempts [] q = (q, [])"
| "attempts (p # ps) q = (let r = attempt p q; rs = attempts ps (fst r) in (fst rs, snd r # snd rs))"

lemma attempts_inv: "inv q \<Longrightarrow> inv (fst (attempts ps q))"
  by (induction ps arbitrary: q) (simp_all add: Let_def attempt_inv)

lemma settled_stays:
  assumes "inv q" and "status q k \<noteq> Some pending"
  shows "status (fst (attempts ps q)) k = status q k
    \<and> (\<forall>i < length ps. target (ps ! i) = k \<longrightarrow> \<not> snd (attempts ps q) ! i)"
  using assms
proof (induction ps arbitrary: q)
  case (Cons p ps)
  have st: "status (fst (attempt p q)) k = status q k"
    using attempt_ok [OF Cons.prems(1), of p] attempt_fail [OF Cons.prems(1), of p] Cons.prems(2)
    by (cases "snd (attempt p q)") auto
  have no: "target p = k \<Longrightarrow> \<not> snd (attempt p q)"
    using attempt_ok [OF Cons.prems(1), of p] Cons.prems(2) by auto
  have "status (fst (attempt p q)) k \<noteq> Some pending" using st Cons.prems(2) by simp
  from Cons.IH [OF attempt_inv [OF Cons.prems(1)] this] no st
  show ?case by (auto simp: Let_def less_Suc_eq_0_disj)
qed simp

lemma attempt_at:
  "i < length ps \<Longrightarrow> snd (attempts ps q) ! i = snd (attempt (ps ! i) (fst (attempts (take i ps) q)))"
proof (induction ps arbitrary: q i)
  case (Cons p ps)
  then show ?case by (cases i) (simp_all add: Let_def)
qed simp

lemma success_was_pending:
  "inv q \<Longrightarrow> i < length ps \<Longrightarrow> snd (attempts ps q) ! i \<Longrightarrow> status q (target (ps ! i)) = Some pending"
  using settled_stays by blast

lemma length_attempts [simp]: "length (snd (attempts ps q)) = length ps"
  by (induction ps arbitrary: q) (simp_all add: Let_def)

lemma success_settles:
  assumes "inv q" and "i < length ps" and "snd (attempts ps q) ! i"
  shows "status (fst (attempts ps q)) (target (ps ! i)) = Some (result (ps ! i))
    \<and> (\<forall>j < length ps. j \<noteq> i \<longrightarrow> target (ps ! j) = target (ps ! i) \<longrightarrow> \<not> snd (attempts ps q) ! j)"
  using assms
proof (induction ps arbitrary: q i)
  case (Cons p ps)
  let ?q = "fst (attempt p q)"
  have inv: "inv ?q" by (rule attempt_inv [OF Cons.prems(1)])
  show ?case
  proof (cases i)
    case 0
    with Cons.prems attempt_ok [OF Cons.prems(1), of p]
    have st: "status ?q (target p) = Some (result p)" "result p \<noteq> pending" by (auto simp: Let_def)
    then have "status ?q (target p) \<noteq> Some pending" by simp
    from settled_stays [OF inv this, of ps] st 0 show ?thesis
      by (auto simp: Let_def nth_Cons split: nat.splits)
  next
    case (Suc k)
    with Cons.prems have k: "k < length ps" "snd (attempts ps ?q) ! k" by (simp_all add: Let_def)
    have first: "target p = target (ps ! k) \<Longrightarrow> \<not> snd (attempt p q)"
    proof
      assume eq: "target p = target (ps ! k)" and "snd (attempt p q)"
      with attempt_ok [OF Cons.prems(1), of p]
      have "status ?q (target (ps ! k)) \<noteq> Some pending" by auto
      from settled_stays [OF inv this, of ps] k show False by simp
    qed
    from Cons.IH [OF inv k] first Suc show ?thesis
      by (auto simp: Let_def nth_Cons split: nat.splits)
  qed
qed simp

end

section \<open>Facts\<close>

text \<open>One call of \<open>ResolveApproval\<close>: its environment, id, status, error and message id.\<close>

type_synonym resolve_call = "env \<times> string \<times> string \<times> string option \<times> string option"

definition try_resolve :: "resolve_call \<Rightarrow> db \<Rightarrow> db \<times> bool" where
  "try_resolve c d = (case c of (e, aid, st, er, mid) \<Rightarrow>
     (let r = resolve_approval e aid st er mid d in (fst r, snd r = None)))"

definition approval_status :: "db \<Rightarrow> string \<Rightarrow> string option" where
  "approval_status d aid = map_option ap_status (row_with ap_id aid (approvals d))"

lemma get_approval_Inr: "get_approval e aid d = Inr a \<Longrightarrow> a \<in> set (approvals d) \<and> ap_id a = aid"
proof -
  assume "get_approval e aid d = Inr a"
  then have "query_row e SGetApproval (filter (\<lambda>a. ap_id a = aid) (scan_rows (visit e SGetApproval) (approvals d))) = Inr a"
    by (auto simp: get_approval_def not_found_def split: sum.splits if_splits)
  from query_row_Inr [OF this] have "a \<in> set (filter (\<lambda>a. ap_id a = aid) (scan_rows (visit e SGetApproval) (approvals d)))"
    by (metis list.set_intros(1))
  then show ?thesis by simp
qed

lemma get_approval_eq:
  assumes "db_ok d" and "no_fault e"
  shows "get_approval e aid d = (case row_with ap_id aid (approvals d) of None \<Rightarrow> Inl ErrNotFound | Some a \<Rightarrow> Inr a)"
  using assms by (simp add: get_approval_def filter_key_scan [OF db_okD(5)] not_found_def split: option.split)

lemma resolve_row_id [simp]: "ap_id (resolve_row now s er mid a) = ap_id a"
  by (simp add: resolve_row_def)

lemma resolve_approval_frame [frame_simps]:
  "convs (fst (resolve_approval e i s er m d)) = convs d" "msgs (fst (resolve_approval e i s er m d)) = msgs d"
  "fts (fst (resolve_approval e i s er m d)) = fts d" "contacts (fst (resolve_approval e i s er m d)) = contacts d"
  "aliases (fst (resolve_approval e i s er m d)) = aliases d" "sync (fst (resolve_approval e i s er m d)) = sync d"
  by (simp_all add: resolve_approval_def Let_def split: option.split)

lemma create_approval_frame [frame_simps]:
  "convs (fst (create_approval e a d)) = convs d" "msgs (fst (create_approval e a d)) = msgs d"
  "fts (fst (create_approval e a d)) = fts d" "contacts (fst (create_approval e a d)) = contacts d"
  "aliases (fst (create_approval e a d)) = aliases d" "sync (fst (create_approval e a d)) = sync d"
  by (simp_all add: create_approval_def split: option.split)

lemma create_approval_ok [store_inv]: "db_ok d \<Longrightarrow> db_ok (fst (create_approval e a d))"
proof -
  assume ok: "db_ok d"
  have "db_ok (d\<lparr>approvals := approvals d @ [x]\<rparr>)"
    if "ap_id x \<notin> ap_id ` set (approvals d)" "ap_status x = ''pending''" for x
  proof (rule db_ok_approvals [OF ok])
    show "distinct (map ap_id (approvals d @ [x]))" using db_okD(5) [OF ok] that by auto
    have "''pending'' \<in> set approval_statuses" by (simp add: approval_statuses_def)
    with db_okD(8) [OF ok] that(2) show "ap_status ` set (approvals d @ [x]) \<subseteq> set approval_statuses"
      by (simp only: set_append image_Un Un_subset_iff) simp
  qed
  with ok show ?thesis by (auto simp: create_approval_def split: option.split)
qed

lemma resolve_approval_ok [store_inv]: "db_ok d \<Longrightarrow> db_ok (fst (resolve_approval e i s er m d))"
proof -
  assume ok: "db_ok d"
  have "db_ok (d\<lparr>approvals := update_where P (resolve_row now s er m) (approvals d)\<rparr>)"
    if "s \<in> set approval_terminal" for P now
  proof (rule db_ok_approvals [OF ok])
    show "distinct (map ap_id (update_where P (resolve_row now s er m) (approvals d)))"
      using db_okD(5) [OF ok] by (simp add: map_key_update)
    show "ap_status ` set (update_where P (resolve_row now s er m) (approvals d)) \<subseteq> set approval_statuses"
      using db_okD(8) [OF ok] that
      by (auto simp: update_where_def resolve_row_def approval_terminal_def approval_statuses_def)
  qed
  with ok show ?thesis by (auto simp: resolve_approval_def Let_def split: option.split)
qed

lemma resolve_effect:
  assumes "db_ok d"
  shows "approvals (fst (resolve_approval e aid s er mid d)) = approvals d
     \<and> snd (resolve_approval e aid s er mid d) \<noteq> None
    \<or> snd (resolve_approval e aid s er mid d) = None \<and> s \<in> set approval_terminal
     \<and> (\<exists>a. row_with ap_id aid (approvals d) = Some a \<and> ap_status a = ''pending''
        \<and> approvals (fst (resolve_approval e aid s er mid d))
            = update_where (\<lambda>x. ap_id x = aid) (resolve_row (now_ms e) s er mid) (approvals d))"
proof (cases "s \<in> set approval_terminal \<and> exec_fault e SResolveApproval = None")
  case False
  then show ?thesis by (auto simp: resolve_approval_def split: option.splits)
next
  case True
  let ?hit = "\<lambda>a. ap_id a = aid \<and> ap_status a = ''pending''"
  let ?f = "resolve_row (now_ms e) s er mid"
  show ?thesis
  proof (cases "filter ?hit (approvals d)")
    case Nil
    then have "update_where ?hit ?f (approvals d) = approvals d"
      by (auto simp: update_where_def filter_empty_conv intro!: map_idI)
    with Nil True show ?thesis by (auto simp: resolve_approval_def rows_affected_def Let_def)
  next
    case (Cons a as)
    then have "a \<in> set (filter ?hit (approvals d))" by simp
    then have a: "a \<in> set (approvals d)" "ap_id a = aid" "ap_status a = ''pending''" by simp_all
    with row_with_mem [OF db_okD(5) [OF assms] a(1)] have row: "row_with ap_id aid (approvals d) = Some a" by simp
    have "ap_status x = ''pending''" if "x \<in> set (approvals d)" "ap_id x = aid" for x
      using row_with_mem [OF db_okD(5) [OF assms] that(1)] row that(2) a(3) by simp
    then have "update_where ?hit ?f (approvals d) = update_where (\<lambda>x. ap_id x = aid) ?f (approvals d)"
      unfolding update_where_def by (intro map_cong refl if_cong) blast+
    with Cons True row a(3) show ?thesis by (simp add: resolve_approval_def rows_affected_def Let_def)
  qed
qed

lemma approval_status_resolved:
  assumes "row_with ap_id aid (approvals d) = Some a"
    and "approvals d' = update_where (\<lambda>x. ap_id x = aid) (resolve_row now s er mid) (approvals d)"
  shows "approval_status d' = (approval_status d)(aid \<mapsto> s)"
proof
  fix k
  show "approval_status d' k = ((approval_status d)(aid \<mapsto> s)) k"
  proof (cases "row_with ap_id k (approvals d)")
    case None
    with assms show ?thesis by (auto simp: approval_status_def row_with_update)
  next
    case (Some b)
    then have "ap_id b = k" by (rule row_with_Some [THEN conjunct2])
    with Some assms show ?thesis by (simp add: approval_status_def row_with_update) (simp add: resolve_row_def)
  qed
qed

interpretation approval_queue: once_queue approval_status "''pending''" try_resolve "\<lambda>c. fst (snd c)"
    "\<lambda>c. fst (snd (snd c))" db_ok
proof
  fix d and c :: resolve_call
  obtain e aid s er mid where c: "c = (e, aid, s, er, mid)" by (rule prod_cases5)
  assume ok: "db_ok d"
  then show "db_ok (fst (try_resolve c d))" by (simp add: c try_resolve_def Let_def resolve_approval_ok)
  note eff = resolve_effect [OF ok, of e aid s er mid]
  show "snd (try_resolve c d) \<Longrightarrow> approval_status d (fst (snd c)) = Some ''pending''
      \<and> fst (snd (snd c)) \<noteq> ''pending''
      \<and> approval_status (fst (try_resolve c d)) = (approval_status d)(fst (snd c) \<mapsto> fst (snd (snd c)))"
    using eff by (auto simp: c try_resolve_def Let_def approval_terminal_def
        intro!: approval_status_resolved) (simp_all add: approval_status_def)
  show "\<not> snd (try_resolve c d) \<Longrightarrow> approval_status (fst (try_resolve c d)) = approval_status d"
    using eff by (auto simp: c try_resolve_def Let_def approval_status_def)
qed

text \<open>Resolve calls one after the other, each in its own environment, and which of them succeeded.\<close>

fun resolve_calls :: "resolve_call list \<Rightarrow> db \<Rightarrow> db \<times> bool list" where
  "resolve_calls [] d = (d, [])"
| "resolve_calls (c # cs) d = (let r = try_resolve c d; rs = resolve_calls cs (fst r) in (fst rs, snd r # snd rs))"

lemma resolve_calls_attempts: "resolve_calls cs d = approval_queue.attempts cs d"
  by (induction cs arbitrary: d) (simp_all add: Let_def)

text \<open>C3: however often and in whatever order approvals are resolved, and whatever the driver does, at
  most one call per approval succeeds; it found the approval pending and its terminal status is the
  one that stays. An approval that was not pending keeps its status.\<close>

theorem resolve_at_most_once:
  assumes "db_ok d" and "resolve_calls cs d = (d', oks)" and "i < length cs" and "cs ! i = (e, aid, s, er, mid)"
  shows "(oks ! i \<longrightarrow> approval_status d aid = Some ''pending'' \<and> approval_status d' aid = Some s
        \<and> s \<in> {''sent'', ''failed'', ''denied'', ''canceled''}
        \<and> (\<forall>j < length cs. j = i \<or> fst (snd (cs ! j)) \<noteq> aid \<or> \<not> oks ! j))
     \<and> (approval_status d aid \<noteq> Some ''pending'' \<longrightarrow> \<not> oks ! i \<and> approval_status d' aid = approval_status d aid)"
proof -
  have at: "d' = fst (approval_queue.attempts cs d)" "oks = snd (approval_queue.attempts cs d)"
    using assms(2) by (simp_all flip: resolve_calls_attempts)
  have kept: "approval_status d aid \<noteq> Some ''pending'' \<Longrightarrow> \<not> oks ! i \<and> approval_status d' aid = approval_status d aid"
    using approval_queue.settled_stays [OF assms(1), of aid cs] assms(3,4) at by simp
  have won: "approval_status d' aid = Some s
      \<and> (\<forall>j < length cs. j = i \<or> fst (snd (cs ! j)) \<noteq> aid \<or> \<not> oks ! j)" if "oks ! i"
    using approval_queue.success_settles [OF assms(1,3)] that at assms(4) by auto
  have "s \<in> {''sent'', ''failed'', ''denied'', ''canceled''}" if "oks ! i"
  proof -
    let ?d = "fst (approval_queue.attempts (take i cs) d)"
    have "snd (try_resolve (cs ! i) ?d)" using approval_queue.attempt_at [OF assms(3)] that at by simp
    then have "snd (resolve_approval e aid s er mid ?d) = None" by (simp add: assms(4) try_resolve_def Let_def)
    with resolve_effect [OF approval_queue.attempts_inv [OF assms(1)], of e aid s er mid "take i cs"]
    have "s \<in> set approval_terminal" by blast
    then show ?thesis by (simp add: approval_terminal_def)
  qed
  with kept won show ?thesis by blast
qed

text \<open>A proposal with a fresh id is stored pending, stamped with the clock, without outcome, whatever
  status its caller filled in; a taken id or a missing id, conversation or body is refused and
  changes nothing.\<close>

theorem create_approval_pending:
  assumes "db_ok d" and "no_fault e"
  shows "let d' = fst (create_approval e a d) in
     (if '''' \<in> {ap_id a, ap_conv a, ap_body a} \<or> approval_status d (ap_id a) \<noteq> None
      then snd (create_approval e a d) \<noteq> None \<and> d' = d
      else snd (create_approval e a d) = None
        \<and> get_approval e (ap_id a) d' = Inr (a\<lparr>ap_status := ''pending'', ap_error := None, ap_message_id := None,
            ap_created_at := now_ms e, ap_updated_at := now_ms e\<rparr>)
        \<and> (\<forall>aid. aid = ap_id a \<or> get_approval e aid d' = get_approval e aid d))"
proof -
  have known: "approval_status d (ap_id a) \<noteq> None \<longleftrightarrow> ap_id a \<in> ap_id ` set (approvals d)"
    using row_with_None [of ap_id "ap_id a" "approvals d"] by (auto simp: approval_status_def)
  define d' where "d' = fst (create_approval e a d)"
  have ok: "db_ok d'" unfolding d'_def by (rule create_approval_ok [OF assms(1)])
  show ?thesis
  proof (cases "'''' \<in> {ap_id a, ap_conv a, ap_body a} \<or> ap_id a \<in> ap_id ` set (approvals d)")
    case True
    with known assms(2) show ?thesis by (auto simp: create_approval_def Let_def)
  next
    case False
    let ?x = "a\<lparr>ap_status := ''pending'', ap_error := None, ap_message_id := None,
            ap_created_at := now_ms e, ap_updated_at := now_ms e\<rparr>"
    have res: "create_approval e a d = (d\<lparr>approvals := approvals d @ [?x]\<rparr>, None)"
      using False assms(2) by (cases a) (auto simp: create_approval_def)
    have app: "row_with ap_id k (rs @ [?x]) = (case row_with ap_id k rs of None \<Rightarrow> row_with ap_id k [?x] | Some r \<Rightarrow> Some r)" for k rs
      by (induction rs) auto
    have "row_with ap_id (ap_id a) (approvals d) = None" using False row_with_None [of ap_id "ap_id a" "approvals d"] by blast
    then have "get_approval e (ap_id a) d' = Inr ?x"
      by (simp add: get_approval_eq [OF ok assms(2)]) (simp add: d'_def res app)
    moreover have "aid = ap_id a \<or> get_approval e aid d' = get_approval e aid d" for aid
      by (simp add: get_approval_eq ok assms) (auto simp: d'_def res app split: option.split)
    ultimately show ?thesis using False known res by (simp add: d'_def Let_def)
  qed
qed

lemma resolve_approval_eq:
  assumes "db_ok d" and "no_fault e"
  shows "resolve_approval e aid s er mid d =
     (if s \<notin> {''sent'', ''failed'', ''denied'', ''canceled''}
      then (d, Some (Msg (''invalid terminal approval status '' @ go_quote e s)))
      else case get_approval e aid d of
        Inl _ \<Rightarrow> (d, Some ErrNotFound)
      | Inr a \<Rightarrow> if ap_status a \<noteq> ''pending'' then (d, Some ErrApprovalResolved)
          else (d\<lparr>approvals := update_where (\<lambda>x. ap_id x = aid)
             (\<lambda>x. x\<lparr>ap_status := s, ap_error := er, ap_message_id := mid, ap_updated_at := now_ms e\<rparr>) (approvals d)\<rparr>, None))"
proof -
  have tm: "s \<in> set approval_terminal \<longleftrightarrow> s \<in> {''sent'', ''failed'', ''denied'', ''canceled''}"
    by (simp add: approval_terminal_def)
  let ?r = "resolve_approval e aid s er mid d"
  have shape: "?r = (d\<lparr>approvals := approvals (fst ?r)\<rparr>, snd ?r)"
    by (simp add: resolve_approval_def Let_def split: option.split)
  show ?thesis
  proof (cases "s \<in> set approval_terminal")
    case False
    then show ?thesis unfolding tm [symmetric] by (simp add: resolve_approval_def)
  next
    case True
    let ?hit = "\<lambda>a. ap_id a = aid \<and> ap_status a = ''pending''"
    show ?thesis
    proof (cases "\<exists>a. row_with ap_id aid (approvals d) = Some a \<and> ap_status a = ''pending''")
      case pending: True
      then obtain a where a: "row_with ap_id aid (approvals d) = Some a" "ap_status a = ''pending''" by blast
      then have "a \<in> set (filter ?hit (approvals d))" by (auto dest: row_with_Some)
      then have "rows_affected ?hit (approvals d) \<noteq> 0" by (auto simp: rows_affected_def filter_empty_conv)
      then have "snd ?r = None" using True assms(2) by (simp add: resolve_approval_def Let_def)
      with resolve_effect [OF assms(1), of e aid s er mid]
      have "approvals (fst ?r) = update_where (\<lambda>x. ap_id x = aid) (resolve_row (now_ms e) s er mid) (approvals d)" by blast
      with shape \<open>snd ?r = None\<close> have "?r = (d\<lparr>approvals := update_where (\<lambda>x. ap_id x = aid) (resolve_row (now_ms e) s er mid) (approvals d)\<rparr>, None)"
        by simp
      then show ?thesis using True a unfolding tm [symmetric]
        by (simp add: get_approval_eq [OF assms] resolve_row_def [abs_def])
    next
      case False
      have "\<not> ?hit x" if "x \<in> set (approvals d)" for x
        using False row_with_mem [OF db_okD(5) [OF assms(1)] that] by auto
      then have none: "filter ?hit (approvals d) = []" and same: "update_where ?hit f (approvals d) = approvals d" for f
        by (auto simp: filter_empty_conv update_where_def intro!: map_idI)
      then have "?r = (d, Some (case get_approval e aid d of Inl err \<Rightarrow> err | Inr _ \<Rightarrow> ErrApprovalResolved))"
        using True assms(2) by (simp add: resolve_approval_def rows_affected_def Let_def)
      then show ?thesis using True False unfolding tm [symmetric]
        by (auto simp: get_approval_eq [OF assms] split: option.split)
    qed
  qed
qed

text \<open>Every outcome of resolving: an invalid status, an unknown id and an id that is no longer
  pending are reported, each with its own error and without any change; a pending approval takes
  the status, the error or the message id given, and the clock, and nothing else changes.\<close>

theorem resolve_approval_branches:
  assumes "db_ok d" and "no_fault e"
  shows "resolve_approval e aid s er mid d =
     (if s \<notin> {''sent'', ''failed'', ''denied'', ''canceled''}
      then (d, Some (Msg (''invalid terminal approval status '' @ go_quote e s)))
      else case get_approval e aid d of
        Inl _ \<Rightarrow> (d, Some ErrNotFound)
      | Inr a \<Rightarrow> if ap_status a \<noteq> ''pending'' then (d, Some ErrApprovalResolved)
          else (d\<lparr>approvals := update_where (\<lambda>x. ap_id x = aid)
             (\<lambda>x. x\<lparr>ap_status := s, ap_error := er, ap_message_id := mid, ap_updated_at := now_ms e\<rparr>) (approvals d)\<rparr>, None))"
  using assms by (rule resolve_approval_eq)

section \<open>Concrete inputs\<close>

definition sample_approval :: approval where
  "sample_approval = \<lparr>ap_id = ''a1'', ap_conv = ''c1'', ap_body = ''hi'', ap_reply = None, ap_by = ''mcp'', ap_status = ''sent'',
     ap_error = None, ap_message_id = None, ap_created_at = 0, ap_updated_at = 0\<rparr>"

definition approval_db :: db where
  "approval_db = fst (create_approval (quiet_env 5) sample_approval fresh_db)"

lemma approval_db_ok [simp]: "db_ok approval_db"
  unfolding approval_db_def by (intro create_approval_ok db_ok_fresh)

lemma approval_db_rows: "approvals approval_db
    = [sample_approval\<lparr>ap_status := ''pending'', ap_created_at := 5, ap_updated_at := 5\<rparr>]"
  by (simp add: approval_db_def create_approval_def sample_approval_def)

theorem create_approval_pending_witness:
  "get_approval (quiet_env 5) ''a1'' (fst (create_approval (quiet_env 5) sample_approval fresh_db))
     = Inr (sample_approval\<lparr>ap_status := ''pending'', ap_created_at := 5, ap_updated_at := 5\<rparr>)"
  using create_approval_pending [OF db_ok_fresh no_fault_quiet, of 5 sample_approval]
  unfolding Let_def by (simp add: approval_status_def sample_approval_def)

theorem resolve_approval_branches_witness:
  "snd (resolve_approval (quiet_env 9) ''a1'' ''sent'' None (Some ''m9'') approval_db) = None
   \<and> snd (resolve_approval (quiet_env 9) ''a2'' ''denied'' None None approval_db) = Some ErrNotFound"
proof -
  have "get_approval (quiet_env 9) ''a1'' approval_db = Inr (sample_approval\<lparr>ap_status := ''pending'', ap_created_at := 5, ap_updated_at := 5\<rparr>)"
    "get_approval (quiet_env 9) ''a2'' approval_db = Inl ErrNotFound"
    by (simp_all add: get_approval_eq approval_db_rows sample_approval_def)
  then show ?thesis
    by (simp add: resolve_approval_branches [OF approval_db_ok no_fault_quiet])
qed

theorem resolve_at_most_once_witness:
  "approval_status (fst (resolve_calls [(quiet_env 9, ''a1'', ''denied'', None, None), (quiet_env 9, ''a1'', ''sent'', None, Some ''m9'')] approval_db)) ''a1''
     = Some ''denied''"
proof -
  let ?cs = "[(quiet_env 9, ''a1'', ''denied'', None, None), (quiet_env 9, ''a1'', ''sent'', None, Some ''m9'')]"
  obtain d' oks where r: "resolve_calls ?cs approval_db = (d', oks)" by (meson surj_pair)
  then have "oks ! 0"
    by (auto simp: try_resolve_def Let_def resolve_approval_def approval_terminal_def rows_affected_def
        approval_db_rows sample_approval_def)
  with resolve_at_most_once [OF approval_db_ok r, of 0 "quiet_env 9" "''a1''" "''denied''" None None] r
  show ?thesis by simp
qed

text \<open>A listing of the queue is the page of at most \<open>limit\<close> approvals (50 when none is given), newest
  first, that have the status asked for.\<close>

theorem list_approvals_page:
  assumes "no_fault e"
  shows "\<exists>out. list_approvals e status n d = Inr out
     \<and> page_of (\<lambda>a. - ap_created_at a) (nat (if n \<le> 0 then 50 else n))
         (filter (\<lambda>a. status \<in> {'''', ap_status a}) (approvals d)) out"
proof -
  let ?n = "if n \<le> 0 then 50 else n"
  have P: "(\<lambda>a. status \<in> {'''', ap_status a}) = (\<lambda>a. status \<noteq> '''' \<longrightarrow> ap_status a = status)"
    by (auto simp: fun_eq_iff)
  have "page_of (\<lambda>a. - ap_created_at a) (nat ?n) (filter (\<lambda>a. status \<noteq> '''' \<longrightarrow> ap_status a = status) (approvals d))
     (select_rows (visit e SListApprovals) (\<lambda>a. status \<noteq> '''' \<longrightarrow> ap_status a = status) (\<lambda>a. - ap_created_at a) ?n (approvals d))"
    by (rule select_rows_page) simp
  then show ?thesis using assms unfolding P list_approvals_def by simp
qed

theorem list_approvals_page_witness:
  "\<exists>out. list_approvals (quiet_env 9) ''pending'' 3 approval_db = Inr out
     \<and> page_of (\<lambda>a. - ap_created_at a) 3 (filter (\<lambda>a. ''pending'' \<in> {'''', ap_status a}) (approvals approval_db)) out"
  using list_approvals_page [OF no_fault_quiet [of 9], of "''pending''" 3 approval_db] by simp

end
