(* ===== verification/Gm_Client.thy ===== *)
theory Gm_Client
  imports Sync_Pump
begin

text \<open>
  \<open>internal/gm/gm.go\<close>: the wrapper around libgm. libgm itself is a parameter: the fields of
  \<open>phone_env\<close> are its replies to one call, and every call that reaches the phone is recorded in the
  log of the host state.
\<close>

section \<open>libgm\<close>

record send_request =
  sr_conv :: string
  sr_tmp :: string
  sr_participant :: string
  sr_body :: string
  sr_sim :: "string option"
  sr_reply :: "string option"

text \<open>The status of a send response; \<open>UNKNOWN\<close> carries whether a Google account switch is asked for.\<close>

datatype send_status =
  StUnknown bool | StSuccess | StFailure2 | StFailure3 | StFailure4 | StOther string

type_synonym cursor = "string \<times> int"

datatype phone_call =
    CallGetConversation string
  | CallSend send_request
  | CallReact string string int
  | CallDownload string
  | CallFetch string int "cursor option"
  | CallGetOrCreate string
  | CallListConversations int
  | CallListFolder string int
  | CallListContacts
  | CallDisconnect

record phone_env = env +
  ph_settings :: "string + gm_sim list"
  ph_uuid :: string
  ph_get_conversation :: "string \<Rightarrow> string + gm_conversation"
  ph_send :: "send_request \<Rightarrow> string + send_status"
  ph_echo :: "string \<Rightarrow> string + string \<times> string"
  ph_react :: "string \<Rightarrow> string \<Rightarrow> int \<Rightarrow> string option"
  ph_download :: "string \<Rightarrow> string \<Rightarrow> string + string"
  ph_fetch :: "string \<Rightarrow> int \<Rightarrow> cursor option \<Rightarrow> string + gm_message option list \<times> cursor option"
  ph_get_or_create :: "string \<Rightarrow> string + gm_conversation option"
  ph_list_conversations :: "int \<Rightarrow> string + gm_conversation option list"
  ph_folder :: "string \<Rightarrow> int \<Rightarrow> string + gm_conversation option list"
  ph_contacts :: "string + gm_contact option list"
  ph_connected :: bool
  ctx_err :: "string option"
  status_name :: "int \<Rightarrow> string"

type_synonym 'z phone_calls = "nat list \<Rightarrow> 'z phone_env_scheme"

text \<open>What the daemon's parts share: the store, the phone settings the client has seen, the pump's
  fatal channel and the log of phone calls.\<close>

record host =
  h_pump :: pump
  h_settings :: "gm_sim list option"
  h_log :: "phone_call list"

definition h_db :: "('a) host_scheme \<Rightarrow> db" where
  "h_db h = p_db (h_pump h)"

definition put_db :: "db \<Rightarrow> ('a) host_scheme \<Rightarrow> ('a) host_scheme" where
  "put_db d h = h\<lparr>h_pump := (h_pump h)\<lparr>p_db := d\<rparr>\<rparr>"

definition logged :: "phone_call \<Rightarrow> ('a) host_scheme \<Rightarrow> ('a) host_scheme" where
  "logged c h = h\<lparr>h_log := h_log h @ [c]\<rparr>"

definition sends :: "phone_call list \<Rightarrow> send_request list" where
  "sends log = concat (map (\<lambda>c. case c of CallSend r \<Rightarrow> [r] | _ \<Rightarrow> []) log)"

lemma host_simps [simp]:
  "h_db (put_db d h) = d" "h_log (put_db d h) = h_log h" "h_settings (put_db d h) = h_settings h"
  "h_db (logged c h) = h_db h" "h_log (logged c h) = h_log h @ [c]" "h_settings (logged c h) = h_settings h"
  "h_db (h\<lparr>h_settings := s\<rparr>) = h_db h" "h_db (h\<lparr>h_log := l\<rparr>) = h_db h"
  by (simp_all add: h_db_def put_db_def logged_def)

lemma sends_simps [simp]:
  "sends [] = []" "sends (xs @ ys) = sends xs @ sends ys" "sends (CallSend r # xs) = r # sends xs"
  "sends (CallGetConversation s # xs) = sends xs" "sends (CallReact a b n # xs) = sends xs"
  "sends (CallDownload s # xs) = sends xs" "sends (CallFetch s k c # xs) = sends xs"
  "sends (CallGetOrCreate s # xs) = sends xs" "sends (CallListConversations k # xs) = sends xs"
  "sends (CallDisconnect # xs) = sends xs" "sends (CallListFolder s k # xs) = sends xs" "sends (CallListContacts # xs) = sends xs"
  by (simp_all add: sends_def)

section \<open>Subscribers\<close>

text \<open>The three places that watch for an event register a handler at the end of the list and later
  remove what then stands at the index they noted.\<close>

definition subscribe :: "'h \<Rightarrow> 'h list \<Rightarrow> 'h list" where
  "subscribe h subs = subs @ [h]"

definition watch :: "'h \<Rightarrow> 'h list \<Rightarrow> 'h list \<times> nat" where
  "watch h subs = (subs @ [h], length subs)"

definition unwatch :: "nat \<Rightarrow> 'h list \<Rightarrow> 'h list" where
  "unwatch idx subs = (if idx < length subs then take idx subs @ drop (idx + 1) subs else subs)"

text \<open>\<open>WaitForReady\<close>: \<open>evs\<close> are the events until the context ends with the error \<open>cause\<close>, \<open>later\<close> the handlers others
  register meanwhile.\<close>

fun is_client_ready :: "gm_event \<Rightarrow> bool" where
  "is_client_ready (ClientReady sid cs) = True"
| "is_client_ready _ = False"

definition wait_for_ready :: "bool \<Rightarrow> gm_event list \<Rightarrow> string \<Rightarrow> 'h \<Rightarrow> 'h list \<Rightarrow> 'h list \<Rightarrow> 'h list \<times> err option" where
  "wait_for_ready connected evs cause h later subs = (if connected then (subs, None)
     else (case watch h subs of (s1, idx) \<Rightarrow>
       (unwatch idx (s1 @ later), if list_ex is_client_ready evs then None else Some (Driver cause))))"

record 'h gm_client =
  cl_settings :: "gm_sim list option"
  cl_subs :: "'h list"
  cl_saves :: nat

text \<open>\<open>dispatch\<close>: persist on a token refresh or pairing, remember the settings, then hand the event to
  the subscribers of that moment, in order. The last component is the calls made.\<close>

definition gm_dispatch :: "gm_event \<Rightarrow> 'h gm_client \<Rightarrow> 'h gm_client \<times> ('h \<times> gm_event) list" where
  "gm_dispatch ev c = (let c' = (case ev of
       AuthTokenRefreshed \<Rightarrow> c\<lparr>cl_saves := cl_saves c + 1\<rparr>
     | PairSuccessful \<Rightarrow> c\<lparr>cl_saves := cl_saves c + 1\<rparr>
     | EvSettings s \<Rightarrow> c\<lparr>cl_settings := Some s\<rparr>
     | _ \<Rightarrow> c) in (c', map (\<lambda>h. (h, ev)) (cl_subs c')))"

section \<open>SendText\<close>

definition wait_for_settings :: "'z phone_env_scheme \<Rightarrow> 'a host_scheme \<Rightarrow> 'a host_scheme \<times> err option" where
  "wait_for_settings e h = (case h_settings h of
     Some s \<Rightarrow> (h, None)
   | None \<Rightarrow> (case ph_settings e of
       Inl t \<Rightarrow> (h, Some (Driver t))
     | Inr s \<Rightarrow> (h\<lparr>h_settings := Some s\<rparr>, None)))"

definition sim_for_participant :: "gm_sim list option \<Rightarrow> string \<Rightarrow> gm_sim option" where
  "sim_for_participant settings pid = (case settings of
     None \<Rightarrow> None | Some sims \<Rightarrow> List.find (\<lambda>s. sim_participant s = pid) sims)"

definition build_send_text_request ::
  "'z phone_env_scheme \<Rightarrow> string \<Rightarrow> string \<Rightarrow> string \<Rightarrow> string \<Rightarrow> 'a host_scheme \<Rightarrow> 'a host_scheme \<times> (err + send_request)" where
  "build_send_text_request e cid body reply tmp h0 = (let h = logged (CallGetConversation cid) h0 in
     case ph_get_conversation e cid of
       Inl t \<Rightarrow> (h, Inl (Wrap (''get conversation '' @ cid @ '' before send'') (Driver t)))
     | Inr conv \<Rightarrow> (let out = gc_outgoing conv in
         if out = '''' then (h, Inl (Msg (''conversation '' @ cid @ '' has no default outgoing participant; cannot choose sender/SIM'')))
         else (case sim_for_participant (h_settings h) out of
             None \<Rightarrow> (h, Inl (Msg (''conversation '' @ cid @ '' uses outgoing participant '' @ out
                @ '', but no matching SIM metadata was received'')))
           | Some sim \<Rightarrow> (h, Inr \<lparr>sr_conv = cid, sr_tmp = tmp, sr_participant = out, sr_body = body,
                sr_sim = sim_payload sim, sr_reply = (if reply \<noteq> '''' then Some reply else None)\<rparr>))))"

fun send_status_message :: "send_status \<Rightarrow> string" where
  "send_status_message (StUnknown switch) = (if switch
     then ''switch back to QR pairing or log in with Google account to send messages'' else ''unknown status'')"
| "send_status_message StFailure2 = ''unknown permanent error''"
| "send_status_message StFailure3 = ''unknown temporary error''"
| "send_status_message StFailure4 = ''Google Messages is not your default SMS app''"
| "send_status_message StSuccess = ''SUCCESS''"
| "send_status_message (StOther name) = name"

record send_text_result =
  st_message_id :: string
  st_conversation_id :: string
  st_tmp_id :: string

text \<open>The echo's subscriber is registered before the request goes out, so an echo cannot be missed.\<close>

definition send_text :: "'z phone_env_scheme \<Rightarrow> string \<Rightarrow> string \<Rightarrow> string \<Rightarrow> 'a host_scheme
    \<Rightarrow> 'a host_scheme \<times> (err + send_text_result)" where
  "send_text e cid body reply h =
     (if cid = '''' then (h, Inl (Msg ''conversation id is required''))
      else if body = '''' then (h, Inl (Msg ''message body is required''))
      else (case wait_for_settings e h of
          (h1, Some err) \<Rightarrow> (h1, Inl (Wrap ''wait for phone send settings'' err))
        | (h1, None) \<Rightarrow> (let tmp = ph_uuid e in
            case build_send_text_request e cid body reply tmp h1 of
              (h2, Inl err) \<Rightarrow> (h2, Inl err)
            | (h2, Inr req) \<Rightarrow> (let h3 = logged (CallSend req) h2 in
                case ph_send e req of
                  Inl t \<Rightarrow> (h3, Inl (Wrap ''libgm send'' (Driver t)))
                | Inr st \<Rightarrow>
                    if st \<noteq> StSuccess then (h3, Inl (Msg (''send rejected by phone: '' @ send_status_message st)))
                    else (case ph_echo e tmp of
                        Inl t \<Rightarrow> (h3, Inl (Wrap (''send accepted by phone, but no sent-message echo arrived for tmp_id '' @ tmp) (Driver t)))
                      | Inr (mid, mcid) \<Rightarrow> (h3, Inr \<lparr>st_message_id = mid, st_conversation_id = mcid, st_tmp_id = tmp\<rparr>))))))"

section \<open>Reactions and media\<close>

definition reaction_add :: int where "reaction_add = 0"
definition reaction_remove :: int where "reaction_remove = 1"
definition reaction_switch :: int where "reaction_switch = 2"

definition send_reaction :: "'z phone_env_scheme \<Rightarrow> string \<Rightarrow> string \<Rightarrow> int \<Rightarrow> 'a host_scheme \<Rightarrow> 'a host_scheme \<times> err option" where
  "send_reaction e mid emoji action h =
     (if mid = '''' then (h, Some (Msg ''message id is required''))
      else if emoji = '''' then (h, Some (Msg ''emoji is required''))
      else if action \<notin> set [reaction_add, reaction_remove, reaction_switch]
        then (h, Some (Msg (''unknown reaction action '' @ itoa action)))
      else (logged (CallReact mid emoji action) h,
        map_option (\<lambda>t. Wrap ''libgm reaction'' (Driver t)) (ph_react e mid emoji action)))"

definition download_media :: "'z phone_env_scheme \<Rightarrow> string \<Rightarrow> string \<Rightarrow> 'a host_scheme \<Rightarrow> 'a host_scheme \<times> (err + string)" where
  "download_media e mid key h =
     (if mid = '''' then (h, Inl (Msg ''media id is required''))
      else (logged (CallDownload mid) h, case ph_download e mid key of Inl t \<Rightarrow> Inl (Driver t) | Inr b \<Rightarrow> Inr b))"

section \<open>Facts\<close>

text \<open>C18: a text is handed to the phone at most once per call, and only with everything the request needs:
  the conversation's own sender, the SIM of that sender, the body and the quoted message asked for;
  a success is reported only when the phone accepted the request and echoed the message back, and
  nothing but the phone's settings changes on this side.\<close>

theorem send_text_once:
  "let (h', r) = send_text e cid body reply h in
     h_db h' = h_db h \<and> (\<exists>calls. h_log h' = h_log h @ calls
       \<and> (sends calls = [] \<and> (\<exists>err. r = Inl err)
         \<or> (\<exists>req conv sims sim. sends calls = [req] \<and> cid \<noteq> '''' \<and> body \<noteq> ''''
            \<and> ph_get_conversation e cid = Inr conv \<and> h_settings h' = Some sims
            \<and> sim \<in> set sims \<and> sim_participant sim = gc_outgoing conv
            \<and> req = \<lparr>sr_conv = cid, sr_tmp = ph_uuid e, sr_participant = gc_outgoing conv, sr_body = body,
                 sr_sim = sim_payload sim, sr_reply = (if reply \<noteq> '''' then Some reply else None)\<rparr>
            \<and> (\<forall>res. r = Inr res \<longleftrightarrow> ph_send e req = Inr StSuccess
                 \<and> ph_echo e (ph_uuid e) = Inr (st_message_id res, st_conversation_id res) \<and> st_tmp_id res = ph_uuid e))))"
proof (cases "cid = '''' \<or> body = ''''")
  case True
  then show ?thesis by (auto simp: send_text_def)
next
  case False
  obtain h1 w where w: "wait_for_settings e h = (h1, w)" by (meson surj_pair)
  then have h1: "h_db h1 = h_db h" "h_log h1 = h_log h" "w = None \<Longrightarrow> \<exists>s. h_settings h1 = Some s"
    by (auto simp: wait_for_settings_def split: option.splits sum.splits)
  show ?thesis
  proof (cases w)
    case (Some err)
    with False w h1 show ?thesis by (auto simp: send_text_def)
  next
    case None
    obtain h2 b where b: "build_send_text_request e cid body reply (ph_uuid e) h1 = (h2, b)" by (meson surj_pair)
    then have h2: "h2 = logged (CallGetConversation cid) h1"
      by (auto simp: build_send_text_request_def Let_def split: sum.splits if_splits option.splits)
    show ?thesis
    proof (cases b)
      case (Inl err)
      with False w None b h1 h2 show ?thesis by (auto simp: send_text_def Let_def)
    next
      case (Inr req)
      from b [unfolded Inr build_send_text_request_def Let_def] obtain conv sim where req:
        "ph_get_conversation e cid = Inr conv" "sim_for_participant (h_settings h1) (gc_outgoing conv) = Some sim"
        "req = \<lparr>sr_conv = cid, sr_tmp = ph_uuid e, sr_participant = gc_outgoing conv, sr_body = body,
                 sr_sim = sim_payload sim, sr_reply = (if reply \<noteq> '''' then Some reply else None)\<rparr>"
        by (auto simp: logged_def split: sum.splits if_splits option.splits)
      from req(2) obtain sims where sims: "h_settings h1 = Some sims" "sim \<in> set sims" "sim_participant sim = gc_outgoing conv"
        by (auto simp: sim_for_participant_def split: option.splits dest: find_Some_mem)
      let ?h3 = "logged (CallSend req) h2"
      have eq: "send_text e cid body reply h = (?h3, case ph_send e req of
          Inl t \<Rightarrow> Inl (Wrap ''libgm send'' (Driver t))
        | Inr st \<Rightarrow> if st \<noteq> StSuccess then Inl (Msg (''send rejected by phone: '' @ send_status_message st))
            else (case ph_echo e (ph_uuid e) of
                Inl t \<Rightarrow> Inl (Wrap (''send accepted by phone, but no sent-message echo arrived for tmp_id '' @ ph_uuid e) (Driver t))
              | Inr (mid, mcid) \<Rightarrow> Inr \<lparr>st_message_id = mid, st_conversation_id = mcid, st_tmp_id = ph_uuid e\<rparr>))"
        using False w None b Inr by (auto simp: send_text_def Let_def split: sum.splits)
      have "h_db ?h3 = h_db h" "h_log ?h3 = h_log h @ [CallGetConversation cid, CallSend req]"
        "h_settings ?h3 = Some sims"
        using h1 h2 sims by simp_all
      with False req sims show ?thesis unfolding eq
        by (auto simp: split: sum.split intro!: exI [of _ "[CallGetConversation cid, CallSend req]"])
    qed
  qed
qed

text \<open>Every event reaches every subscriber of that moment exactly once and in the order they were
  registered; a refreshed token is persisted and new settings are remembered before anyone is told.\<close>

theorem dispatch_fan_out:
  "let (c', calls) = gm_dispatch ev c in
     map fst calls = cl_subs c \<and> map snd calls = replicate (length (cl_subs c)) ev \<and> cl_subs c' = cl_subs c
     \<and> cl_saves c' = cl_saves c + (if ev \<in> {AuthTokenRefreshed, PairSuccessful} then 1 else 0)
     \<and> cl_settings c' = (case ev of EvSettings s \<Rightarrow> Some s | _ \<Rightarrow> cl_settings c)"
  by (cases ev) (simp_all add: gm_dispatch_def comp_def map_replicate_const)

lemma unwatch_last: "unwatch (length subs) (subs @ [h]) = subs"
  by (simp add: unwatch_def)

text \<open>A watcher that comes and goes leaves the other subscribers as they were, also those registered
  in the meantime, as long as none registered before it leaves first.\<close>

lemma unwatch_own:
  "unwatch (snd (watch h subs)) (fst (watch h subs) @ later) = subs @ later"
  by (simp add: watch_def unwatch_def)

lemma wait_for_ready_keeps:
  "wait_for_ready connected evs cause h later subs
     = (subs @ (if connected then [] else later), if connected \<or> list_ex is_client_ready evs then None else Some (Driver cause))"
  by (auto simp: wait_for_ready_def unwatch_def watch_def)

text \<open>Watchers that overlap disturb each other: when the earlier of two leaves first, the later one
  stays registered for good, and if a subscriber was added in between it is removed in its place.\<close>

theorem unwatch_overlapping:
  "let (s1, i1) = watch h1 subs; (s2, i2) = watch h2 s1 in
     unwatch i2 (unwatch i1 s2) = subs @ [h2]
     \<and> unwatch i2 (subscribe h3 (unwatch i1 s2)) = subs @ [h2]"
  by (simp add: watch_def unwatch_def subscribe_def)

section \<open>A concrete phone\<close>

text \<open>A phone on which everything works: one conversation participant, one SIM, an echo for every send
  and one page of history.\<close>

definition quiet_phone :: "int \<Rightarrow> phone_env" where
  "quiet_phone t = env.extend (quiet_env t) (phone_env.fields
     (Inr [\<lparr>sim_participant = ''me'', sim_payload = Some ''sim''\<rparr>]) ''u1''
     (\<lambda>cid. Inr (sample_gm_conversation\<lparr>gc_id := cid\<rparr>)) (\<lambda>req. Inr StSuccess) (\<lambda>tmp. Inr (''m9'', ''c1''))
     (\<lambda>mid emoji act. None) (\<lambda>mid key. Inr ''bytes'')
     (\<lambda>chat n cur. Inr ([Some sample_gm_message], Some (''m1'', 1700000000000)))
     (\<lambda>phone. Inr (Some sample_gm_conversation)) (\<lambda>n. Inr [Some sample_gm_conversation])
     (\<lambda>folder n. if folder = ''INBOX'' then Inr [Some sample_gm_conversation, None] else Inl ''unavailable'') (Inr [None]) True None (\<lambda>s. ''''))"

lemma quiet_phone_simps [simp]:
  "fault (quiet_phone t) s = None" "now_ms (quiet_phone t) = t" "no_fault (quiet_phone t)" "exec_fault (quiet_phone t) s = None"
  "ph_settings (quiet_phone t) = Inr [\<lparr>sim_participant = ''me'', sim_payload = Some ''sim''\<rparr>]"
  "ph_uuid (quiet_phone t) = ''u1''" "ph_get_conversation (quiet_phone t) cid = Inr (sample_gm_conversation\<lparr>gc_id := cid\<rparr>)"
  "ph_send (quiet_phone t) req = Inr StSuccess" "ph_echo (quiet_phone t) tmp = Inr (''m9'', ''c1'')"
  "ph_fetch (quiet_phone t) chat n cur = Inr ([Some sample_gm_message], Some (''m1'', 1700000000000))"
  "ctx_err (quiet_phone t) = None" "visit (quiet_phone t) s = []" "ph_react (quiet_phone t) a b i = None"
  "ph_download (quiet_phone t) a b = Inr ''bytes''" "status_name (quiet_phone t) i = ''''"
  by (simp_all add: quiet_phone_def quiet_env_def env.defs phone_env.defs no_fault_def exec_fault_def)

definition idle_host :: "db \<Rightarrow> host" where
  "idle_host d = \<lparr>h_pump = \<lparr>p_db = d, p_fatal = []\<rparr>, h_settings = None, h_log = []\<rparr>"

lemma idle_host_simps [simp]: "h_db (idle_host d) = d" "h_log (idle_host d) = []" "h_settings (idle_host d) = None"
  by (simp_all add: idle_host_def h_db_def)

end
