(* ===== verification/History.thy ===== *)
theory History
  imports Gm_Client
begin

text \<open>
  \<open>internal/history/history.go\<close>: paging a conversation's history backwards through the phone, and the
  lookup of a conversation by number.
\<close>

record backfill_result =
  bf_conv :: string
  bf_requests :: int
  bf_count :: int
  bf_fetched :: int
  bf_processed :: int
  bf_before :: int
  bf_after :: int
  bf_added :: int

definition oldest_cursor :: "'z env_scheme \<Rightarrow> string \<Rightarrow> db \<Rightarrow> err + cursor option" where
  "oldest_cursor e chat d = (case list_messages e \<lparr>lm_conv = chat, lm_sender = '''', lm_since = zero_time_ms,
       lm_until = zero_time_ms, lm_limit = 1, lm_order = ''asc''\<rparr> d of
     Inl err \<Rightarrow> Inl err
   | Inr [] \<Rightarrow> Inr None
   | Inr (m # _) \<Rightarrow> Inr (Some (msg_id m, msg_ts m)))"

definition same_cursor :: "cursor option \<Rightarrow> cursor option \<Rightarrow> bool" where
  "same_cursor a b \<longleftrightarrow> (case (a, b) of (Some x, Some y) \<Rightarrow> fst x = fst y \<and> snd x = snd y | _ \<Rightarrow> a = b)"

text \<open>The loop, with the number of requests left as its measure.\<close>

fun backfill_loop :: "'z phone_calls \<Rightarrow> string \<Rightarrow> int \<Rightarrow> nat \<Rightarrow> cursor option \<Rightarrow> backfill_result \<Rightarrow> 'a host_scheme
    \<Rightarrow> 'a host_scheme \<times> backfill_result \<times> err option" where
  "backfill_loop E chat n 0 cur res h = (h, res, None)"
| "backfill_loop E chat n (Suc left) cur res h = (let F = at E left in
     case ctx_err (here F) of
       Some t \<Rightarrow> (h, res, Some (Driver t))
     | None \<Rightarrow> (let h1 = logged (CallFetch chat n cur) h in
         case ph_fetch (here F) chat n cur of
           Inl t \<Rightarrow> (h1, res, Some (Wrap ''fetch messages'' (Driver t)))
         | Inr (ms, next_cursor) \<Rightarrow>
             (let (d2, k) = import_messages (at F 0) (status_name (here F)) 0 ms (h_db h1);
                  h2 = put_db d2 h1;
                  res2 = res\<lparr>bf_requests := bf_requests res + 1, bf_fetched := bf_fetched res + int (length ms),
                    bf_processed := bf_processed res + int k\<rparr> in
              if ms = [] \<or> same_cursor cur next_cursor then (h2, res2, None)
              else backfill_loop E chat n left next_cursor res2 h2)))"

definition empty_backfill :: backfill_result where
  "empty_backfill = \<lparr>bf_conv = '''', bf_requests = 0, bf_count = 0, bf_fetched = 0, bf_processed = 0, bf_before = 0,
     bf_after = 0, bf_added = 0\<rparr>"

definition backfill :: "'z phone_calls \<Rightarrow> string \<Rightarrow> int \<Rightarrow> int \<Rightarrow> 'a host_scheme
    \<Rightarrow> 'a host_scheme \<times> backfill_result \<times> err option" where
  "backfill E chat requests0 count0 h = (let requests = (if requests0 \<le> 0 then 10 else requests0);
       n = (if count0 \<le> 0 then 50 else count0) in
     case oldest_cursor (here (at E 0)) chat (h_db h) of
       Inl err \<Rightarrow> (h, empty_backfill, Some err)
     | Inr cur \<Rightarrow> (case count_messages_conv (here (at E 1)) chat (h_db h) of
         Inl err \<Rightarrow> (h, empty_backfill, Some (Wrap ''count messages before backfill'' err))
       | Inr before \<Rightarrow> (case backfill_loop (at E 2) chat n (nat requests) cur
             (empty_backfill\<lparr>bf_conv := chat, bf_count := n, bf_before := int before\<rparr>) h of
           (h', res, Some err) \<Rightarrow> (h', res, Some err)
         | (h', res, None) \<Rightarrow> (case count_messages_conv (here (at E 3)) chat (h_db h') of
             Inl err \<Rightarrow> (h', res, Some (Wrap ''count messages after backfill'' err))
           | Inr after \<Rightarrow> (h', res\<lparr>bf_after := int after, bf_added := int after - int before\<rparr>, None)))))"

definition lookup_conversation :: "'z phone_calls \<Rightarrow> string \<Rightarrow> 'a host_scheme \<Rightarrow> 'a host_scheme \<times> (err + gm_conversation)" where
  "lookup_conversation E phone h0 = (let h = logged (CallGetOrCreate phone) h0 in
     case ph_get_or_create (here E) phone of
       Inl t \<Rightarrow> (h, Inl (Wrap ''GetOrCreateConversation'' (Driver t)))
     | Inr None \<Rightarrow> (h, Inl (Msg (''no conversation found for '' @ phone)))
     | Inr (Some conv) \<Rightarrow> (put_db (on_conversation (at E 0) conv (h_db h)) h, Inr conv))"

section \<open>Facts\<close>

text \<open>The fetches of a log: the cursors asked for, in order.\<close>

definition fetches :: "phone_call list \<Rightarrow> (string \<times> int \<times> cursor option) list" where
  "fetches log = concat (map (\<lambda>c. case c of CallFetch s n cur \<Rightarrow> [(s, n, cur)] | _ \<Rightarrow> []) log)"

lemma fetches_simps [simp]:
  "fetches [] = []" "fetches (xs @ ys) = fetches xs @ fetches ys" "fetches (CallFetch s n c # xs) = (s, n, c) # fetches xs"
  by (simp_all add: fetches_def)

lemma import_messages_count:
  "snd (import_messages E nm i ms d) \<le> length ms \<and> sync (fst (import_messages E nm i ms d)) = sync d"
  by (induction E nm i ms d rule: import_messages.induct) (simp_all add: Let_def on_message_old le_SucI)

lemma on_message_ids: "m_id ` set (msgs d) \<subseteq> m_id ` set (msgs (on_message E nm w d))"
proof -
  have "msgs (fst (upsert_message e row d)) = msgs d
      \<or> msgs (fst (upsert_message e row d)) = upsert_row m_id msg_merge (msg_row_of (now_ms e) row) (msgs d)" for e and row
    by (simp add: upsert_message_def insert_message_def Let_def split: option.split)
  then have up: "m_id ` set (msgs d) \<subseteq> m_id ` set (msgs (fst (upsert_message e row d)))" for e and row
    using msg_table.upsert_keys [of "msg_row_of (now_ms e) row" "msgs d"] by (metis order_refl subset_insertI)
  have mark: "msgs (fst (mark_sync e a b d1)) = msgs d1" for e :: "'a env_scheme" and a b d1
    by (simp add: mark_sync_def split: option.split)
  have up': "m_id ` set (msgs d) \<subseteq> m_id ` set (msgs d1)" if "upsert_message e row d = (d1, r)" for e row d1 r
    using up [of e row] that by simp
  show ?thesis
    by (auto simp: on_message_def mark split: option.split prod.split) (use up' in blast)+
qed

lemma import_messages_ids: "m_id ` set (msgs d) \<subseteq> m_id ` set (msgs (fst (import_messages E nm i ms d)))"
proof (induction E nm i ms d rule: import_messages.induct)
  case (3 E nm i m ms d)
  show ?case
  proof (cases "gmm_id m = ''''")
    case True
    with "3.IH"(1) show ?thesis by simp
  next
    case False
    from order_trans [OF on_message_ids "3.IH"(2) [OF False]] False show ?thesis by (simp add: Let_def)
  qed
qed simp_all

text \<open>What one run of the loop guarantees.\<close>

definition backfill_ok :: "string \<Rightarrow> int \<Rightarrow> nat \<Rightarrow> cursor option \<Rightarrow> backfill_result \<Rightarrow> 'a host_scheme
    \<Rightarrow> 'a host_scheme \<Rightarrow> backfill_result \<Rightarrow> bool" where
  "backfill_ok chat n left cur res h h' res' \<longleftrightarrow>
     (\<exists>cs. h_log h' = h_log h @ cs \<and> sends cs = [] \<and> length (fetches cs) \<le> left
       \<and> (\<forall>f \<in> set (fetches cs). \<exists>c. f = (chat, n, c)) \<and> (fetches cs \<noteq> [] \<longrightarrow> hd (fetches cs) = (chat, n, cur))
       \<and> bf_requests res' \<le> bf_requests res + int (length (fetches cs)))
     \<and> bf_processed res \<le> bf_processed res'
     \<and> bf_processed res' - bf_processed res \<le> bf_fetched res' - bf_fetched res
     \<and> bf_conv res' = bf_conv res \<and> bf_count res' = bf_count res \<and> bf_before res' = bf_before res
     \<and> sync (h_db h') = sync (h_db h) \<and> m_id ` set (msgs (h_db h)) \<subseteq> m_id ` set (msgs (h_db h'))
     \<and> (db_ok (h_db h) \<longrightarrow> db_ok (h_db h'))"

lemma backfill_ok_refl: "backfill_ok chat n left cur res h h res"
  by (simp add: backfill_ok_def exI [of _ "[]"])

lemma backfill_loop_ok:
  "backfill_loop E chat n left cur res h = (h', res', err) \<Longrightarrow> backfill_ok chat n left cur res h h' res'"
proof (induction E chat n left cur res h arbitrary: h' res' err rule: backfill_loop.induct)
  case (2 E chat n left cur res h)
  let ?F = "at E left"
  let ?h1 = "logged (CallFetch chat n cur) h"
  show ?case
  proof (cases "ctx_err (here ?F)")
    case (Some t)
    with "2.prems" show ?thesis by (simp add: backfill_ok_refl Let_def)
  next
    case None
    show ?thesis
    proof (cases "ph_fetch (here ?F) chat n cur")
      case (Inl t)
      with "2.prems" None show ?thesis
        by (auto simp: Let_def backfill_ok_def intro!: exI [of _ "[CallFetch chat n cur]"])
    next
      case (Inr r)
      obtain ms nx where r: "r = (ms, nx)" by fastforce
      obtain d2 k where imp: "import_messages (at ?F 0) (status_name (here ?F)) 0 ms (h_db ?h1) = (d2, k)" by fastforce
      let ?h2 = "put_db d2 ?h1"
      let ?res2 = "res\<lparr>bf_requests := bf_requests res + 1, bf_fetched := bf_fetched res + int (length ms),
                    bf_processed := bf_processed res + int k\<rparr>"
      have d2: "k \<le> length ms" "sync d2 = sync (h_db h)" "m_id ` set (msgs (h_db h)) \<subseteq> m_id ` set (msgs d2)"
        "db_ok (h_db h) \<longrightarrow> db_ok d2"
        using import_messages_count [of "at ?F 0" "status_name (here ?F)" 0 ms "h_db ?h1"]
          import_messages_ids [of "h_db ?h1" "at ?F 0" "status_name (here ?F)" 0 ms]
          import_messages_ok [of "h_db ?h1" "at ?F 0" "status_name (here ?F)" 0 ms] imp by simp_all
      show ?thesis
      proof (cases "ms = [] \<or> same_cursor cur nx")
        case True
        with "2.prems" None Inr r imp have "h' = ?h2" "res' = ?res2" by (auto simp: Let_def)
        with d2 show ?thesis by (auto simp: backfill_ok_def intro!: exI [of _ "[CallFetch chat n cur]"])
      next
        case False
        with "2.prems" None Inr r imp have rec: "backfill_loop E chat n left nx ?res2 ?h2 = (h', res', err)"
          by (simp add: Let_def)
        from "2.IH" [OF refl None refl Inr r [symmetric] imp [symmetric] refl refl refl False rec]
        have "backfill_ok chat n left nx ?res2 ?h2 h' res'" .
        then obtain cs where cs: "h_log h' = h_log ?h2 @ cs" "sends cs = []" "length (fetches cs) \<le> left"
          "\<forall>f \<in> set (fetches cs). \<exists>c. f = (chat, n, c)" "bf_requests res' \<le> bf_requests ?res2 + int (length (fetches cs))"
          and rest: "bf_processed ?res2 \<le> bf_processed res'"
            "bf_processed res' - bf_processed ?res2 \<le> bf_fetched res' - bf_fetched ?res2"
            "bf_conv res' = bf_conv res" "bf_count res' = bf_count res" "bf_before res' = bf_before res"
            "sync (h_db h') = sync d2" "m_id ` set (msgs d2) \<subseteq> m_id ` set (msgs (h_db h'))"
            "db_ok d2 \<longrightarrow> db_ok (h_db h')"
          by (auto simp: backfill_ok_def)
        with d2 show ?thesis
          by (auto simp: backfill_ok_def intro!: exI [of _ "CallFetch chat n cur # cs"])
      qed
    qed
  qed
qed (simp add: backfill_ok_refl)

text \<open>C23: a backfill asks the phone for at most \<open>requests\<close> pages (10 when none is given) of the chat and
  page size asked for, the first of them just before the oldest stored message; it sends nothing,
  never loses a stored message, never moves the freshness times and reports no more records as
  processed than it fetched, whatever the phone, the driver and the context do.\<close>

theorem backfill_bounded:
  assumes "backfill E chat requests cnt h = (h', res, err)"
  shows "(\<exists>cs. h_log h' = h_log h @ cs \<and> sends cs = []
       \<and> length (fetches cs) \<le> nat (if requests \<le> 0 then 10 else requests)
       \<and> (\<forall>f \<in> set (fetches cs). \<exists>c. f = (chat, if cnt \<le> 0 then 50 else cnt, c))
       \<and> (fetches cs = [] \<or> (\<exists>cur. oldest_cursor (here (at E 0)) chat (h_db h) = Inr cur
            \<and> hd (fetches cs) = (chat, if cnt \<le> 0 then 50 else cnt, cur)))
       \<and> bf_requests res \<le> int (length (fetches cs)))
     \<and> 0 \<le> bf_processed res \<and> bf_processed res \<le> bf_fetched res
     \<and> sync (h_db h') = sync (h_db h) \<and> m_id ` set (msgs (h_db h)) \<subseteq> m_id ` set (msgs (h_db h'))
     \<and> (\<not> db_ok (h_db h) \<or> db_ok (h_db h'))"
proof (cases "\<exists>cur before. oldest_cursor (here (at E 0)) chat (h_db h) = Inr cur
    \<and> count_messages_conv (here (at E 1)) chat (h_db h) = Inr before")
  case False
  then have "h' = h \<and> res = empty_backfill"
    using assms by (auto simp: backfill_def Let_def split: sum.splits)
  then show ?thesis by (auto simp: empty_backfill_def intro!: exI [of _ "[]"])
next
  case True
  then obtain cur before where start: "oldest_cursor (here (at E 0)) chat (h_db h) = Inr cur"
    "count_messages_conv (here (at E 1)) chat (h_db h) = Inr before" by blast
  let ?n = "if cnt \<le> 0 then 50 else cnt" and ?left = "nat (if requests \<le> 0 then 10 else requests)"
  let ?res0 = "empty_backfill\<lparr>bf_conv := chat, bf_count := ?n, bf_before := int before\<rparr>"
  obtain h1 res1 err1 where loop: "backfill_loop (at E 2) chat ?n ?left cur ?res0 h = (h1, res1, err1)" by (rule prod_cases3)
  then have "h' = h1 \<and> bf_requests res = bf_requests res1 \<and> bf_processed res = bf_processed res1 \<and> bf_fetched res = bf_fetched res1"
    using assms start by (auto simp: backfill_def Let_def split: sum.splits option.splits)
  with backfill_loop_ok [OF loop] start(1) show ?thesis
    by (auto simp: backfill_ok_def empty_backfill_def)
qed

text \<open>A backfill that succeeds reports the chat's stored messages before and after it, and as added
  their difference.\<close>

theorem backfill_reports:
  assumes "backfill E chat requests cnt h = (h', res, None)"
    and "no_fault (E [1])" and "no_fault (E [3])"
  shows "bf_conv res = chat \<and> bf_before res = int (length (filter (\<lambda>m. m_conv m = chat) (msgs (h_db h))))
     \<and> bf_after res = int (length (filter (\<lambda>m. m_conv m = chat) (msgs (h_db h'))))
     \<and> bf_added res = bf_after res - bf_before res"
proof -
  let ?n = "if cnt \<le> 0 then 50 else cnt" and ?left = "nat (if requests \<le> 0 then 10 else requests)"
  have nf: "no_fault (here (at E 1))" "no_fault (here (at E 3))" using assms(2,3) by (simp_all add: here_def at_def)
  then have counts: "count_messages_conv (here (at E k)) chat d = Inr (length (filter (\<lambda>m. m_conv m = chat) (msgs d)))"
    if "k = 1 \<or> k = 3" for k d
    using that by (auto simp: count_messages_conv_def)
  obtain cur where cur: "oldest_cursor (here (at E 0)) chat (h_db h) = Inr cur"
    using assms(1) by (auto simp: backfill_def Let_def split: sum.splits)
  let ?before = "length (filter (\<lambda>m. m_conv m = chat) (msgs (h_db h)))"
  obtain h1 res1 err1 where loop: "backfill_loop (at E 2) chat ?n ?left cur
      (empty_backfill\<lparr>bf_conv := chat, bf_count := ?n, bf_before := int ?before\<rparr>) h = (h1, res1, err1)" by (rule prod_cases3)
  from backfill_loop_ok [OF loop] have "bf_conv res1 = chat" "bf_before res1 = int ?before"
    by (simp_all add: backfill_ok_def)
  moreover have "err1 = None \<and> h' = h1 \<and> res = res1\<lparr>bf_after := int (length (filter (\<lambda>m. m_conv m = chat) (msgs (h_db h1)))),
      bf_added := int (length (filter (\<lambda>m. m_conv m = chat) (msgs (h_db h1)))) - int ?before\<rparr>"
    using assms(1) loop by (cases err1) (auto simp: backfill_def Let_def cur counts)
  ultimately show ?thesis by simp
qed

text \<open>A page that is empty or repeats the cursor ends the run.\<close>

lemma backfill_loop_stops:
  assumes "ctx_err (E [left]) = None" and "ph_fetch (E [left]) chat n cur = Inr (ms, nx)"
    and "ms = [] \<or> same_cursor cur nx"
  shows "\<exists>h' res'. backfill_loop E chat n (Suc left) cur res h = (h', res', None)
    \<and> fetches (h_log h') = fetches (h_log h) @ [(chat, n, cur)]"
  using assms by (auto simp: here_def at_def Let_def split: prod.split)

section \<open>Concrete inputs\<close>

definition one_page :: "host \<times> backfill_result \<times> err option" where
  "one_page = backfill (\<lambda>_. quiet_phone 5) ''c1'' 3 0 (idle_host fresh_db)"

lemma one_page_ok: "snd (snd one_page) = None"
proof -
  have "list_messages (quiet_phone 5) opts fresh_db = Inr []" for opts
    by (simp add: list_messages_def list_rows_def query_rows_def select_rows_def scan_rows_def sql_limit_def Let_def)
  then show ?thesis
    by (simp add: one_page_def backfill_def oldest_cursor_def count_messages_conv_def query_row_def here_def at_def
        Let_def numeral_3_eq_3 same_cursor_def sample_gm_message_def split: prod.split)
qed

lemma one_page_eq: "backfill (\<lambda>_. quiet_phone 5) ''c1'' 3 0 (idle_host fresh_db) = (fst one_page, fst (snd one_page), None)"
  using one_page_ok by (simp add: one_page_def prod_eq_iff)

theorem backfill_bounded_witness:
  "bf_processed (fst (snd one_page)) \<le> bf_fetched (fst (snd one_page)) \<and> sync (h_db (fst one_page)) = sync fresh_db"
  using backfill_bounded [OF one_page_eq] by simp

theorem backfill_reports_witness:
  "bf_before (fst (snd one_page)) = 0"
  using backfill_reports [OF one_page_eq] by simp

end
