(* ===== verification/Rpc_Protocol.thy ===== *)
theory Rpc_Protocol
  imports Store_Search Store_Approvals History
begin

text \<open>
  \<open>internal/rpc/protocol.go\<close> and the JSON shapes of the store's structs: requests, responses, error
  codes and events of the newline-delimited JSON-RPC protocol.
\<close>

section \<open>Codes, events, send modes\<close>

definition code_parse :: int where "code_parse = -32700"
definition code_invalid_request :: int where "code_invalid_request = -32600"
definition code_method_not_found :: int where "code_method_not_found = -32601"
definition code_invalid_params :: int where "code_invalid_params = -32602"
definition code_internal :: int where "code_internal = -32603"
definition code_sends_disabled :: int where "code_sends_disabled = 1001"
definition code_not_found :: int where "code_not_found = 1002"
definition code_already_resolved :: int where "code_already_resolved = 1003"
definition code_unavailable :: int where "code_unavailable = 1004"

lemmas rpc_codes = code_parse_def code_invalid_request_def code_method_not_found_def code_invalid_params_def
  code_internal_def code_sends_disabled_def code_not_found_def code_already_resolved_def code_unavailable_def

definition event_message_new :: string where "event_message_new = ''message.new''"
definition event_conversation_updated :: string where "event_conversation_updated = ''conversation.updated''"
definition event_sync_status :: string where "event_sync_status = ''sync.status''"
definition event_approval_requested :: string where "event_approval_requested = ''approval.requested''"
definition event_approval_resolved :: string where "event_approval_resolved = ''approval.resolved''"
definition event_pair_qr :: string where "event_pair_qr = ''pair.qr''"
definition event_pair_emoji :: string where "event_pair_emoji = ''pair.emoji''"
definition event_pair_success :: string where "event_pair_success = ''pair.success''"
definition event_pair_error :: string where "event_pair_error = ''pair.error''"

definition send_off :: string where "send_off = ''off''"
definition send_approve :: string where "send_approve = ''approve''"
definition send_direct :: string where "send_direct = ''direct''"

section \<open>Requests, responses, notifications\<close>

record rpc_request =
  rq_id :: "json option"
  rq_method :: string
  rq_params :: "json option"

record rpc_error =
  re_code :: int
  re_message :: string
  re_data :: "json option"

definition rpc_err :: "int \<Rightarrow> string \<Rightarrow> rpc_error" where
  "rpc_err code text = \<lparr>re_code = code, re_message = text, re_data = None\<rparr>"

definition internal_err :: "err \<Rightarrow> rpc_error" where
  "internal_err e = rpc_err code_internal (err_text e)"

text \<open>A raw field keeps whatever value it has, \<open>null\<close> included; only an absent one is nil.\<close>

definition raw_field :: "(string \<times> json) list \<Rightarrow> string \<Rightarrow> json option" where
  "raw_field fs name = (case obj_values name fs of [] \<Rightarrow> None | vs \<Rightarrow> Some (last vs))"

text \<open>\<open>json.Unmarshal(line, &req)\<close>: \<open>None\<close> when it fails.\<close>

definition decode_request :: "string \<Rightarrow> rpc_request option" where
  "decode_request line = (case parse_json line of
     None \<Rightarrow> None
   | Some JNull \<Rightarrow> Some \<lparr>rq_id = None, rq_method = '''', rq_params = None\<rparr>
   | Some (JObj fs) \<Rightarrow> if fields_ok [(''jsonrpc'', KString), (''method'', KString)] fs
       then Some \<lparr>rq_id = raw_field fs ''id'', rq_method = get_string fs ''method'', rq_params = raw_field fs ''params''\<rparr>
       else None
   | Some _ \<Rightarrow> None)"

definition opt_field :: "string \<Rightarrow> json option \<Rightarrow> (string \<times> json) list" where
  "opt_field name v = (case v of None \<Rightarrow> [] | Some j \<Rightarrow> [(name, j)])"

definition omit_empty :: "string \<Rightarrow> string \<Rightarrow> (string \<times> json) list" where
  "omit_empty name s = (if s = '''' then [] else [(name, JStr s)])"

definition error_json :: "rpc_error \<Rightarrow> json" where
  "error_json e = JObj ([(''code'', JInt (re_code e)), (''message'', JStr (re_message e))] @ opt_field ''data'' (re_data e))"

definition response_json :: "json option \<Rightarrow> rpc_error + json \<Rightarrow> json" where
  "response_json rid r = JObj ([(''jsonrpc'', JStr ''2.0'')] @ opt_field ''id'' rid
     @ (case r of Inl e \<Rightarrow> [(''error'', error_json e)] | Inr v \<Rightarrow> [(''result'', v)]))"

definition notification_json :: "string \<Rightarrow> json \<Rightarrow> json" where
  "notification_json typ data = JObj [(''jsonrpc'', JStr ''2.0''), (''method'', JStr ''event''),
     (''params'', JObj [(''type'', JStr typ), (''data'', data)])]"

section \<open>The store's structs on the wire\<close>

definition opt_str :: "string \<Rightarrow> string option \<Rightarrow> (string \<times> json) list" where
  "opt_str name v = opt_field name (map_option JStr v)"

definition conversation_json :: "(int \<Rightarrow> string) \<Rightarrow> conversation \<Rightarrow> json" where
  "conversation_json json_time c = JObj ([(''conversation_id'', JStr (conv_id c)), (''source_platform'', JStr (conv_platform c)),
     (''name'', JStr (conv_name c))] @ omit_empty ''alias'' (conv_alias c) @
     [(''is_group'', JBool (conv_is_group c)), (''participants_json'', JStr (conv_participants c)),
      (''last_message_time_ms'', JInt (conv_last_ms c)), (''unread'', JBool (conv_unread c)), (''pinned'', JBool (conv_pinned c)),
      (''archived'', JBool (conv_archived c)), (''updated_at'', JStr (json_time (conv_updated c)))])"

definition message_fields :: "'a message_scheme \<Rightarrow> (string \<times> json) list" where
  "message_fields m = [(''message_id'', JStr (msg_id m)), (''conversation_id'', JStr (msg_conv m)),
     (''source_platform'', JStr (msg_platform m)), (''sender_id'', JStr (msg_sender m))] @ opt_str ''body'' (msg_body m) @
     [(''timestamp_ms'', JInt (msg_ts m)), (''status'', JInt (msg_status m)), (''is_from_me'', JBool (msg_from_me m))] @
     opt_str ''media_id'' (msg_media m) @ opt_str ''mime_type'' (msg_mime m) @
     opt_str ''reactions_json'' (msg_reactions m) @ opt_str ''reply_to_id'' (msg_reply m)"

definition message_json :: "message \<Rightarrow> json" where
  "message_json m = JObj (message_fields m)"

definition rich_message_json :: "rich_message \<Rightarrow> json" where
  "rich_message_json m = JObj (message_fields m @ omit_empty ''sender_name'' (rm_sender m) @ omit_empty ''timestamp_iso'' (rm_iso m))"

definition contact_json :: "contact \<Rightarrow> json" where
  "contact_json c = JObj ([(''participant_id'', JStr (con_id c)), (''source_platform'', JStr (con_platform c)),
     (''contact_id'', JStr (con_contact_id c)), (''name'', JStr (con_name c)), (''e164'', JStr (con_e164 c)),
     (''formatted_number'', JStr (con_formatted c)), (''avatar_color'', JStr (con_color c)), (''is_me'', JBool (con_is_me c))]
     @ omit_empty ''alias'' (con_alias c) @ omit_empty ''display_name'' (con_display c))"

definition rich_hit_json :: "rich_hit \<Rightarrow> json" where
  "rich_hit_json h = JObj ([(''message_id'', JStr (rh_id h)), (''conversation_id'', JStr (rh_conv h))]
     @ omit_empty ''conversation_name'' (rh_conv_name h) @ omit_empty ''sender_name'' (rh_sender h) @
     [(''body'', JStr (rh_body h)), (''snippet'', JStr (rh_snippet h)), (''timestamp_ms'', JInt (rh_ts h))]
     @ omit_empty ''timestamp_iso'' (rh_iso h) @ [(''is_from_me'', JBool (rh_from_me h))])"

definition approval_json :: "approval \<Rightarrow> json" where
  "approval_json a = JObj ([(''approval_id'', JStr (ap_id a)), (''conversation_id'', JStr (ap_conv a)), (''body'', JStr (ap_body a))]
     @ opt_str ''reply_to_id'' (ap_reply a) @ [(''requested_by'', JStr (ap_by a)), (''status'', JStr (ap_status a))]
     @ opt_str ''error'' (ap_error a) @ opt_str ''message_id'' (ap_message_id a) @
     [(''created_at_ms'', JInt (ap_created_at a)), (''updated_at_ms'', JInt (ap_updated_at a))])"

definition backfill_json :: "backfill_result \<Rightarrow> json" where
  "backfill_json r = JObj [(''conversation_id'', JStr (bf_conv r)), (''requests'', JInt (bf_requests r)), (''count'', JInt (bf_count r)),
     (''fetched_messages'', JInt (bf_fetched r)), (''sync_records_processed'', JInt (bf_processed r)),
     (''messages_before'', JInt (bf_before r)), (''messages_after'', JInt (bf_after r)),
     (''messages_added_for_chat'', JInt (bf_added r))]"

end
