(* ===== verification/Gm_Cookies.thy ===== *)
theory Gm_Cookies
  imports Go_Json
begin

text \<open>
  \<open>internal/gm/cookies.go\<close>: reading the Google cookies out of what a user pastes. A Go slice or index
  out of range panics; such an outcome is a value of the model.
\<close>

datatype 'a outcome = Returns 'a | Panics

definition required_cookies :: "string list" where
  "required_cookies = [''SID'', ''HSID'', ''OSID'', ''SSID'', ''APISID'', ''SAPISID'']"

definition optional_cookies :: "string list" where
  "optional_cookies = [''__Secure-1PSIDTS'']"

definition is_quote :: "char \<Rightarrow> bool" where
  "is_quote c \<longleftrightarrow> c = CHR 34 \<or> c = CHR 39"

section \<open>The fetch pattern\<close>

text \<open>The pattern matches, at the start of the input or after a comma or brace and white space, an
  optionally quoted \<open>cookie\<close> in any case (with the Kelvin sign for a k), a colon and a quoted,
  non-empty value without quotes; the leftmost match counts.\<close>

definition is_re_space :: "char \<Rightarrow> bool" where
  "is_re_space c \<longleftrightarrow> byte_of c \<in> {9, 10, 12, 13, 32}"

definition skip_quote :: "string \<Rightarrow> string" where
  "skip_quote s = (case s of [] \<Rightarrow> [] | c # s' \<Rightarrow> if is_quote c then s' else s)"

fun skip_fold :: "string \<Rightarrow> string \<Rightarrow> string option" where
  "skip_fold [] s = Some s"
| "skip_fold (p # ps) [] = None"
| "skip_fold (p # ps) (c # s) =
     (if ascii_fold [c] = [p] then skip_fold ps s
      else if p = CHR ''k'' \<and> map byte_of (take 3 (c # s)) = [226, 132, 170] then skip_fold ps (drop 2 s)
      else None)"

definition fetch_tail :: "string \<Rightarrow> string option" where
  "fetch_tail s = (case skip_fold ''cookie'' (skip_quote s) of
     None \<Rightarrow> None
   | Some r \<Rightarrow> (case dropWhile is_re_space (skip_quote r) of
       [] \<Rightarrow> None
     | c # r1 \<Rightarrow> if c \<noteq> CHR '':'' then None
         else (case dropWhile is_re_space r1 of
             [] \<Rightarrow> None
           | q # r2 \<Rightarrow> (let value = takeWhile (Not \<circ> is_quote) r2 in
               if is_quote q \<and> value \<noteq> [] \<and> dropWhile (Not \<circ> is_quote) r2 \<noteq> [] then Some value else None))))"

definition fetch_after_sep :: "string \<Rightarrow> string option" where
  "fetch_after_sep s = (case s of [] \<Rightarrow> None
     | c # s' \<Rightarrow> if c = CHR '','' \<or> c = CHR ''{'' then fetch_tail (dropWhile is_re_space s') else None)"

fun fetch_search :: "string \<Rightarrow> string option" where
  "fetch_search [] = None"
| "fetch_search (c # s) = (case fetch_after_sep (c # s) of Some v \<Rightarrow> Some v | None \<Rightarrow> fetch_search s)"

definition extract_fetch_cookie_header :: "string \<Rightarrow> string option" where
  "extract_fetch_cookie_header input = map_option trim_space
     (case fetch_tail input of Some v \<Rightarrow> Some v | None \<Rightarrow> fetch_search input)"

section \<open>Labels and flags\<close>

definition index_byte :: "char \<Rightarrow> string \<Rightarrow> nat option" where
  "index_byte c s = index_any [c] s"

definition cut_at :: "nat option \<Rightarrow> string \<Rightarrow> string" where
  "cut_at i s = (case i of None \<Rightarrow> s | Some k \<Rightarrow> take k s)"

text \<open>\<open>extractAfterCookieLabel\<close>: the index is found in the lower-cased input and used in the input.\<close>

definition extract_after_cookie_label :: "'u unicode_scheme \<Rightarrow> string \<Rightarrow> string option outcome" where
  "extract_after_cookie_label u input = (case str_index ''cookie:'' (to_lower u input) of
     None \<Rightarrow> Returns None
   | Some idx \<Rightarrow>
       if 0 < idx \<and> length input \<le> idx - 1 \<or> length input < idx + 7 then Panics
       else (let quoted = (0 < idx \<and> is_quote (input ! (idx - 1))); rest = drop (idx + 7) input in
         Returns (Some (trim_space (if quoted then cut_at (index_byte (input ! (idx - 1)) rest) rest
           else cut_at (index_any [char_of (13::nat), char_of (10::nat)] rest) rest)))))"

text \<open>The white space that ends an unquoted value is single bytes, so the range over runes is one over
  bytes.\<close>

definition extract_after_cookie_flag :: "string \<Rightarrow> string \<Rightarrow> string option" where
  "extract_after_cookie_flag flag input = (case str_index flag input of
     None \<Rightarrow> None
   | Some idx \<Rightarrow> (case trim_space (drop (idx + length flag) input) of
       [] \<Rightarrow> None
     | q # rest \<Rightarrow> Some (trim_space
         (if is_quote q then cut_at (index_byte q rest) rest
          else cut_at (index_any [CHR '' '', char_of (9::nat), char_of (10::nat), char_of (13::nat)] (q # rest)) (q # rest)))))"

definition extract_cookie_header :: "'u unicode_scheme \<Rightarrow> string \<Rightarrow> string outcome" where
  "extract_cookie_header u input = (case extract_fetch_cookie_header input of
     Some header \<Rightarrow> Returns header
   | None \<Rightarrow> (case extract_after_cookie_label u input of
       Panics \<Rightarrow> Panics
     | Returns (Some header) \<Rightarrow> Returns header
     | Returns None \<Rightarrow> (case extract_after_cookie_flag ''--cookie'' input of
         Some header \<Rightarrow> Returns header
       | None \<Rightarrow> (case extract_after_cookie_flag ''-b'' input of
           Some header \<Rightarrow> Returns header
         | None \<Rightarrow> Returns input))))"

section \<open>The header's cookies\<close>

definition add_cookie :: "string \<Rightarrow> (string \<Rightarrow> string option) \<Rightarrow> (string \<Rightarrow> string option)" where
  "add_cookie part cookies = (case cut_char (CHR ''='') (trim_space part) of
     None \<Rightarrow> cookies
   | Some (n, v) \<Rightarrow> (let name = trim_space n; value = trim_space v in
       if name \<noteq> '''' \<and> value \<noteq> '''' then cookies(name \<mapsto> value) else cookies))"

definition parse_cookie_header :: "'u unicode_scheme \<Rightarrow> string \<Rightarrow> (string \<Rightarrow> string option) outcome" where
  "parse_cookie_header u header0 = (let header = trim_space header0 in
     if has_prefix ''cookie:'' (to_lower u header) \<and> length header < 7 then Panics
     else (let h = (if has_prefix ''cookie:'' (to_lower u header) then trim_space (drop 7 header) else header) in
       Returns (fold add_cookie (split_char (CHR '';'') h) Map.empty)))"

definition cookie_value :: "(string \<Rightarrow> string option) \<Rightarrow> string \<Rightarrow> string" where
  "cookie_value cookies name = (case cookies name of None \<Rightarrow> '''' | Some v \<Rightarrow> v)"

definition filter_google_cookies :: "(string \<Rightarrow> string option) \<Rightarrow> (string \<Rightarrow> string option)" where
  "filter_google_cookies cookies = fold (\<lambda>name acc. let value = trim_space (cookie_value cookies name) in
     if value \<noteq> '''' then acc(name \<mapsto> value) else acc) (required_cookies @ optional_cookies) Map.empty"

definition validate_google_cookies :: "(string \<Rightarrow> string option) \<Rightarrow> string option" where
  "validate_google_cookies cookies = (let missing = filter (\<lambda>name. cookie_value cookies name = '''') required_cookies in
     if missing = [] then None
     else if length missing = length required_cookies
       then Some ''cookie input did not contain the required Google cookies; copy the /web/config request as cURL (bash), Copy as fetch, or copy the Cookie request header''
     else Some (''cookie input missing required Google cookies: '' @ join_with '', '' missing))"

text \<open>Decoding into \<open>map[string]string\<close>; \<open>detail\<close> is the decoder's error text.\<close>

definition decode_string_map :: "(string \<times> json) list \<Rightarrow> (string \<Rightarrow> string option) option" where
  "decode_string_map fs = (if list_all (\<lambda>kv. kind_ok KString (snd kv)) fs
     then Some (fold (\<lambda>(k, v) acc. acc(k \<mapsto> (case v of JStr s \<Rightarrow> s | _ \<Rightarrow> ''''))) fs Map.empty) else None)"

definition parse_google_cookie_input :: "'u unicode_scheme \<Rightarrow> (string \<Rightarrow> string) \<Rightarrow> string
    \<Rightarrow> (string + (string \<Rightarrow> string option)) outcome" where
  "parse_google_cookie_input u detail input0 = (let input = trim_space input0 in
     if input = '''' then Returns (Inl ''cookie input is empty'')
     else (let checked = (\<lambda>cookies. let c = filter_google_cookies cookies in
             (case validate_google_cookies c of Some t \<Rightarrow> Inl t | None \<Rightarrow> Inr c)) in
       if has_prefix ''{'' input then
         Returns (case (case parse_json input of Some (JObj fs) \<Rightarrow> decode_string_map fs | _ \<Rightarrow> None) of
           None \<Rightarrow> Inl (''parse cookie JSON: '' @ detail input)
         | Some cookies \<Rightarrow> checked cookies)
       else (case extract_cookie_header u input of
           Panics \<Rightarrow> Panics
         | Returns header \<Rightarrow> (case parse_cookie_header u header of
             Panics \<Rightarrow> Panics
           | Returns cookies \<Rightarrow> Returns (checked cookies)))))"

section \<open>Facts\<close>

lemma filter_fold:
  "fold (\<lambda>name acc. let value = f name in if value \<noteq> '''' then acc(name \<mapsto> value) else acc) names m n
    = (if n \<in> set names \<and> f n \<noteq> '''' then Some (f n) else m n)"
  by (induction names arbitrary: m) (auto simp: Let_def)

lemma filter_google_cookies_eq:
  "filter_google_cookies cookies n = (if n \<in> set (required_cookies @ optional_cookies) \<and> trim_space (cookie_value cookies n) \<noteq> ''''
     then Some (trim_space (cookie_value cookies n)) else None)"
  unfolding filter_google_cookies_def by (subst filter_fold) simp

lemma validate_None: "validate_google_cookies c = None \<longleftrightarrow> (\<forall>n \<in> set required_cookies. cookie_value c n \<noteq> '''')"
  by (auto simp: validate_google_cookies_def Let_def filter_empty_conv)

text \<open>Cookie input that is accepted yields all six required Google cookies, none of them empty, and
  no other names than those and the optional one.\<close>

theorem cookies_accepted_complete:
  assumes "parse_google_cookie_input u detail input = Returns (Inr cookies)"
  shows "(\<forall>n \<in> {''SID'', ''HSID'', ''OSID'', ''SSID'', ''APISID'', ''SAPISID''}. \<exists>v. cookies n = Some v \<and> v \<noteq> '''')
     \<and> dom cookies \<subseteq> {''SID'', ''HSID'', ''OSID'', ''SSID'', ''APISID'', ''SAPISID'', ''__Secure-1PSIDTS''}"
proof -
  obtain raw where c: "cookies = filter_google_cookies raw" "validate_google_cookies cookies = None"
    using assms by (auto simp: parse_google_cookie_input_def Let_def split: if_splits outcome.splits option.splits json.splits)
  have "\<exists>v. cookies n = Some v \<and> v \<noteq> ''''" if "n \<in> set required_cookies" for n
    using c(2) that by (auto simp: validate_None cookie_value_def split: option.splits)
  moreover have "dom cookies \<subseteq> set (required_cookies @ optional_cookies)"
    by (auto simp: c(1) filter_google_cookies_eq split: if_splits)
  ultimately show ?thesis by (auto simp: required_cookies_def optional_cookies_def)
qed

lemma set_trim: "set (trim_space s) \<subseteq> set s"
proof -
  have "set (dropWhile P (rev (dropWhile Q xs))) \<subseteq> set xs" for P Q and xs :: "string list"
    by (auto dest!: set_dropWhileD simp del: set_rev) (auto dest!: set_dropWhileD)
  then have "\<Union> (set ` set (dropWhile P (rev (dropWhile Q (chunks s))))) \<subseteq> \<Union> (set ` set (chunks s))" for P Q
    by blast
  also have "\<Union> (set ` set (chunks s)) = set s" by (metis concat_chunks set_concat)
  finally show ?thesis by (simp add: trim_space_def trim_func_def)
qed

lemma set_cut_at: "set (cut_at i s) \<subseteq> set s"
  by (auto simp: cut_at_def split: option.split dest: in_set_takeD)

lemma set_trim_cut: "set (trim_space (cut_at i (drop k s))) \<subseteq> set s"
  using set_trim [of "cut_at i (drop k s)"] set_cut_at [of i "drop k s"] by (auto dest: in_set_dropD)

lemma to_lower_ascii: "is_ascii s \<Longrightarrow> to_lower u s = map (\<lambda>c. char_of (lower_rune u (byte_of c))) s"
proof (induction s)
  case (Cons c s)
  have "lower_rune u (byte_of c) < 128" using Cons.prems by (auto simp: lower_rune_def is_ascii_def)
  with Cons show ?case
    by (simp add: to_lower_def runes_def chunks_ascii is_ascii_def string_of_runes_def chunk_rune_ascii encode_rune_def
        valid_rune_def)
qed (simp add: to_lower_def runes_def string_of_runes_def)

lemma label_ascii:
  assumes "is_ascii input"
  shows "\<exists>r. extract_after_cookie_label u input = Returns r \<and> (\<forall>h. r = Some h \<longrightarrow> set h \<subseteq> set input)"
proof (cases "str_index ''cookie:'' (to_lower u input)")
  case (Some idx)
  then have "idx + 7 \<le> length (to_lower u input)" using str_index_Some [OF Some] by simp
  then have le: "idx + 7 \<le> length input" by (simp add: to_lower_ascii [OF assms])
  then have "\<not> length input \<le> idx - Suc 0" by simp
  then have "extract_after_cookie_label u input = Returns (Some (trim_space (cut_at
      (if 0 < idx \<and> is_quote (input ! (idx - 1)) then index_byte (input ! (idx - 1)) (drop (idx + 7) input)
       else index_any [char_of (13::nat), char_of (10::nat)] (drop (idx + 7) input)) (drop (idx + 7) input))))"
    using le Some by (simp add: extract_after_cookie_label_def Let_def)
  with set_trim_cut show ?thesis by blast
qed (simp add: extract_after_cookie_label_def)

lemma flag_set:
  assumes "extract_after_cookie_flag flag input = Some h"
  shows "set h \<subseteq> set input"
proof -
  obtain idx q rest where t: "trim_space (drop (idx + length flag) input) = q # rest"
    and h: "Some h = Some (trim_space (if is_quote q then cut_at (index_byte q rest) rest
          else cut_at (index_any [CHR '' '', char_of (9::nat), char_of (10::nat), char_of (13::nat)] (q # rest)) (q # rest)))"
    using assms unfolding extract_after_cookie_flag_def by (auto simp only: split: option.splits list.splits)
  have "set (q # rest) \<subseteq> set input"
    using set_trim [of "drop (idx + length flag) input"] unfolding t by (auto dest: in_set_dropD)
  moreover have "set h \<subseteq> set (q # rest)"
    using h set_trim_cut [of _ 0 rest] set_trim_cut [of _ 0 "q # rest"] by (cases "is_quote q") (auto simp del: set_simps, auto)
  ultimately show ?thesis by blast
qed

lemma skip_fold_set: "skip_fold p s = Some r \<Longrightarrow> set r \<subseteq> set s"
  by (induction p s rule: skip_fold.induct) (auto split: if_splits dest!: in_set_dropD)

lemma fetch_tail_set: "fetch_tail s = Some v \<Longrightarrow> set v \<subseteq> set s"
proof -
  assume "fetch_tail s = Some v"
  then obtain r c r1 q r2 where steps: "skip_fold ''cookie'' (skip_quote s) = Some r"
    "dropWhile is_re_space (skip_quote r) = c # r1" "dropWhile is_re_space r1 = q # r2" "v = takeWhile (Not \<circ> is_quote) r2"
    by (auto simp: fetch_tail_def Let_def split: option.splits list.splits if_splits)
  have sq: "set (skip_quote x) \<subseteq> set x" for x by (auto simp: skip_quote_def split: list.splits)
  have dw: "set (dropWhile P x) \<subseteq> set x" for P and x :: string by (auto dest: set_dropWhileD)
  have "set v \<subseteq> set r2" unfolding steps(4) by (auto dest: set_takeWhileD)
  also have "\<dots> \<subseteq> set r1" using dw [of is_re_space r1] unfolding steps(3) by auto
  also have "\<dots> \<subseteq> set r" using dw [of is_re_space "skip_quote r"] sq [of r] unfolding steps(2) by auto
  also have "\<dots> \<subseteq> set s" using skip_fold_set [OF steps(1)] sq [of s] by blast
  finally show ?thesis .
qed

lemma fetch_search_set: "fetch_search s = Some v \<Longrightarrow> set v \<subseteq> set s"
proof (induction s)
  case (Cons c s)
  show ?case
  proof (cases "fetch_after_sep (c # s)")
    case None
    with Cons show ?thesis by auto
  next
    case (Some w)
    then have "fetch_tail (dropWhile is_re_space s) = Some w"
      by (auto simp: fetch_after_sep_def split: if_splits)
    from fetch_tail_set [OF this] have "set w \<subseteq> set s" by (auto dest: set_dropWhileD)
    with Cons.prems Some show ?thesis by auto
  qed
qed simp

lemma fetch_header_set: "extract_fetch_cookie_header input = Some h \<Longrightarrow> set h \<subseteq> set input"
  using fetch_tail_set [of input] fetch_search_set [of input] set_trim
  by (fastforce simp: extract_fetch_cookie_header_def split: option.splits)

lemma header_ascii:
  assumes "is_ascii input"
  shows "\<exists>h. extract_cookie_header u input = Returns h \<and> is_ascii h"
proof -
  have sub: "is_ascii h" if "set h \<subseteq> set input" for h
    using assms that by (auto simp: is_ascii_def list_all_iff)
  obtain r where r: "extract_after_cookie_label u input = Returns r" "\<And>h. r = Some h \<Longrightarrow> set h \<subseteq> set input"
    using label_ascii [OF assms] by blast
  show ?thesis
  proof (cases "extract_fetch_cookie_header input")
    case (Some h)
    with sub [OF fetch_header_set [OF Some]] show ?thesis by (simp add: extract_cookie_header_def)
  next
    case None
    with r sub flag_set [of "''--cookie''" input] flag_set [of "''-b''" input] assms show ?thesis
      by (auto simp: extract_cookie_header_def split: option.split)
  qed
qed

text \<open>Pasted ASCII text never makes the parser panic: it is accepted or refused with a message.\<close>

theorem cookies_ascii_no_panic:
  assumes "is_ascii input"
  shows "parse_google_cookie_input u detail input \<noteq> Panics"
proof -
  have trim: "is_ascii (trim_space s)" if "is_ascii s" for s
    using that set_trim [of s] by (auto simp: is_ascii_def list_all_iff)
  obtain h where h: "extract_cookie_header u (trim_space input) = Returns h" "is_ascii h"
    using header_ascii [OF trim [OF assms]] by blast
  have "length ''cookie:'' \<le> length (trim_space h)" if "has_prefix ''cookie:'' (to_lower u (trim_space h))"
    using that unfolding has_prefix_iff to_lower_ascii [OF trim [OF h(2)]] by (metis le_add1 length_append length_map)
  then have "parse_cookie_header u h \<noteq> Panics" by (auto simp: parse_cookie_header_def Let_def)
  with h(1) show ?thesis by (auto simp: parse_google_cookie_input_def Let_def split: outcome.split)
qed

lemma replicate_8: "replicate 8 x = [x, x, x, x, x, x, x, x]"
  by (simp add: numeral_eq_Suc)

text \<open>C27: some valid text makes the parser panic: the index of the label is found in the lower-cased input,
  which is longer than the input when a capital such as U+023A has a longer lower-case form.\<close>

theorem cookies_panic:
  assumes "uc_lower u 570 = 11365"
  shows "parse_google_cookie_input u detail (string_of_runes (replicate 8 570 @ [99, 111, 111, 107, 105, 101, 58])) = Panics"
proof -
  let ?rs = "replicate 8 570 @ [99, 111, 111, 107, 105, 101, 58]"
  let ?input = "string_of_runes ?rs"
  have valid: "list_all valid_rune ?rs" by (auto simp: list_all_iff valid_rune_def)
  have enc: "encode_rune 570 = map char_of [200, 186::nat]" "encode_rune 11365 = map char_of [226, 177, 165::nat]"
    by (simp_all add: encode_rune_def valid_rune_def)
  have tail: "string_of_runes [99, 111, 111, 107, 105, 101, 58] = ''cookie:''"
    by (simp add: string_of_runes_def encode_rune_def valid_rune_def char_of_eq_iff)
  have input: "?input = concat (replicate 8 (map char_of [200, 186::nat])) @ ''cookie:''"
    using tail by (simp add: string_of_runes_def enc(1))
  have low: "to_lower u ?input = concat (replicate 8 (map char_of [226, 177, 165::nat])) @ ''cookie:''"
  proof -
    have "to_lower u ?input = string_of_runes (map (lower_rune u) ?rs)"
      by (simp only: to_lower_def runes_string_of_runes [OF valid])
    also have "map (lower_rune u) ?rs = replicate 8 11365 @ [99, 111, 111, 107, 105, 101, 58]"
      by (simp add: lower_rune_def assms)
    also have "string_of_runes (replicate 8 11365 @ [99, 111, 111, 107, 105, 101, 58])
        = concat (replicate 8 (map char_of [226, 177, 165::nat])) @ ''cookie:''"
      using tail by (simp add: string_of_runes_def enc(2))
    finally show ?thesis .
  qed
  have trim: "trim_space ?input = ?input"
  proof -
    have "chunks ?input = map encode_rune ?rs" by (rule chunks_string_of_runes [OF valid])
    moreover have "(\<lambda>c. is_space_rune (chunk_rune c)) (encode_rune 570) = False"
      by (simp add: is_space_rune_def chunk_rune_encode valid_rune_def)
    moreover have "(\<lambda>c. is_space_rune (chunk_rune c)) (encode_rune 58) = False"
      by (simp add: is_space_rune_def chunk_rune_encode valid_rune_def)
    ultimately show ?thesis
      by (simp add: trim_space_def trim_func_def string_of_runes_def replicate_8)
  qed
  have "fetch_tail ?input = None" "fetch_search ?input = None"
    unfolding input by (simp_all add: replicate_8 fetch_tail_def skip_quote_def is_quote_def fetch_after_sep_def ascii_fold_def char_of_eq_iff)
  then have fetch: "extract_fetch_cookie_header ?input = None" by (simp add: extract_fetch_cookie_header_def)
  have idx: "str_index ''cookie:'' (to_lower u ?input) = Some 24"
    unfolding low by (simp add: replicate_8 has_prefix_def char_of_eq_iff)
  have "length ?input = 23" unfolding input by (simp add: replicate_8)
  with idx have "extract_after_cookie_label u ?input = Panics" by (simp add: extract_after_cookie_label_def)
  with fetch have "extract_cookie_header u ?input = Panics" by (simp add: extract_cookie_header_def)
  moreover have "?input \<noteq> ''''" "\<not> has_prefix ''{'' ?input"
    unfolding input by (simp_all add: replicate_8 has_prefix_def char_of_eq_iff)
  ultimately show ?thesis by (simp add: parse_google_cookie_input_def trim Let_def)
qed

section \<open>Concrete inputs\<close>

text \<open>Unicode tables that know one letter, U+023A, whose lower-case form U+2C65 is a byte longer.\<close>

definition one_letter_tables :: unicode where
  "one_letter_tables = \<lparr>uc_letter = (\<lambda>r. r = 570 \<or> r = 11365), uc_digit = (\<lambda>_. False),
     uc_lower = (\<lambda>r. if r = 570 then 11365 else r), uc_upper = (\<lambda>r. if r = 11365 then 570 else r), uc_print = (\<lambda>_. True)\<rparr>"

definition pasted_header :: string where
  "pasted_header = ''SID=a;HSID=b;OSID=c;SSID=d;APISID=e;SAPISID=f;X=y''"

definition pasted_json :: string where
  "pasted_json = ''{'' @ join_with '','' (map (\<lambda>n. CHR 34 # n @ [CHR 34, CHR '':'', CHR 34, CHR ''a'', CHR 34]) required_cookies) @ ''}''"

theorem cookies_accepted_complete_witness:
  "case parse_google_cookie_input one_letter_tables id pasted_json of Returns (Inr cookies) \<Rightarrow>
     dom cookies \<subseteq> {''SID'', ''HSID'', ''OSID'', ''SSID'', ''APISID'', ''SAPISID'', ''__Secure-1PSIDTS''} | _ \<Rightarrow> False"
proof -
  have "case parse_google_cookie_input one_letter_tables id pasted_json of Returns (Inr cookies) \<Rightarrow> True | _ \<Rightarrow> False"
    by code_simp
  then obtain cookies where "parse_google_cookie_input one_letter_tables id pasted_json = Returns (Inr cookies)"
    by (auto split: outcome.splits sum.splits)
  from cookies_accepted_complete [OF this] this show ?thesis by simp
qed

theorem cookies_ascii_no_panic_witness:
  "parse_google_cookie_input one_letter_tables id pasted_header \<noteq> Panics"
  by (rule cookies_ascii_no_panic) code_simp

theorem cookies_panic_witness:
  "parse_google_cookie_input one_letter_tables id (string_of_runes (replicate 8 570 @ [99, 111, 111, 107, 105, 101, 58])) = Panics"
  by (rule cookies_panic) (simp add: one_letter_tables_def)

end
