(* ===== verification/Gm_Session.thy ===== *)
theory Gm_Session
  imports Store_Schema
begin

text \<open>
  The pairing half of \<open>internal/gm/gm.go\<close>: the two pairing flows and the session file they write. The
  credentials are libgm's, here the text the encoder makes of them; files are a map from path to
  content.
\<close>

type_synonym files = "string \<Rightarrow> string option"

text \<open>How the wait of \<open>Pair\<close> ends.\<close>

datatype pair_end = PairCancelled string | PairFatal string | PairTimedOut | PairDone string

record pair_env =
  pv_dirs :: "err option"
  pv_start :: "string + string"
  pv_end :: pair_end
  pv_config :: "string option"
  pv_gaia_start :: "string + string"
  pv_gaia_finish :: "string + string"
  pv_auth :: "string + string"
  pv_create :: "string option"
  pv_close :: "string option"
  pv_rename :: "string option"
  pv_removes :: bool

record pair_result =
  pr_phone :: string
  pr_path :: string

section \<open>The session file\<close>

definition cleanup :: "pair_env \<Rightarrow> string \<Rightarrow> files \<Rightarrow> files" where
  "cleanup v tmp fs = (if pv_removes v then fs(tmp := None) else fs)"

text \<open>\<open>saveAuth\<close>, with the states of the file system it passes through; \<open>part\<close> is what a failing
  encoder has written.\<close>

definition save_auth_trace :: "pair_env \<Rightarrow> string \<Rightarrow> string \<Rightarrow> files \<Rightarrow> files list \<times> err option" where
  "save_auth_trace v part path fs = (let tmp = path @ ''.tmp'' in
     case pv_create v of
       Some t \<Rightarrow> ([fs], Some (Wrap (''create '' @ tmp) (Driver t)))
     | None \<Rightarrow> (let fs1 = fs(tmp \<mapsto> '''') in
         case pv_auth v of
           Inl t \<Rightarrow> (let fs2 = fs(tmp \<mapsto> part) in ([fs, fs1, fs2, cleanup v tmp fs2], Some (Wrap ''encode session'' (Driver t))))
         | Inr text \<Rightarrow> (let fs2 = fs(tmp \<mapsto> text) in
             case pv_close v of
               Some t \<Rightarrow> ([fs, fs1, fs2, cleanup v tmp fs2], Some (Wrap (''close '' @ tmp) (Driver t)))
             | None \<Rightarrow> (case pv_rename v of
                 Some t \<Rightarrow> ([fs, fs1, fs2], Some (Wrap (''rename '' @ tmp @ '' -> '' @ path) (Driver t)))
               | None \<Rightarrow> ([fs, fs1, fs2, (fs(tmp := None))(path \<mapsto> text)], None)))))"

definition save_auth :: "pair_env \<Rightarrow> string \<Rightarrow> files \<Rightarrow> files \<times> err option" where
  "save_auth v path fs = (let r = save_auth_trace v '''' path fs in (last (fst r), snd r))"

text \<open>\<open>loadAuth\<close> and \<open>Open\<close>: \<open>decode\<close> is the decoder, \<open>paired\<close> whether the credentials have a device.\<close>

definition load_auth :: "string option \<Rightarrow> (string \<Rightarrow> string + 'a) \<Rightarrow> string \<Rightarrow> files \<Rightarrow> err + 'a" where
  "load_auth open_err decode path fs = (case open_err of
     Some t \<Rightarrow> Inl (Wrap (''open session '' @ path) (Driver t))
   | None \<Rightarrow> (case fs path of
       None \<Rightarrow> Inl (Msg (''no session at '' @ path @ ''; run `gmcli auth` first''))
     | Some text \<Rightarrow> (case decode text of
         Inl t \<Rightarrow> Inl (Wrap (''decode session '' @ path) (Driver t))
       | Inr auth \<Rightarrow> Inr auth)))"

definition open_session :: "string option \<Rightarrow> (string \<Rightarrow> string + 'a) \<Rightarrow> ('a \<Rightarrow> bool) \<Rightarrow> string \<Rightarrow> files \<Rightarrow> err + 'a" where
  "open_session open_err decode paired path fs = (case load_auth open_err decode path fs of
     Inl err \<Rightarrow> Inl err
   | Inr auth \<Rightarrow> if paired auth then Inr auth
       else Inl (Msg (''session '' @ path @ '' has no paired device; run `gmcli auth` first'')))"

section \<open>Pairing\<close>

text \<open>Both flows return the files, what they asked to be shown, and the outcome.\<close>

definition persist :: "pair_env \<Rightarrow> string \<Rightarrow> string \<Rightarrow> string list \<Rightarrow> files \<Rightarrow> files \<times> string list \<times> (err + pair_result)" where
  "persist v session phone shown fs = (case save_auth v session fs of
     (fs', Some err) \<Rightarrow> (fs', shown, Inl (Wrap ''persist session'' err))
   | (fs', None) \<Rightarrow> (fs', shown, Inr \<lparr>pr_phone = phone, pr_path = session\<rparr>))"

definition pair :: "pair_env \<Rightarrow> string \<Rightarrow> files \<Rightarrow> files \<times> string list \<times> (err + pair_result)" where
  "pair v session fs = (case pv_dirs v of
     Some err \<Rightarrow> (fs, [], Inl err)
   | None \<Rightarrow> (case pv_start v of
       Inl t \<Rightarrow> (fs, [], Inl (Wrap ''start login'' (Driver t)))
     | Inr qr \<Rightarrow> (case pv_end v of
         PairCancelled t \<Rightarrow> (fs, [qr], Inl (Driver t))
       | PairFatal t \<Rightarrow> (fs, [qr], Inl (Wrap ''pairing transport failed'' (Driver t)))
       | PairTimedOut \<Rightarrow> (fs, [qr], Inl (Msg (''pairing timed out '' @ map char_of [226, 128, 148::nat]
            @ '' phone never scanned the QR code'')))
       | PairDone phone \<Rightarrow> persist v session phone [qr] fs)))"

definition pair_google :: "pair_env \<Rightarrow> string \<Rightarrow> (string \<times> string) list \<Rightarrow> files \<Rightarrow> files \<times> string list \<times> (err + pair_result)" where
  "pair_google v session cookies fs = (case pv_dirs v of
     Some err \<Rightarrow> (fs, [], Inl err)
   | None \<Rightarrow>
       if cookies = [] then (fs, [], Inl (Msg ''google account pairing requires cookies''))
       else (case pv_config v of
           Some t \<Rightarrow> (fs, [], Inl (Wrap ''fetch Google Messages config with supplied cookies'' (Driver t)))
         | None \<Rightarrow> (case pv_gaia_start v of
             Inl t \<Rightarrow> (fs, [], Inl (Wrap ''start Google account pairing'' (Driver t)))
           | Inr emoji \<Rightarrow> (case pv_gaia_finish v of
               Inl t \<Rightarrow> (fs, [emoji], Inl (Wrap ''finish Google account pairing'' (Driver t)))
             | Inr phone \<Rightarrow> persist v session phone [emoji] fs))))"

section \<open>Facts\<close>

lemma tmp_neq [simp]: "path @ ''.tmp'' \<noteq> path" "path \<noteq> path @ ''.tmp''"
  by auto

lemma save_auth_keeps:
  assumes "save_auth_trace v part path fs = (states, r)"
  shows "(\<forall>fs' \<in> set states. fs' path = fs path \<or> r = None \<and> fs' = last states)
    \<and> (r \<noteq> None \<longrightarrow> last states path = fs path)
    \<and> (r = None \<longrightarrow> pv_auth v = Inr (the (last states path)) \<and> last states path \<noteq> None \<and> last states (path @ ''.tmp'') = None)
    \<and> (\<forall>fs' \<in> set states. \<forall>other. other \<notin> {path, path @ ''.tmp''} \<longrightarrow> fs' other = fs other)"
  using assms
  by (auto simp: save_auth_trace_def cleanup_def Let_def split: option.splits sum.splits if_splits)

text \<open>C25: replacing the session file is all or nothing: at every moment of \<open>saveAuth\<close> the session path
  holds either the old content or the whole new one, a failure of any step leaves the old content, no
  other file but the temporary one is touched, and success leaves no temporary file.\<close>

theorem save_auth_atomic:
  "let (states, r) = save_auth_trace v part path fs in
     (\<forall>fs' \<in> set states. fs' path = fs path \<or> pv_auth v = Inr (the (fs' path)) \<and> fs' path \<noteq> None)
     \<and> (if r = None then pv_auth v = Inr (the (last states path)) \<and> last states (path @ ''.tmp'') = None
        else last states path = fs path)
     \<and> (\<forall>fs' \<in> set states. \<forall>other. other = path \<or> other = path @ ''.tmp'' \<or> fs' other = fs other)"
proof -
  obtain states r where eq: "save_auth_trace v part path fs = (states, r)" by fastforce
  from save_auth_keeps [OF eq] show ?thesis unfolding eq by auto
qed

lemma save_auth_parts: "save_auth v path fs = (fs', r) \<Longrightarrow> \<exists>states. save_auth_trace v '''' path fs = (states, r) \<and> fs' = last states"
  by (cases "save_auth_trace v '''' path fs") (auto simp: save_auth_def)

lemma persist_session:
  assumes "persist v session phone shown fs = (fs', shown', r)"
  shows "shown' = shown \<and> (case r of Inl _ \<Rightarrow> fs' session = fs session
    | Inr res \<Rightarrow> pr_phone res = phone \<and> pr_path res = session \<and> fs' session \<noteq> None \<and> pv_auth v = Inr (the (fs' session)))"
proof -
  obtain fs1 r1 where s: "save_auth v session fs = (fs1, r1)" by fastforce
  obtain states where st: "save_auth_trace v '''' session fs = (states, r1)" "fs1 = last states"
    using save_auth_parts [OF s] by blast
  show ?thesis using save_auth_keeps [OF st(1)] st(2) s assms
    by (auto simp: persist_def split: option.splits)
qed

text \<open>How a flow can end: early, without touching a file, or with the attempt to persist.\<close>

definition flow_ends :: "pair_env \<Rightarrow> string \<Rightarrow> files \<Rightarrow> files \<Rightarrow> string list \<Rightarrow> err + pair_result \<Rightarrow> bool" where
  "flow_ends v session fs fs' shown r \<longleftrightarrow> fs' = fs \<and> length shown \<le> 1 \<and> (\<exists>err. r = Inl err)
     \<or> (\<exists>phone s. persist v session phone [s] fs = (fs', shown, r))"

lemma flow_early [intro]: "length shown \<le> 1 \<Longrightarrow> flow_ends v session fs fs shown (Inl err)"
  by (simp add: flow_ends_def)

lemma flow_persist [intro]: "persist v session phone [s] fs = (fs', shown, r) \<Longrightarrow> flow_ends v session fs fs' shown r"
  unfolding flow_ends_def by blast

lemma pair_ends: "pair v session fs = (fs', shown, r) \<Longrightarrow> flow_ends v session fs fs' shown r"
  unfolding pair_def
  by (cases "pv_dirs v"; cases "pv_start v"; cases "pv_end v") (auto)

lemma pair_google_ends: "pair_google v session cookies fs = (fs', shown, r) \<Longrightarrow> flow_ends v session fs fs' shown r"
  unfolding pair_google_def
  by (cases "pv_dirs v"; cases "cookies = []"; cases "pv_config v"; cases "pv_gaia_start v"; cases "pv_gaia_finish v")
     auto

text \<open>C26: a pairing that fails, whatever the reason, leaves the stored session as it was, and one that
  succeeds has replaced it by the credentials just paired, which then open unless they lack a device.\<close>

theorem pairing_session:
  assumes "flow = pair v session fs \<or> flow = pair_google v session cookies fs" and "flow = (fs', shown, r)"
  shows "length shown \<le> 1 \<and> (case r of
      Inl err \<Rightarrow> fs' session = fs session
    | Inr res \<Rightarrow> length shown = 1 \<and> (\<exists>text. pv_auth v = Inr text \<and> fs' session = Some text
        \<and> (\<forall>decode auth paired. decode text = Inr auth \<longrightarrow>
             open_session None decode paired session fs' = (if paired auth then Inr auth
               else Inl (Msg (''session '' @ session @ '' has no paired device; run `gmcli auth` first''))))))"
proof -
  from assms have "flow_ends v session fs fs' shown r"
    using pair_ends [of v session fs] pair_google_ends [of v session cookies fs] by auto
  then consider err where "fs' = fs" "length shown \<le> 1" "r = Inl err"
    | phone s where "persist v session phone [s] fs = (fs', shown, r)"
    unfolding flow_ends_def by blast
  then show ?thesis
  proof cases
    case 2
    note p = persist_session [OF 2]
    show ?thesis
    proof (cases r)
      case (Inr res)
      with p obtain doc where "pv_auth v = Inr doc" "fs' session = Some doc" by auto
      with p Inr show ?thesis by (simp add: open_session_def load_auth_def)
    qed (use p in simp)
  qed simp
qed

text \<open>A pairing on which everything works.\<close>

definition good_pairing :: pair_env where
  "good_pairing = \<lparr>pv_dirs = None, pv_start = Inr ''https://qr'', pv_end = PairDone ''phone1'', pv_config = None,
     pv_gaia_start = Inr ''emoji'', pv_gaia_finish = Inr ''phone1'', pv_auth = Inr ''{}'', pv_create = None, pv_close = None,
     pv_rename = None, pv_removes = True\<rparr>"

theorem save_auth_atomic_witness:
  "case save_auth good_pairing ''s'' [''s'' \<mapsto> ''old''] of (fs, r) \<Rightarrow> r = None \<and> fs ''s'' = Some ''{}'' \<and> fs ''s.tmp'' = None"
proof -
  obtain states r where eq: "save_auth_trace good_pairing '''' ''s'' [''s'' \<mapsto> ''old''] = (states, r)" by fastforce
  then have r: "r = None" by (simp add: save_auth_trace_def good_pairing_def Let_def)
  have sv: "save_auth good_pairing ''s'' [''s'' \<mapsto> ''old''] = (last states, r)" by (simp add: save_auth_def eq Let_def)
  have auth: "pv_auth good_pairing = Inr ''{}''" by (simp add: good_pairing_def)
  have "fst (save_auth good_pairing ''s'' [''s'' \<mapsto> ''old'']) ''s'' \<noteq> None"
    by (simp add: save_auth_def save_auth_trace_def good_pairing_def Let_def)
  moreover have "pv_auth good_pairing = Inr (the (last states ''s'')) \<and> last states ''s.tmp'' = None"
    using save_auth_atomic [of good_pairing "''''" "''s''" "[''s'' \<mapsto> ''old'']"] r unfolding eq by simp
  ultimately show ?thesis using r auth unfolding sv by auto
qed

theorem pairing_session_witness:
  "fst (pair good_pairing ''s.json'' Map.empty) ''s.json'' = Some ''{}''"
proof -
  obtain fs' shown r where eq: "pair good_pairing ''s.json'' Map.empty = (fs', shown, r)" by (rule prod_cases3)
  then have "r = Inr \<lparr>pr_phone = ''phone1'', pr_path = ''s.json''\<rparr>"
    by (auto simp: pair_def good_pairing_def persist_def save_auth_def save_auth_trace_def Let_def)
  with pairing_session [of _ good_pairing "''s.json''" Map.empty "[]", OF disjI1 [OF refl] eq] eq show ?thesis
    by (auto simp: good_pairing_def)
qed

end
