(* ===== verification/Rpc_Server.thy ===== *)
theory Rpc_Server
  imports Rpc_Protocol Gm_Cookies Gm_Session
begin

text \<open>
  \<open>internal/rpc/server.go\<close>: the daemon's connections, the broadcast of events to subscribers, the idle
  timer and the flags the handlers share. A connection's output is the list of messages written to it.
\<close>

section \<open>Environment and state\<close>

text \<open>What a request meets beyond the store and the phone: fresh ids, error texts of the decoder, the
  encoding of times, the MIME tables, the file system and the pairing flows' partners.\<close>

record rpc_env = phone_env +
  rv_uuid :: string
  rv_decode_text :: "json \<Rightarrow> string"
  rv_parse_text :: "string \<Rightarrow> string"
  rv_json_time :: "int \<Rightarrow> string"
  rv_extensions :: "string \<Rightarrow> string list"
  rv_write_file :: "string \<Rightarrow> (string \<times> string option) option"
  rv_pair :: pair_env

type_synonym 'z rpc_calls = "nat list \<Rightarrow> 'z rpc_env_scheme"

text \<open>\<open>Deps\<close>; a client and a pump may be absent, an empty session path disables pairing.\<close>

record deps =
  dp_client :: bool
  dp_pump :: bool
  dp_version :: string
  dp_mode :: string
  dp_live_timeout :: int
  dp_session :: string
  dp_media_dir :: string
  dp_idle_exit :: int

datatype task = TaskRefresh | TaskPair | TaskPairGoogle "(string \<times> string) list"

record conn =
  cn_id :: nat
  cn_subscribed :: bool
  cn_out :: "json list"

record server = host +
  sv_conns :: "conn list"
  sv_closed :: "conn list"
  sv_timer :: bool
  sv_idle_fired :: bool
  sv_last_refresh :: int
  sv_auth_expired :: bool
  sv_shutdown :: bool
  sv_pairing :: bool
  sv_tasks :: "task list"
  sv_files :: files

definition default_live_timeout :: int where
  "default_live_timeout = 60000"

text \<open>\<open>NewServer\<close>: the defaults, and an armed timer when idle exit is on.\<close>

definition new_deps :: "deps \<Rightarrow> deps" where
  "new_deps d = d\<lparr>dp_mode := (if dp_mode d = '''' then send_off else dp_mode d),
     dp_live_timeout := (if dp_live_timeout d = 0 then default_live_timeout else dp_live_timeout d)\<rparr>"

definition new_server :: "deps \<Rightarrow> host \<Rightarrow> files \<Rightarrow> server" where
  "new_server d h fs = host.extend h (server.fields [] [] (0 < dp_idle_exit d) False zero_time_ms False False False [] fs)"

section \<open>Connections\<close>

definition write_conn :: "json \<Rightarrow> conn \<Rightarrow> conn" where
  "write_conn v c = c\<lparr>cn_out := cn_out c @ [v]\<rparr>"

definition write_to :: "nat \<Rightarrow> json \<Rightarrow> server \<Rightarrow> server" where
  "write_to i v s = s\<lparr>sv_conns := map (\<lambda>c. if cn_id c = i then write_conn v c else c) (sv_conns s)\<rparr>"

text \<open>The bytes on the wire: one line per message.\<close>

definition conn_bytes :: "conn \<Rightarrow> string" where
  "conn_bytes c = concat (map (\<lambda>v. marshal v @ [char_of (10::nat)]) (cn_out c))"

definition broadcast :: "string \<Rightarrow> json \<Rightarrow> server \<Rightarrow> server" where
  "broadcast typ data s = s\<lparr>sv_conns := map (\<lambda>c. if cn_subscribed c then write_conn (notification_json typ data) c else c) (sv_conns s)\<rparr>"

text \<open>What \<open>Serve\<close> returns when \<open>Accept\<close> fails.\<close>

definition accept_failed :: "bool \<Rightarrow> bool \<Rightarrow> string \<Rightarrow> err option" where
  "accept_failed cancelled closed t = (if cancelled then None else if closed then None else Some (Wrap ''accept'' (Driver t)))"

text \<open>\<open>Serve\<close> accepts a connection and stops the timer; \<open>dropConn\<close> removes it and re-arms the timer when
  it was the last.\<close>

definition accept_conn :: "nat \<Rightarrow> server \<Rightarrow> server" where
  "accept_conn i s = s\<lparr>sv_conns := sv_conns s @ [\<lparr>cn_id = i, cn_subscribed = False, cn_out = []\<rparr>], sv_timer := False\<rparr>"

definition drop_conn :: "deps \<Rightarrow> nat \<Rightarrow> server \<Rightarrow> server" where
  "drop_conn d i s = (let rest = filter (\<lambda>c. cn_id c \<noteq> i) (sv_conns s) in
     s\<lparr>sv_conns := rest, sv_closed := sv_closed s @ filter (\<lambda>c. cn_id c = i) (sv_conns s),
       sv_timer := (if rest = [] \<and> 0 < dp_idle_exit d then True else sv_timer s)\<rparr>)"

text \<open>The timer's callback checks again that nobody is connected.\<close>

definition timer_fires :: "server \<Rightarrow> server" where
  "timer_fires s = s\<lparr>sv_timer := False, sv_idle_fired := sv_idle_fired s \<or> sv_conns s = []\<rparr>"

definition subscribe_conn :: "nat \<Rightarrow> server \<Rightarrow> server" where
  "subscribe_conn i s = s\<lparr>sv_conns := map (\<lambda>c. if cn_id c = i then c\<lparr>cn_subscribed := True\<rparr> else c) (sv_conns s)\<rparr>"

definition request_shutdown :: "server \<Rightarrow> server" where
  "request_shutdown s = s\<lparr>sv_shutdown := True\<rparr>"

definition mark_auth_expired :: "server \<Rightarrow> server" where
  "mark_auth_expired s = s\<lparr>sv_auth_expired := True\<rparr>"

section \<open>Events of the phone\<close>

definition state_json :: "string \<Rightarrow> json" where
  "state_json state = json_map [(''state'', JStr state)]"

fun handle_gm_event :: "'z rpc_env_scheme \<Rightarrow> gm_event \<Rightarrow> server \<Rightarrow> server" where
  "handle_gm_event e (EvMessage w) s = (case message_row (status_name e) w ''gm'' of
     None \<Rightarrow> s
   | Some row \<Rightarrow> broadcast event_message_new (json_map [(''message'', message_json row), (''is_old'', JBool (w_old w))]) s)"
| "handle_gm_event e (EvConversation c) s = (case conversation_row c ''gm'' of
     None \<Rightarrow> s
   | Some row \<Rightarrow> broadcast event_conversation_updated (json_map [(''conversation'', conversation_json (rv_json_time e) row)]) s)"
| "handle_gm_event e (ClientReady sid cs) s = broadcast event_sync_status (state_json ''ready'') (s\<lparr>sv_auth_expired := False\<rparr>)"
| "handle_gm_event e PhoneNotResponding s = broadcast event_sync_status (state_json ''phone_not_responding'') s"
| "handle_gm_event e PhoneRespondingAgain s = broadcast event_sync_status (state_json ''phone_responding'') s"
| "handle_gm_event e (ListenTemporaryError t) s = broadcast event_sync_status (state_json ''listen_temporary_error'') s"
| "handle_gm_event e ListenRecovered s = broadcast event_sync_status (state_json ''listen_recovered'') s"
| "handle_gm_event e GaiaLoggedOut s = broadcast event_sync_status (state_json ''logged_out'') (s\<lparr>sv_auth_expired := True\<rparr>)"
| "handle_gm_event e _ s = s"

end
