(* ===== verification/Go_Path.thy ===== *)
theory Go_Path
  imports Go_Text
begin

text \<open>\<open>path/filepath\<close> on Unix, as far as the program uses it: \<open>Clean\<close> and \<open>Join\<close>.\<close>

text \<open>The elements of a path, dots resolved; the last one pushed comes first.\<close>

fun clean_onto :: "bool \<Rightarrow> string list \<Rightarrow> string list \<Rightarrow> string list" where
  "clean_onto rooted stack [] = stack"
| "clean_onto rooted stack (p # ps) = clean_onto rooted
     (if p = '''' \<or> p = ''.'' then stack
      else if p = ''..'' then
        (case stack of
           [] \<Rightarrow> if rooted then [] else [''..'']
         | q # qs \<Rightarrow> if q = ''..'' then ''..'' # q # qs else qs)
      else p # stack) ps"

definition is_rooted :: "string \<Rightarrow> bool" where
  "is_rooted p \<longleftrightarrow> has_prefix ''/'' p"

definition path_elems :: "string \<Rightarrow> string list" where
  "path_elems p = rev (clean_onto (is_rooted p) [] (split_char (CHR ''/'') p))"

definition path_clean :: "string \<Rightarrow> string" where
  "path_clean p = (let body = join_with ''/'' (path_elems p) in
     if is_rooted p then ''/'' @ body else if path_elems p = [] then ''.'' else body)"

fun path_join :: "string list \<Rightarrow> string" where
  "path_join [] = ''''"
| "path_join (p # ps) = (if p = '''' then path_join ps else path_clean (join_with ''/'' (p # ps)))"

text \<open>A path that is already clean and rooted: its elements are real names.\<close>

definition plain_name :: "string \<Rightarrow> bool" where
  "plain_name n \<longleftrightarrow> n \<notin> set ['''', ''.'', ''..''] \<and> CHR ''/'' \<notin> set n"

definition clean_root :: "string \<Rightarrow> string list \<Rightarrow> bool" where
  "clean_root p names \<longleftrightarrow> p = ''/'' @ join_with ''/'' names \<and> names \<noteq> [] \<and> list_all plain_name names"

lemma clean_onto_names: "list_all plain_name ps \<Longrightarrow> clean_onto r stack ps = rev ps @ stack"
  by (induction ps arbitrary: stack) (simp_all add: plain_name_def)

lemma split_no_sep: "c \<notin> set s \<Longrightarrow> split_char c s = [s]"
  by (induction s) auto

lemma split_char_append: "c \<notin> set s \<Longrightarrow> split_char c (s @ c # t) = s # split_char c t"
  by (induction s) auto

lemma split_join: "list_all (\<lambda>n. c \<notin> set n) ns \<Longrightarrow> ns \<noteq> [] \<Longrightarrow> split_char c (join_with [c] ns) = ns"
proof (induction ns)
  case (Cons n ns)
  then show ?case by (cases ns) (simp_all add: split_no_sep split_char_append)
qed simp

lemma join_with_snoc: "ns \<noteq> [] \<Longrightarrow> join_with sep (ns @ [n]) = join_with sep ns @ sep @ n"
proof (induction ns)
  case (Cons m ns)
  then show ?case by (cases ns) simp_all
qed simp

lemma split_clean:
  assumes "clean_root p names" and "rest = join_with ''/'' es" and "es \<noteq> []" and "list_all (\<lambda>n. CHR ''/'' \<notin> set n) es"
  shows "split_char (CHR ''/'') (p @ ''/'' @ rest) = '''' # names @ es"
proof -
  have names: "list_all (\<lambda>n. CHR ''/'' \<notin> set n) names" "names \<noteq> []" "p = ''/'' @ join_with ''/'' names"
    using assms(1) by (auto simp: clean_root_def plain_name_def list_all_iff)
  have join: "join_with ''/'' ns @ ''/'' @ join_with ''/'' es = join_with ''/'' (ns @ es)" if "ns \<noteq> []" for ns
    using that
  proof (induction ns)
    case (Cons n ns)
    with assms(3) show ?case by (cases ns; cases es) simp_all
  qed simp
  have "split_char (CHR ''/'') (p @ ''/'' @ rest) = '''' # split_char (CHR ''/'') (join_with ''/'' (names @ es))"
    using names(2,3) join [OF names(2)] assms(2) by simp
  also have "split_char (CHR ''/'') (join_with ''/'' (names @ es)) = names @ es"
    by (rule split_join) (use names assms in auto)
  finally show ?thesis .
qed

lemma clean_onto_append: "clean_onto r st (ps @ qs) = clean_onto r (clean_onto r st ps) qs"
  by (induction r st ps rule: clean_onto.induct) simp_all

text \<open>A plain name joined to a clean directory is a file in it; a name that starts by going up is not.\<close>

lemma path_join_clean:
  assumes "clean_root p names" and "es \<noteq> []" and "list_all (\<lambda>n. CHR ''/'' \<notin> set n) es"
  shows "path_join [p, join_with ''/'' es] = ''/'' @ join_with ''/'' (rev (clean_onto True (rev names) es))"
proof -
  let ?q = "p @ ''/'' @ join_with ''/'' es"
  have p: "p \<noteq> ''''" "is_rooted ?q" "list_all plain_name names"
    using assms(1) by (auto simp: clean_root_def is_rooted_def has_prefix_def)
  have "path_elems ?q = rev (clean_onto True [] ('''' # names @ es))"
    using p(2) split_clean [OF assms(1) refl assms(2,3)] by (simp add: path_elems_def)
  also have "\<dots> = rev (clean_onto True (rev names) es)"
    using clean_onto_names [OF p(3), of True "[]"] by (simp add: clean_onto_append)
  finally show ?thesis using p by (simp add: path_clean_def Let_def)
qed

lemma path_join_plain:
  assumes "clean_root p names" and "plain_name n"
  shows "path_join [p, n] = p @ ''/'' @ n"
proof -
  have "path_join [p, join_with ''/'' [n]] = ''/'' @ join_with ''/'' (rev (clean_onto True (rev names) [n]))"
    by (rule path_join_clean [OF assms(1)]) (use assms(2) in \<open>auto simp: plain_name_def\<close>)
  also have "clean_onto True (rev names) [n] = n # rev names" using assms(2) by (simp add: plain_name_def)
  finally show ?thesis using assms(1) by (simp add: clean_root_def join_with_snoc)
qed

lemma path_join_up:
  assumes "clean_root p (names @ [m])" and "plain_name n" and "names \<noteq> []"
  shows "path_join [p, ''../'' @ n] = ''/'' @ join_with ''/'' names @ ''/'' @ n"
proof -
  have m: "plain_name m" using assms(1) by (simp add: clean_root_def)
  have "path_join [p, join_with ''/'' [''..'', n]]
      = ''/'' @ join_with ''/'' (rev (clean_onto True (rev (names @ [m])) [''..'', n]))"
    by (rule path_join_clean [OF assms(1)]) (use assms(2) in \<open>auto simp: plain_name_def\<close>)
  also have "clean_onto True (rev (names @ [m])) [''..'', n] = n # rev names"
    using m assms(2) by (simp add: plain_name_def)
  finally show ?thesis using assms(3) by (simp add: join_with_snoc)
qed

end
