(* ===== verification/Rpc_Handlers.thy ===== *)
theory Rpc_Handlers
  imports Rpc_Server Go_Path
begin

text \<open>
  \<open>internal/rpc/handlers.go\<close>: one definition per method of the daemon and the dispatch between them.
  Methods that only read take the store; those that change something take and return the server.
  Work a handler leaves to a goroutine of its own is a task of the state.
\<close>

section \<open>Parameters\<close>

text \<open>\<open>decode\<close>: absent or \<open>null\<close> parameters are the zero value.\<close>

definition decode_params :: "'z rpc_env_scheme \<Rightarrow> (string \<times> json_kind) list \<Rightarrow> json option \<Rightarrow> rpc_error + (string \<times> json) list" where
  "decode_params e decl params = (case params of
     None \<Rightarrow> Inr []
   | Some JNull \<Rightarrow> Inr []
   | Some (JObj fs) \<Rightarrow> if fields_ok decl fs then Inr fs
       else Inl (rpc_err code_invalid_params (''invalid params: '' @ rv_decode_text e (JObj fs)))
   | Some v \<Rightarrow> Inl (rpc_err code_invalid_params (''invalid params: '' @ rv_decode_text e v)))"

definition required :: "string \<Rightarrow> rpc_error" where
  "required text = rpc_err code_invalid_params text"

definition unavailable :: "string \<Rightarrow> rpc_error" where
  "unavailable text = rpc_err code_unavailable text"

definition reply_of :: "('a \<Rightarrow> json) \<Rightarrow> err + 'a \<Rightarrow> rpc_error + json" where
  "reply_of f r = (case r of Inl err \<Rightarrow> Inl (internal_err err) | Inr x \<Rightarrow> Inr (f x))"

text \<open>The code for a missing row, and an internal error otherwise.\<close>

definition reply_found :: "string \<Rightarrow> ('a \<Rightarrow> json) \<Rightarrow> err + 'a \<Rightarrow> rpc_error + json" where
  "reply_found missing f r = (case r of
     Inl err \<Rightarrow> if err_is err ErrNotFound then Inl (rpc_err code_not_found missing) else Inl (internal_err err)
   | Inr x \<Rightarrow> Inr (f x))"

definition list_json :: "('a \<Rightarrow> json) \<Rightarrow> 'a list \<Rightarrow> json" where
  "list_json f xs = JArr (map f xs)"

definition bound_ms :: "int \<Rightarrow> int" where
  "bound_ms ms = (if ms > 0 then ms else zero_time_ms)"

definition rich_json :: "'z calls \<Rightarrow> message list \<Rightarrow> db \<Rightarrow> json" where
  "rich_json E ms d = list_json rich_message_json (enrich_messages E 0 [] ms d)"

section \<open>Reading methods\<close>

definition handle_ping :: "deps \<Rightarrow> 'z rpc_calls \<Rightarrow> db \<Rightarrow> rpc_error + json" where
  "handle_ping dp E d = reply_of (\<lambda>version. json_map [(''pong'', JBool True), (''version'', JStr (dp_version dp)),
     (''schema_version'', JInt (int version))]) (current_version (here E) d)"

definition handle_status :: "deps \<Rightarrow> 'z rpc_calls \<Rightarrow> server \<Rightarrow> rpc_error + json" where
  "handle_status dp E s = (case sync_state (here (at E 0)) (h_db s) of
     Inl err \<Rightarrow> Inl (internal_err err)
   | Inr sy \<Rightarrow> (case list_approvals (here (at E 1)) approval_pending 1000 (h_db s) of
       Inl err \<Rightarrow> Inl (internal_err err)
     | Inr pending \<Rightarrow> (let count = (\<lambda>r. case r of Inl (_::err) \<Rightarrow> 0 | Inr n \<Rightarrow> int n) in
         Inr (json_map [(''connected'', JBool (dp_client dp \<and> ph_connected (here E))), (''offline'', JBool (\<not> dp_client dp)),
           (''auth_expired'', JBool (sv_auth_expired s)), (''send_mode'', JStr (dp_mode dp)),
           (''pending_approvals'', JInt (int (length pending))),
           (''conversations'', JInt (count (count_conversations (here (at E 2)) (h_db s)))),
           (''messages'', JInt (count (count_messages (here (at E 3)) (h_db s)))),
           (''last_event_ms'', JInt (last_event_ts sy)), (''last_connect_ms'', JInt (last_connect_ts sy)),
           (''updated_at_ms'', JInt (sync_updated_at sy))]))))"

definition handle_chats_list :: "'z rpc_calls \<Rightarrow> json option \<Rightarrow> db \<Rightarrow> rpc_error + json" where
  "handle_chats_list E params d = (case decode_params (here E)
       [(''limit'', KInt), (''unread_only'', KBool), (''pinned'', KBool)] params of
     Inl err \<Rightarrow> Inl err
   | Inr fs \<Rightarrow> reply_of (list_json (conversation_json (rv_json_time (here E)))) (list_conversations (here (at E 0))
       \<lparr>lc_limit = get_int fs ''limit'', lc_unread_only = get_bool fs ''unread_only'', lc_pinned = get_bool fs ''pinned''\<rparr> d))"

definition handle_chats_find :: "'z rpc_calls \<Rightarrow> json option \<Rightarrow> db \<Rightarrow> rpc_error + json" where
  "handle_chats_find E params d = (case decode_params (here E) [(''query'', KString), (''limit'', KInt)] params of
     Inl err \<Rightarrow> Inl err
   | Inr fs \<Rightarrow> if get_string fs ''query'' = '''' then Inl (required ''query is required'')
       else reply_of (list_json (conversation_json (rv_json_time (here E))))
         (find_conversations (at E 0) (get_string fs ''query'') (get_int fs ''limit'') d))"

text \<open>Any failure of the lookup is reported as not found.\<close>

definition handle_chats_show :: "'z rpc_calls \<Rightarrow> json option \<Rightarrow> db \<Rightarrow> rpc_error + json" where
  "handle_chats_show E params d = (case decode_params (here E) [(''conversation_id'', KString), (''limit'', KInt)] params of
     Inl err \<Rightarrow> Inl err
   | Inr fs \<Rightarrow> (let cid = get_string fs ''conversation_id'' in
       if cid = '''' then Inl (required ''conversation_id is required'')
       else (case get_conversation (here (at E 0)) cid d of
           Inl err \<Rightarrow> Inl (rpc_err code_not_found (''conversation not found: '' @ cid))
         | Inr conv \<Rightarrow> (case list_messages (here (at E 1)) \<lparr>lm_conv = cid, lm_sender = '''', lm_since = zero_time_ms,
               lm_until = zero_time_ms, lm_limit = get_int fs ''limit'', lm_order = ''''\<rparr> d of
             Inl err \<Rightarrow> Inl (internal_err err)
           | Inr ms \<Rightarrow> Inr (json_map [(''conversation'', conversation_json (rv_json_time (here E)) conv),
               (''messages'', rich_json (at E 2) ms d)])))))"

definition handle_messages_list :: "'z rpc_calls \<Rightarrow> json option \<Rightarrow> db \<Rightarrow> rpc_error + json" where
  "handle_messages_list E params d = (case decode_params (here E) [(''conversation_id'', KString), (''sender_id'', KString),
       (''since_ms'', KInt), (''until_ms'', KInt), (''limit'', KInt), (''order'', KString)] params of
     Inl err \<Rightarrow> Inl err
   | Inr fs \<Rightarrow> reply_of (\<lambda>ms. rich_json (at E 1) ms d) (list_messages (here (at E 0))
       \<lparr>lm_conv = get_string fs ''conversation_id'', lm_sender = get_string fs ''sender_id'',
        lm_since = bound_ms (get_int fs ''since_ms''), lm_until = bound_ms (get_int fs ''until_ms''),
        lm_limit = get_int fs ''limit'', lm_order = get_string fs ''order''\<rparr> d))"

definition handle_messages_search :: "'z rpc_calls \<Rightarrow> json option \<Rightarrow> db \<Rightarrow> rpc_error + json" where
  "handle_messages_search E params d = (case decode_params (here E) [(''query'', KString), (''conversation_id'', KString),
       (''since_ms'', KInt), (''until_ms'', KInt), (''limit'', KInt)] params of
     Inl err \<Rightarrow> Inl err
   | Inr fs \<Rightarrow> if get_string fs ''query'' = '''' then Inl (required ''query is required'')
       else reply_of (list_json rich_hit_json) (search_messages_rich (at E 0)
         \<lparr>so_query = get_string fs ''query'', so_conv = get_string fs ''conversation_id'',
          so_since = bound_ms (get_int fs ''since_ms''), so_until = bound_ms (get_int fs ''until_ms''),
          so_limit = get_int fs ''limit''\<rparr> d))"

definition handle_messages_show :: "'z rpc_calls \<Rightarrow> json option \<Rightarrow> db \<Rightarrow> rpc_error + json" where
  "handle_messages_show E params d = (case decode_params (here E) [(''message_id'', KString)] params of
     Inl err \<Rightarrow> Inl err
   | Inr fs \<Rightarrow> (let mid = get_string fs ''message_id'' in
       if mid = '''' then Inl (required ''message_id is required'')
       else reply_found (''message not found: '' @ mid) message_json (get_message (here (at E 0)) mid d)))"

definition handle_messages_context :: "'z rpc_calls \<Rightarrow> json option \<Rightarrow> db \<Rightarrow> rpc_error + json" where
  "handle_messages_context E params d = (case decode_params (here E)
       [(''message_id'', KString), (''before'', KInt), (''after'', KInt)] params of
     Inl err \<Rightarrow> Inl err
   | Inr fs \<Rightarrow> (let mid = get_string fs ''message_id''; none = (get_int fs ''before'' = 0 \<and> get_int fs ''after'' = 0);
         before = (if none then 5 else get_int fs ''before''); after = (if none then 5 else get_int fs ''after'') in
       if mid = '''' then Inl (required ''message_id is required'')
       else reply_found (''message not found: '' @ mid) (\<lambda>ms. rich_json (at E 1) ms d)
         (get_message_context (here (at E 0)) mid before after d)))"

definition handle_contacts_search :: "'z rpc_calls \<Rightarrow> json option \<Rightarrow> db \<Rightarrow> rpc_error + json" where
  "handle_contacts_search E params d = (case decode_params (here E) [(''query'', KString), (''limit'', KInt)] params of
     Inl err \<Rightarrow> Inl err
   | Inr fs \<Rightarrow> reply_of (list_json contact_json)
       (search_contacts (here (at E 0)) (get_string fs ''query'') (get_int fs ''limit'') d))"

definition handle_contacts_show :: "'z rpc_calls \<Rightarrow> json option \<Rightarrow> db \<Rightarrow> rpc_error + json" where
  "handle_contacts_show E params d = (case decode_params (here E) [(''id'', KString)] params of
     Inl err \<Rightarrow> Inl err
   | Inr fs \<Rightarrow> (let cid = get_string fs ''id'' in
       if cid = '''' then Inl (required ''id is required'')
       else reply_found (''contact not found: '' @ cid) contact_json
         (case get_contact (here (at E 0)) cid d of
            Inl err \<Rightarrow> if err_is err ErrNotFound then get_contact_by_number (here (at E 1)) cid d else Inl err
          | Inr c \<Rightarrow> Inr c)))"

definition handle_approvals_list :: "'z rpc_calls \<Rightarrow> json option \<Rightarrow> db \<Rightarrow> rpc_error + json" where
  "handle_approvals_list E params d = (case decode_params (here E) [(''status'', KString), (''limit'', KInt)] params of
     Inl err \<Rightarrow> Inl err
   | Inr fs \<Rightarrow> reply_of (list_json approval_json)
       (list_approvals (here (at E 0)) (get_string fs ''status'') (get_int fs ''limit'') d))"

section \<open>Aliases, media, reactions\<close>

definition handle_alias_set :: "'z rpc_calls \<Rightarrow> json option \<Rightarrow> server \<Rightarrow> server \<times> (rpc_error + json)" where
  "handle_alias_set E params s = (case decode_params (here E)
       [(''target_type'', KString), (''target_id'', KString), (''alias'', KString)] params of
     Inl err \<Rightarrow> (s, Inl err)
   | Inr fs \<Rightarrow> (let target = get_string fs ''target_type'' in
       if target \<noteq> alias_contact \<and> target \<noteq> alias_conversation
         then (s, Inl (required ''target_type must be contact or conversation''))
       else if get_string fs ''target_id'' = '''' \<or> get_string fs ''alias'' = ''''
         then (s, Inl (required ''target_id and alias are required''))
       else (case set_alias (here (at E 0)) target (get_string fs ''target_id'') (get_string fs ''alias'') (h_db s) of
           (d, Some err) \<Rightarrow> (put_db d s, Inl (internal_err err))
         | (d, None) \<Rightarrow> (put_db d s, Inr (json_map [(''set'', JBool True)])))))"

definition handle_alias_rm :: "'z rpc_calls \<Rightarrow> json option \<Rightarrow> server \<Rightarrow> server \<times> (rpc_error + json)" where
  "handle_alias_rm E params s = (case decode_params (here E)
       [(''target_type'', KString), (''target_id'', KString), (''alias'', KString)] params of
     Inl err \<Rightarrow> (s, Inl err)
   | Inr fs \<Rightarrow> (let target = get_string fs ''target_type'' in
       if target \<noteq> alias_contact \<and> target \<noteq> alias_conversation
         then (s, Inl (required ''target_type must be contact or conversation''))
       else if get_string fs ''target_id'' = '''' then (s, Inl (required ''target_id is required''))
       else (case remove_alias (here (at E 0)) target (get_string fs ''target_id'') (h_db s) of
           (d, Some err) \<Rightarrow> (put_db d s, Inl (internal_err err))
         | (d, None) \<Rightarrow> (put_db d s, Inr (json_map [(''removed'', JBool True)])))))"

definition media_name :: "'z rpc_env_scheme \<Rightarrow> message \<Rightarrow> string" where
  "media_name e m = msg_id m @
     (case msg_mime m of None \<Rightarrow> '''' | Some t \<Rightarrow> (case rv_extensions e t of [] \<Rightarrow> '''' | ext # _ \<Rightarrow> ext))"

definition media_path :: "deps \<Rightarrow> 'z rpc_env_scheme \<Rightarrow> message \<Rightarrow> string" where
  "media_path dp e m = path_join [dp_media_dir dp, media_name e m]"

text \<open>A failing \<open>os.WriteFile\<close> leaves what the environment says of the file.\<close>

definition handle_media_download :: "deps \<Rightarrow> 'z rpc_calls \<Rightarrow> json option \<Rightarrow> server \<Rightarrow> server \<times> (rpc_error + json)" where
  "handle_media_download dp E params s = (case decode_params (here E) [(''message_id'', KString)] params of
     Inl err \<Rightarrow> (s, Inl err)
   | Inr fs \<Rightarrow> (let mid = get_string fs ''message_id'' in
       if mid = '''' then (s, Inl (required ''message_id is required''))
       else if \<not> dp_client dp then (s, Inl (unavailable ''phone connection unavailable''))
       else (case get_message (here (at E 0)) mid (h_db s) of
           Inl err \<Rightarrow> (s, reply_found (''message not found: '' @ mid) message_json (Inl err))
         | Inr m \<Rightarrow>
             if msg_media m = None \<or> msg_media m = Some '''' then (s, Inl (rpc_err code_not_found ''message has no attached media''))
             else if msg_key m = '''' then (s, Inl (unavailable ''media has no decryption key (stripped during sync?)''))
             else (case download_media (here (at E 1)) (the (msg_media m)) (msg_key m) s of
                 (s1, Inl err) \<Rightarrow> (s1, Inl (unavailable (''download: '' @ err_text err)))
               | (s1, Inr bytes) \<Rightarrow> (let path = media_path dp (here E) m in
                   case rv_write_file (here E) path of
                     Some (t, left) \<Rightarrow> (s1\<lparr>sv_files := (sv_files s1)(path := left)\<rparr>, Inl (internal_err (Driver t)))
                   | None \<Rightarrow> (s1\<lparr>sv_files := (sv_files s1)(path \<mapsto> bytes)\<rparr>,
                       Inr (json_map [(''path'', JStr path), (''bytes'', JInt (int (length bytes))),
                         (''mime_type'', JStr (coalesce (msg_mime m) ''''))])))))))"

definition handle_send_react :: "deps \<Rightarrow> 'z rpc_calls \<Rightarrow> json option \<Rightarrow> server \<Rightarrow> server \<times> (rpc_error + json)" where
  "handle_send_react dp E params s = (case decode_params (here E)
       [(''message_id'', KString), (''emoji'', KString), (''remove'', KBool)] params of
     Inl err \<Rightarrow> (s, Inl err)
   | Inr fs \<Rightarrow> (let mid = get_string fs ''message_id''; emoji = get_string fs ''emoji'' in
       if mid = '''' \<or> emoji = '''' then (s, Inl (required ''message_id and emoji are required''))
       else if dp_mode dp = send_off
         then (s, Inl (rpc_err code_sends_disabled ''daemon is read-only; restart with `gmcli --read-only=false serve`''))
       else if \<not> dp_client dp then (s, Inl (unavailable ''phone connection unavailable''))
       else (case send_reaction (here (at E 0)) mid emoji (if get_bool fs ''remove'' then reaction_remove else reaction_add) s of
           (s1, Some err) \<Rightarrow> (s1, Inl (unavailable (err_text err)))
         | (s1, None) \<Rightarrow> (s1, Inr (json_map [(''reacted'', JBool True), (''emoji'', JStr emoji)])))))"

section \<open>Refresh\<close>

definition refresh_conversations :: int where "refresh_conversations = 50"
definition refresh_message_convs :: nat where "refresh_message_convs = 15"
definition refresh_messages_each :: int where "refresh_messages_each = 20"

definition handle_sync_refresh :: "deps \<Rightarrow> 'z rpc_env_scheme \<Rightarrow> server \<Rightarrow> server \<times> (rpc_error + json)" where
  "handle_sync_refresh dp e s =
     (if \<not> dp_client dp \<or> \<not> dp_pump dp then (s, Inl (unavailable ''offline daemon: no phone connection to refresh from''))
      else if now_ms e - sv_last_refresh s < 30000
        then (s, Inr (json_map [(''started'', JBool False), (''reason'', JStr ''refreshed recently'')]))
      else (s\<lparr>sv_last_refresh := now_ms e, sv_tasks := sv_tasks s @ [TaskRefresh]\<rparr>,
        Inr (json_map [(''started'', JBool True)])))"

fun refresh_all :: "'z rpc_calls \<Rightarrow> nat \<Rightarrow> nat \<Rightarrow> gm_conversation option list \<Rightarrow> server \<Rightarrow> server" where
  "refresh_all E i fetched [] s = s"
| "refresh_all E i fetched (None # cs) s = refresh_all E (Suc i) fetched cs s"
| "refresh_all E i fetched (Some c # cs) s =
     (if gc_id c = '''' then refresh_all E (Suc i) fetched cs s
      else (let F = at E i; nm = status_name (here F);
                s1 = s\<lparr>h_pump := pump_handle (at F 0) nm (EvConversation c) (h_pump s)\<rparr> in
        if fetched < refresh_message_convs then
          (let s2 = logged (CallFetch (gc_id c) refresh_messages_each None) s1 in
           refresh_all E (Suc i) (Suc fetched) cs (case ph_fetch (here F) (gc_id c) refresh_messages_each None of
               Inl t \<Rightarrow> s2
             | Inr (ms, cur) \<Rightarrow> put_db (fst (import_messages (at F 1) nm 0 ms (h_db s2))) s2))
        else refresh_all E (Suc i) fetched cs s1))"

definition run_refresh :: "'z rpc_calls \<Rightarrow> server \<Rightarrow> server" where
  "run_refresh E s0 = (let s = logged (CallListConversations refresh_conversations) s0 in
     case ph_list_conversations (here E) refresh_conversations of
       Inl t \<Rightarrow> broadcast event_sync_status (state_json ''refresh_failed'') s
     | Inr cs \<Rightarrow> (let s1 = refresh_all (at E 0) 0 0 cs s; e = here (at E 1);
           s2 = put_db (fst (mark_sync e zero_time_ms (now_ms e) (h_db s1))) s1 in
         broadcast event_sync_status (state_json ''refreshed'') s2))"

section \<open>Pairing\<close>

definition start_pairing :: "deps \<Rightarrow> task \<Rightarrow> server \<Rightarrow> server \<times> (rpc_error + json)" where
  "start_pairing dp t s = (if sv_pairing s
     then (s, Inr (json_map [(''started'', JBool False), (''reason'', JStr ''pairing already in progress'')]))
     else (let s1 = s\<lparr>sv_pairing := True\<rparr>; s2 = (if dp_client dp then logged CallDisconnect s1 else s1) in
       (s2\<lparr>sv_tasks := sv_tasks s2 @ [t]\<rparr>, Inr (json_map [(''started'', JBool True)]))))"

definition handle_auth_pair :: "deps \<Rightarrow> server \<Rightarrow> server \<times> (rpc_error + json)" where
  "handle_auth_pair dp s =
     (if dp_session dp = '''' then (s, Inl (unavailable ''pairing is not available on this daemon''))
      else start_pairing dp TaskPair s)"

text \<open>\<open>copyStringMap\<close>: the entries of the cookie map, whose names the filter has fixed.\<close>

definition cookie_entries :: "(string \<Rightarrow> string option) \<Rightarrow> (string \<times> string) list" where
  "cookie_entries cookies = concat (map (\<lambda>n. case cookies n of None \<Rightarrow> [] | Some v \<Rightarrow> [(n, v)])
     (required_cookies @ optional_cookies))"

definition handle_auth_pair_google :: "deps \<Rightarrow> 'z rpc_env_scheme \<Rightarrow> json option \<Rightarrow> server
    \<Rightarrow> (server \<times> (rpc_error + json)) outcome" where
  "handle_auth_pair_google dp e params s = (case decode_params e [(''cookies_input'', KString)] params of
     Inl err \<Rightarrow> Returns (s, Inl err)
   | Inr fs \<Rightarrow>
       if dp_session dp = '''' then Returns (s, Inl (unavailable ''pairing is not available on this daemon''))
       else (case parse_google_cookie_input e (rv_parse_text e) (get_string fs ''cookies_input'') of
           Panics \<Rightarrow> Panics
         | Returns (Inl t) \<Rightarrow> Returns (s, Inl (required t))
         | Returns (Inr cookies) \<Rightarrow> Returns (start_pairing dp (TaskPairGoogle (cookie_entries cookies)) s)))"

definition finish_pairing :: "string \<Rightarrow> string \<Rightarrow> files \<times> string list \<times> (err + pair_result) \<Rightarrow> server \<Rightarrow> server" where
  "finish_pairing event name flow s = (case flow of (fs, shown, r) \<Rightarrow>
     (let s1 = fold (\<lambda>x. broadcast event (json_map [(name, JStr x)])) shown (s\<lparr>sv_files := fs\<rparr>) in
      (case r of
         Inl err \<Rightarrow> broadcast event_pair_error (json_map [(''error'', JStr (err_text err))]) s1
       | Inr res \<Rightarrow> request_shutdown (broadcast event_pair_success (json_map [(''phone_id'', JStr (pr_phone res))])
           (s1\<lparr>sv_auth_expired := False\<rparr>)))\<lparr>sv_pairing := False\<rparr>))"

definition run_pairing :: "deps \<Rightarrow> 'z rpc_env_scheme \<Rightarrow> server \<Rightarrow> server" where
  "run_pairing dp e s = finish_pairing event_pair_qr ''url'' (pair (rv_pair e) (dp_session dp) (sv_files s)) s"

definition run_google_pairing :: "deps \<Rightarrow> 'z rpc_env_scheme \<Rightarrow> (string \<times> string) list \<Rightarrow> server \<Rightarrow> server" where
  "run_google_pairing dp e cookies s =
     finish_pairing event_pair_emoji ''emoji'' (pair_google (rv_pair e) (dp_session dp) cookies (sv_files s)) s"

fun run_task :: "deps \<Rightarrow> 'z rpc_calls \<Rightarrow> task \<Rightarrow> server \<Rightarrow> server" where
  "run_task dp E TaskRefresh s = run_refresh E s"
| "run_task dp E TaskPair s = run_pairing dp (here E) s"
| "run_task dp E (TaskPairGoogle cookies) s = run_google_pairing dp (here E) cookies s"

section \<open>History\<close>

definition handle_history_backfill :: "deps \<Rightarrow> 'z rpc_calls \<Rightarrow> json option \<Rightarrow> server \<Rightarrow> server \<times> (rpc_error + json)" where
  "handle_history_backfill dp E params s = (case decode_params (here E)
       [(''conversation_id'', KString), (''requests'', KInt), (''count'', KInt)] params of
     Inl err \<Rightarrow> (s, Inl err)
   | Inr fs \<Rightarrow>
       if get_string fs ''conversation_id'' = '''' then (s, Inl (required ''conversation_id is required''))
       else if \<not> dp_client dp \<or> \<not> dp_pump dp then (s, Inl (unavailable ''phone connection unavailable''))
       else (case backfill (at E 0) (get_string fs ''conversation_id'') (get_int fs ''requests'') (get_int fs ''count'') s of
           (s1, res, Some err) \<Rightarrow> (s1, Inl (unavailable (err_text err)))
         | (s1, res, None) \<Rightarrow> (s1, Inr (backfill_json res))))"

definition handle_history_lookup :: "deps \<Rightarrow> 'z rpc_calls \<Rightarrow> json option \<Rightarrow> server \<Rightarrow> server \<times> (rpc_error + json)" where
  "handle_history_lookup dp E params s = (case decode_params (here E)
       [(''phone'', KString), (''requests'', KInt), (''count'', KInt)] params of
     Inl err \<Rightarrow> (s, Inl err)
   | Inr fs \<Rightarrow>
       if get_string fs ''phone'' = '''' then (s, Inl (required ''phone is required (E.164, e.g. +13855551234)''))
       else if \<not> dp_client dp \<or> \<not> dp_pump dp then (s, Inl (unavailable ''phone connection unavailable''))
       else (case lookup_conversation (at E 0) (get_string fs ''phone'') s of
           (s1, Inl err) \<Rightarrow> (s1, Inl (unavailable (err_text err)))
         | (s1, Inr conv) \<Rightarrow> (case backfill (at E 1) (gc_id conv) (get_int fs ''requests'') (get_int fs ''count'') s1 of
             (s2, res, Some err) \<Rightarrow> (s2, Inl (unavailable (err_text err)))
           | (s2, res, None) \<Rightarrow> (s2, Inr (json_map [(''conversation_id'', JStr (gc_id conv)), (''name'', JStr (gc_name conv)),
               (''backfill'', backfill_json res)])))))"

section \<open>Sending and approvals\<close>

text \<open>\<open>performApprovedSend\<close>: the body of the critical section of \<open>liveMu\<close>.\<close>

definition perform_approved_send :: "deps \<Rightarrow> 'z rpc_calls \<Rightarrow> approval \<Rightarrow> server \<Rightarrow> server \<times> (rpc_error + json)" where
  "perform_approved_send dp E a s = (case get_approval (here (at E 0)) (ap_id a) (h_db s) of
     Inl err \<Rightarrow> (s, Inl (internal_err err))
   | Inr current \<Rightarrow>
       if ap_status current \<noteq> approval_pending
         then (s, Inl (rpc_err code_already_resolved (''approval is already '' @ ap_status current)))
       else if \<not> dp_client dp then (s, Inl (unavailable ''phone connection unavailable''))
       else (case send_text (here (at E 1)) (ap_conv a) (ap_body a) (coalesce (ap_reply a) '''') s of
         (s1, sent) \<Rightarrow> (case resolve_approval (here (at E 2)) (ap_id a)
               (case sent of Inl _ \<Rightarrow> ''failed'' | Inr _ \<Rightarrow> ''sent'')
               (case sent of Inl err \<Rightarrow> Some (err_text err) | Inr _ \<Rightarrow> None)
               (case sent of Inl _ \<Rightarrow> None | Inr res \<Rightarrow> Some (st_message_id res)) (h_db s1) of
             (d, Some err) \<Rightarrow> (put_db d s1, Inl (internal_err err))
           | (d, None) \<Rightarrow> (case get_approval (here (at E 3)) (ap_id a) d of
               Inl err \<Rightarrow> (put_db d s1, Inl (internal_err err))
             | Inr resolved \<Rightarrow> (broadcast event_approval_resolved (approval_json resolved) (put_db d s1),
                 case sent of
                   Inl err \<Rightarrow> Inl \<lparr>re_code = code_unavailable, re_message = ''send failed: '' @ err_text err,
                     re_data = Some (approval_json resolved)\<rparr>
                 | Inr _ \<Rightarrow> Inr (approval_json resolved))))))"

definition proposal :: "(string \<times> json) list \<Rightarrow> string \<Rightarrow> approval" where
  "proposal fs uuid = \<lparr>ap_id = uuid, ap_conv = get_string fs ''conversation_id'', ap_body = get_string fs ''body'',
     ap_reply = (if get_string fs ''reply_to_id'' \<noteq> '''' then Some (get_string fs ''reply_to_id'') else None),
     ap_by = (if get_string fs ''requested_by'' = '''' then ''rpc'' else get_string fs ''requested_by''),
     ap_status = '''', ap_error = None, ap_message_id = None, ap_created_at = 0, ap_updated_at = 0\<rparr>"

definition handle_send_text :: "deps \<Rightarrow> 'z rpc_calls \<Rightarrow> json option \<Rightarrow> server \<Rightarrow> server \<times> (rpc_error + json)" where
  "handle_send_text dp E params s = (case decode_params (here E)
       [(''conversation_id'', KString), (''body'', KString), (''reply_to_id'', KString), (''requested_by'', KString)] params of
     Inl err \<Rightarrow> (s, Inl err)
   | Inr fs \<Rightarrow>
       if get_string fs ''conversation_id'' = '''' \<or> get_string fs ''body'' = ''''
         then (s, Inl (required ''conversation_id and body are required''))
       else if dp_mode dp = send_off then (s, Inl (rpc_err code_sends_disabled
         ''daemon is read-only; restart with `gmcli --read-only=false serve` to enable the approval queue''))
       else (case create_approval (here (at E 0)) (proposal fs (rv_uuid (here E))) (h_db s) of
           (d, Some err) \<Rightarrow> (put_db d s, Inl (internal_err err))
         | (d, None) \<Rightarrow> (case get_approval (here (at E 1)) (rv_uuid (here E)) d of
             Inl err \<Rightarrow> (put_db d s, Inl (internal_err err))
           | Inr created \<Rightarrow>
               if dp_mode dp = send_approve
                 then (broadcast event_approval_requested (approval_json created) (put_db d s), Inr (approval_json created))
               else perform_approved_send dp (at E 2) created (put_db d s))))"

definition handle_approvals_approve :: "deps \<Rightarrow> 'z rpc_calls \<Rightarrow> json option \<Rightarrow> server \<Rightarrow> server \<times> (rpc_error + json)" where
  "handle_approvals_approve dp E params s = (case decode_params (here E) [(''approval_id'', KString), (''reason'', KString)] params of
     Inl err \<Rightarrow> (s, Inl err)
   | Inr fs \<Rightarrow> (let aid = get_string fs ''approval_id'' in
       if aid = '''' then (s, Inl (required ''approval_id is required''))
       else if dp_mode dp = send_off then (s, Inl (rpc_err code_sends_disabled
         ''daemon is read-only; restart with `gmcli --read-only=false serve` to enable sends''))
       else (case get_approval (here (at E 0)) aid (h_db s) of
           Inl err \<Rightarrow> (s, reply_found (''approval not found: '' @ aid) approval_json (Inl err))
         | Inr a \<Rightarrow>
             if ap_status a \<noteq> approval_pending
               then (s, Inl (rpc_err code_already_resolved (''approval is already '' @ ap_status a)))
             else perform_approved_send dp (at E 1) a s)))"

definition handle_approvals_deny :: "'z rpc_calls \<Rightarrow> json option \<Rightarrow> server \<Rightarrow> server \<times> (rpc_error + json)" where
  "handle_approvals_deny E params s = (case decode_params (here E) [(''approval_id'', KString), (''reason'', KString)] params of
     Inl err \<Rightarrow> (s, Inl err)
   | Inr fs \<Rightarrow> (let aid = get_string fs ''approval_id''; reason = get_string fs ''reason'' in
       if aid = '''' then (s, Inl (required ''approval_id is required''))
       else (case resolve_approval (here (at E 0)) aid ''denied'' (if reason \<noteq> '''' then Some reason else None) None (h_db s) of
           (d, Some err) \<Rightarrow> (put_db d s,
             if err_is err ErrNotFound then Inl (rpc_err code_not_found (''approval not found: '' @ aid))
             else if err_is err ErrApprovalResolved then Inl (rpc_err code_already_resolved ''approval already resolved'')
             else Inl (internal_err err))
         | (d, None) \<Rightarrow> (case get_approval (here (at E 1)) aid d of
             Inl err \<Rightarrow> (put_db d s, Inl (internal_err err))
           | Inr resolved \<Rightarrow> (broadcast event_approval_resolved (approval_json resolved) (put_db d s), Inr (approval_json resolved))))))"

section \<open>Dispatch\<close>

definition dispatch :: "deps \<Rightarrow> 'z rpc_calls \<Rightarrow> nat \<Rightarrow> string \<Rightarrow> json option \<Rightarrow> server
    \<Rightarrow> (server \<times> (rpc_error + json)) outcome" where
  "dispatch dp E c m params s = (let reads = (\<lambda>r. Returns (s, r)) in
     if m = ''ping'' then reads (handle_ping dp (at E 0) (h_db s))
     else if m = ''status'' then reads (handle_status dp (at E 0) s)
     else if m = ''subscribe'' then Returns (subscribe_conn c s, Inr (json_map [(''subscribed'', JBool True)]))
     else if m = ''chats.list'' then reads (handle_chats_list (at E 0) params (h_db s))
     else if m = ''chats.find'' then reads (handle_chats_find (at E 0) params (h_db s))
     else if m = ''chats.show'' then reads (handle_chats_show (at E 0) params (h_db s))
     else if m = ''messages.list'' then reads (handle_messages_list (at E 0) params (h_db s))
     else if m = ''messages.search'' then reads (handle_messages_search (at E 0) params (h_db s))
     else if m = ''messages.show'' then reads (handle_messages_show (at E 0) params (h_db s))
     else if m = ''messages.context'' then reads (handle_messages_context (at E 0) params (h_db s))
     else if m = ''contacts.search'' then reads (handle_contacts_search (at E 0) params (h_db s))
     else if m = ''contacts.show'' then reads (handle_contacts_show (at E 0) params (h_db s))
     else if m = ''sync.refresh'' then Returns (handle_sync_refresh dp (here E) s)
     else if m = ''auth.pair'' then Returns (handle_auth_pair dp s)
     else if m = ''auth.pair.google'' then handle_auth_pair_google dp (here E) params s
     else if m = ''media.download'' then Returns (handle_media_download dp (at E 0) params s)
     else if m = ''alias.set'' then Returns (handle_alias_set (at E 0) params s)
     else if m = ''alias.rm'' then Returns (handle_alias_rm (at E 0) params s)
     else if m = ''send.react'' then Returns (handle_send_react dp (at E 0) params s)
     else if m = ''daemon.shutdown'' then Returns (request_shutdown s, Inr (json_map [(''shutting_down'', JBool True)]))
     else if m = ''history.backfill'' then Returns (handle_history_backfill dp (at E 0) params s)
     else if m = ''history.lookup'' then Returns (handle_history_lookup dp (at E 0) params s)
     else if m = ''send.text'' then Returns (handle_send_text dp (at E 0) params s)
     else if m = ''approvals.list'' then reads (handle_approvals_list (at E 0) params (h_db s))
     else if m = ''approvals.approve'' then Returns (handle_approvals_approve dp (at E 0) params s)
     else if m = ''approvals.deny'' then Returns (handle_approvals_deny (at E 0) params s)
     else Returns (s, Inl (rpc_err code_method_not_found (''unknown method '' @ m))))"

end
