(* ===== verification/Initial_Import.thy ===== *)
theory Initial_Import
  imports History
begin

text \<open>
  \<open>runInitialImport\<close> of \<open>internal/cmd/sync.go\<close>: what \<open>gmcli sync\<close> and \<open>gmcli serve\<close> fetch from the phone
  once they are connected. Failures are skipped, as they are in the code, which only logs them.
\<close>

section \<open>The import\<close>

text \<open>The conversations of a folder and the latest messages of each; \<open>E\<close> gives a call tree per position.\<close>

fun import_recent :: "'z phone_calls \<Rightarrow> nat \<Rightarrow> gm_conversation option list \<Rightarrow> 'a host_scheme \<Rightarrow> 'a host_scheme" where
  "import_recent E i [] h = h"
| "import_recent E i (None # cs) h = import_recent E (Suc i) cs h"
| "import_recent E i (Some c # cs) h =
     (if gc_id c = '''' then import_recent E (Suc i) cs h
      else (let F = at E i; nm = status_name (here F);
                h1 = logged (CallFetch (gc_id c) 10 None) (h\<lparr>h_pump := pump_handle (at F 0) nm (EvConversation c) (h_pump h)\<rparr>) in
        import_recent E (Suc i) cs (case ph_fetch (here F) (gc_id c) 10 None of
            Inl t \<Rightarrow> h1
          | Inr (ms, cur) \<Rightarrow> put_db (fst (import_messages (at F 1) nm 0 ms (h_db h1))) h1)))"

definition import_folder :: "'z phone_calls \<Rightarrow> string \<Rightarrow> 'a host_scheme \<Rightarrow> 'a host_scheme" where
  "import_folder E folder h0 = (let h = logged (CallListFolder folder 500) h0 in
     case ph_folder (here E) folder 500 of Inl t \<Rightarrow> h | Inr cs \<Rightarrow> import_recent (at E 0) 0 cs h)"

definition import_phone_contacts :: "'z phone_calls \<Rightarrow> 'a host_scheme \<Rightarrow> 'a host_scheme" where
  "import_phone_contacts E h0 = (let h = logged CallListContacts h0 in
     case ph_contacts (here E) of Inl t \<Rightarrow> h | Inr cs \<Rightarrow> put_db (fst (import_contacts (at E 0) 0 cs (h_db h))) h)"

definition initial_import :: "'z phone_calls \<Rightarrow> 'a host_scheme \<Rightarrow> 'a host_scheme" where
  "initial_import E h = import_folder (at E 2) ''ARCHIVE'' (import_folder (at E 1) ''INBOX'' (import_phone_contacts (at E 0) h))"

section \<open>What it asks of the phone, and what it keeps\<close>

definition listed_ids :: "gm_conversation option list \<Rightarrow> string list" where
  "listed_ids cs = filter (\<lambda>i. i \<noteq> '''') (concat (map (\<lambda>c. case c of None \<Rightarrow> [] | Some x \<Rightarrow> [gc_id x]) cs))"

lemma listed_ids_simps [simp]:
  "listed_ids [] = []" "listed_ids (None # cs) = listed_ids cs"
  "listed_ids (Some c # cs) = (if gc_id c = '''' then [] else [gc_id c]) @ listed_ids cs"
  by (simp_all add: listed_ids_def)

definition fetch_calls :: "gm_conversation option list \<Rightarrow> phone_call list" where
  "fetch_calls cs = map (\<lambda>i. CallFetch i 10 None) (listed_ids cs)"

definition folder_calls :: "'z phone_env_scheme \<Rightarrow> string \<Rightarrow> phone_call list" where
  "folder_calls e folder = CallListFolder folder 500 # (case ph_folder e folder 500 of Inl t \<Rightarrow> [] | Inr cs \<Rightarrow> fetch_calls cs)"

text \<open>A step of the import: it makes these calls, changes nothing but the pump's store, keeps its invariant, the
  freshness, the fatal errors and every message.\<close>

definition import_step :: "phone_call list \<Rightarrow> 'a host_scheme \<Rightarrow> 'a host_scheme \<Rightarrow> bool" where
  "import_step cs h h' \<longleftrightarrow> (\<exists>p. h' = h\<lparr>h_pump := p, h_log := h_log h @ cs\<rparr>) \<and> (db_ok (h_db h) \<longrightarrow> db_ok (h_db h'))
     \<and> sync (h_db h') = sync (h_db h) \<and> p_fatal (h_pump h') = p_fatal (h_pump h)
     \<and> m_id ` set (msgs (h_db h)) \<subseteq> m_id ` set (msgs (h_db h'))"

lemma import_step_refl: "import_step [] h h"
  by (auto simp: import_step_def intro!: exI [of _ "h_pump h"])

lemma import_step_trans: "import_step cs h h1 \<Longrightarrow> import_step ds h1 h2 \<Longrightarrow> import_step (cs @ ds) h h2"
proof -
  assume a: "import_step cs h h1" and b: "import_step ds h1 h2"
  obtain p q where "h1 = h\<lparr>h_pump := p, h_log := h_log h @ cs\<rparr>" "h2 = h1\<lparr>h_pump := q, h_log := h_log h1 @ ds\<rparr>"
    using a b by (auto simp: import_step_def)
  then have "\<exists>p. h2 = h\<lparr>h_pump := p, h_log := h_log h @ (cs @ ds)\<rparr>" by (intro exI [of _ q]) simp
  moreover have "db_ok (h_db h) \<longrightarrow> db_ok (h_db h2)" using a b unfolding import_step_def by blast
  moreover have "sync (h_db h2) = sync (h_db h)" "p_fatal (h_pump h2) = p_fatal (h_pump h)"
    using a b unfolding import_step_def by metis+
  moreover have "m_id ` set (msgs (h_db h)) \<subseteq> m_id ` set (msgs (h_db h2))" using a b unfolding import_step_def by (elim conjE) (rule subset_trans)
  ultimately show ?thesis unfolding import_step_def by blast
qed

lemma import_step_logged: "import_step [c] h (logged c h)"
  by (auto simp: import_step_def logged_def h_db_def intro!: exI [of _ "h_pump h"])

lemma import_step_put:
  "(db_ok (h_db h) \<Longrightarrow> db_ok d) \<Longrightarrow> sync d = sync (h_db h) \<Longrightarrow> m_id ` set (msgs (h_db h)) \<subseteq> m_id ` set (msgs d) \<Longrightarrow>
    import_step [] h (put_db d h)"
  by (auto simp: import_step_def put_db_def h_db_def intro!: exI [of _ "(h_pump h)\<lparr>p_db := d\<rparr>"])

lemma upsert_contact_keeps:
  "upsert_contact e c d = (d', r) \<Longrightarrow> sync d' = sync d \<and> msgs d' = msgs d"
  using upsert_contact_frame [of e c d] by simp

lemma import_contacts_frame: "sync (fst (import_contacts E i cs d)) = sync d \<and> msgs (fst (import_contacts E i cs d)) = msgs d"
proof (induction E i cs d rule: import_contacts.induct)
  case (3 E i c cs d)
  then show ?case by (auto simp: Let_def split: prod.split option.split dest!: upsert_contact_keeps)
qed simp_all

lemma import_messages_sync [simp]: "sync (fst (import_messages E nm i ms d)) = sync d"
  by (induction E nm i ms d rule: import_messages.induct) (simp_all add: Let_def on_message_old)

lemma upsert_participants_msgs [simp]: "msgs (upsert_participants E i ps d) = msgs d"
  by (induction E i ps d rule: upsert_participants.induct) (simp_all add: upsert_participant_def frame_simps)

lemma on_conversation_msgs [simp]: "msgs (on_conversation E c d) = msgs d"
proof -
  have "msgs d' = msgs d" if "upsert_conversation e row d = (d', r)" for e row d' r
    using upsert_conversation_frame [of e row d] that by simp
  then show ?thesis by (auto simp: on_conversation_def split: option.split prod.split)
qed

lemma import_step_conversation: "import_step [] h (h\<lparr>h_pump := pump_handle E nm (EvConversation c) (h_pump h)\<rparr>)"
proof -
  have "h\<lparr>h_pump := pump_handle E nm (EvConversation c) (h_pump h)\<rparr> = put_db (on_conversation E c (h_db h)) h"
    by (simp add: put_db_def h_db_def)
  then show ?thesis by (simp only:) (rule import_step_put; simp add: on_conversation_ok)
qed

lemma import_step_messages: "import_step [] h (put_db (fst (import_messages E nm i ms (h_db h))) h)"
  by (rule import_step_put) (simp_all add: import_messages_ok import_messages_ids)

lemma import_recent_step: "import_step (fetch_calls cs) h (import_recent E i cs h)"
proof (induction E i cs h rule: import_recent.induct)
  case (3 E i c cs h)
  show ?case
  proof (cases "gc_id c = ''''")
    case True
    with "3.IH"(1) show ?thesis by (simp add: fetch_calls_def)
  next
    case False
    let ?F = "at E i" and ?nm = "status_name (here (at E i))"
    let ?h0 = "h\<lparr>h_pump := pump_handle (at ?F 0) ?nm (EvConversation c) (h_pump h)\<rparr>"
    let ?h1 = "logged (CallFetch (gc_id c) 10 None) ?h0"
    let ?h2 = "case ph_fetch (here ?F) (gc_id c) 10 None of Inl t \<Rightarrow> ?h1
      | Inr (ms, cur) \<Rightarrow> put_db (fst (import_messages (at ?F 1) ?nm 0 ms (h_db ?h1))) ?h1"
    have "import_step ([] @ [CallFetch (gc_id c) 10 None]) h ?h1"
      by (rule import_step_trans [OF import_step_conversation import_step_logged])
    moreover have "import_step [] ?h1 ?h2"
    proof (cases "ph_fetch (here ?F) (gc_id c) 10 None")
      case (Inr r)
      obtain ms cur where "r = (ms, cur)" by fastforce
      with Inr show ?thesis by (simp only: sum.case prod.case import_step_messages)
    qed (simp only: sum.case import_step_refl)
    ultimately have "import_step (([] @ [CallFetch (gc_id c) 10 None]) @ []) h ?h2" by (rule import_step_trans)
    from import_step_trans [OF this "3.IH"(2) [OF False refl refl refl]] False show ?thesis
      by (simp add: Let_def fetch_calls_def del: pump_handle.simps)
  qed
qed (simp_all add: import_step_refl fetch_calls_def)

lemma import_folder_step: "import_step (folder_calls (here E) folder) h (import_folder E folder h)"
proof (cases "ph_folder (here E) folder 500")
  case (Inl t)
  then show ?thesis by (simp add: folder_calls_def import_folder_def Let_def import_step_logged)
next
  case (Inr cs)
  with import_step_trans [OF import_step_logged import_recent_step] show ?thesis
    by (auto simp: folder_calls_def import_folder_def Let_def)
qed

lemma import_phone_contacts_step: "import_step [CallListContacts] h (import_phone_contacts E h)"
proof (cases "ph_contacts (here E)")
  case (Inl t)
  then show ?thesis by (simp add: import_phone_contacts_def Let_def import_step_logged)
next
  case (Inr cs)
  let ?h = "logged CallListContacts h"
  have "import_step [] ?h (put_db (fst (import_contacts (at E 0) 0 cs (h_db ?h))) ?h)"
    by (rule import_step_put) (simp_all add: import_contacts_ok import_contacts_frame)
  from import_step_trans [OF import_step_logged this] Inr show ?thesis by (simp add: import_phone_contacts_def Let_def)
qed

definition initial_calls :: "'z phone_calls \<Rightarrow> phone_call list" where
  "initial_calls E = CallListContacts # folder_calls (here (at E 1)) ''INBOX'' @ folder_calls (here (at E 2)) ''ARCHIVE''"

lemma initial_import_step: "import_step (initial_calls E) h (initial_import E h)"
  using import_step_trans [OF import_step_trans [OF import_phone_contacts_step import_folder_step] import_folder_step]
  unfolding initial_import_def initial_calls_def by (fastforce simp: at_def)

section \<open>The property\<close>

text \<open>C24: the initial import asks the phone for its contacts once, for each folder once, and for one page of the
  messages of every listed conversation that has an id, in the order listed, and for nothing else, whatever
  fails; it keeps the store's invariant and every stored message, and moves neither the freshness nor the
  fatal errors.\<close>

theorem initial_import_calls:
  "h_log (initial_import E h) = h_log h @ initial_calls E \<and> h_settings (initial_import E h) = h_settings h
    \<and> (db_ok (h_db h) \<longrightarrow> db_ok (h_db (initial_import E h)))
    \<and> sync (h_db (initial_import E h)) = sync (h_db h) \<and> p_fatal (h_pump (initial_import E h)) = p_fatal (h_pump h)
    \<and> m_id ` set (msgs (h_db h)) \<subseteq> m_id ` set (msgs (h_db (initial_import E h)))"
proof -
  from initial_import_step [of E h] obtain p where "initial_import E h = h\<lparr>h_pump := p, h_log := h_log h @ initial_calls E\<rparr>"
    unfolding import_step_def by blast
  then have "h_log (initial_import E h) = h_log h @ initial_calls E" "h_settings (initial_import E h) = h_settings h" by simp_all
  with initial_import_step [of E h] show ?thesis unfolding import_step_def by blast
qed

theorem initial_import_calls_witness:
  "db_ok (h_db (initial_import (\<lambda>_. quiet_phone 5) (idle_host fresh_db)))
    \<and> h_log (initial_import (\<lambda>_. quiet_phone 5) (idle_host fresh_db))
      = [CallListContacts, CallListFolder ''INBOX'' 500, CallFetch ''c1'' 10 None, CallListFolder ''ARCHIVE'' 500]"
proof -
  let ?E = "\<lambda>_ :: nat list. quiet_phone 5"
  have "initial_calls ?E = [CallListContacts, CallListFolder ''INBOX'' 500, CallFetch ''c1'' 10 None, CallListFolder ''ARCHIVE'' 500]"
    by (simp add: initial_calls_def folder_calls_def fetch_calls_def here_def at_def quiet_phone_def phone_env.defs env.defs
        sample_gm_conversation_def)
  moreover have "db_ok (h_db (idle_host fresh_db))" "h_log (idle_host fresh_db) = []" by (simp_all add: h_db_def idle_host_def)
  ultimately show ?thesis using initial_import_calls [of ?E "idle_host fresh_db"] by simp
qed

end
