(* ===== verification/Daemon.thy ===== *)
theory Daemon
  imports Rpc_Handlers Initial_Import
begin

text \<open>
  The running daemon: the read loop of a connection (\<open>internal/rpc/server.go\<close>), the events the phone
  client fans out, and the main loop of \<open>gmcli serve\<close> (\<open>internal/cmd/serve.go\<close>). Requests, tasks and
  events are handled one at a time here; the interleaving inside the sending path is the subject of
  the theory on live approvals.
\<close>

section \<open>A connection's read loop\<close>

definition max_line_bytes :: nat where
  "max_line_bytes = 4 * 2 ^ 20"

definition drop_cr :: "string \<Rightarrow> string" where
  "drop_cr l = (if l \<noteq> [] \<and> last l = char_of (13::nat) then butlast l else l)"

text \<open>\<open>bufio.Scanner\<close> over lines: the lines before the first that does not fit the buffer.\<close>

definition scan_lines :: "nat \<Rightarrow> string \<Rightarrow> string list" where
  "scan_lines limit input = (let ls = split_char (char_of (10::nat)) input;
       full = (if last ls = [] then butlast ls else ls) in
     map drop_cr (takeWhile (\<lambda>l. length l < limit) full))"

definition handle_line :: "deps \<Rightarrow> 'z rpc_calls \<Rightarrow> nat \<Rightarrow> string \<Rightarrow> server \<Rightarrow> server outcome" where
  "handle_line dp E c line s =
     (if line = '''' then Returns s
      else (case decode_request line of
          None \<Rightarrow> Returns (write_to c (response_json None (Inl (rpc_err code_parse
            (''parse error: '' @ rv_parse_text (here E) line)))) s)
        | Some rq \<Rightarrow>
            if rq_method rq = '''' then Returns (write_to c (response_json (rq_id rq)
              (Inl (rpc_err code_invalid_request ''missing method''))) s)
            else (case dispatch dp E c (rq_method rq) (rq_params rq) s of
                Panics \<Rightarrow> Panics
              | Returns (s', r) \<Rightarrow> Returns (if rq_id rq = None then s' else write_to c (response_json (rq_id rq) r) s'))))"

fun handle_lines :: "deps \<Rightarrow> 'z rpc_calls \<Rightarrow> nat \<Rightarrow> nat \<Rightarrow> string list \<Rightarrow> server \<Rightarrow> server outcome" where
  "handle_lines dp E i c [] s = Returns s"
| "handle_lines dp E i c (l # ls) s = (case handle_line dp (at E i) c l s of
     Panics \<Rightarrow> Panics | Returns s' \<Rightarrow> handle_lines dp E (Suc i) c ls s')"

definition run_conn :: "deps \<Rightarrow> 'z rpc_calls \<Rightarrow> nat \<Rightarrow> string \<Rightarrow> server \<Rightarrow> server outcome" where
  "run_conn dp E c input s = (case handle_lines dp E 0 c (scan_lines max_line_bytes input) s of
     Panics \<Rightarrow> Panics | Returns s' \<Rightarrow> Returns (drop_conn dp c s'))"

section \<open>The phone's events\<close>

text \<open>The client's own part of \<open>dispatch\<close>, then its subscribers: the pump, then the broadcaster.\<close>

definition client_event :: "deps \<Rightarrow> 'z rpc_env_scheme \<Rightarrow> gm_event \<Rightarrow> server \<Rightarrow> server" where
  "client_event dp e ev s = (case ev of
     AuthTokenRefreshed \<Rightarrow> s\<lparr>sv_files := fst (save_auth (rv_pair e) (dp_session dp) (sv_files s))\<rparr>
   | PairSuccessful \<Rightarrow> s\<lparr>sv_files := fst (save_auth (rv_pair e) (dp_session dp) (sv_files s))\<rparr>
   | EvSettings sims \<Rightarrow> s\<lparr>h_settings := Some sims\<rparr>
   | _ \<Rightarrow> s)"

definition phone_event :: "deps \<Rightarrow> 'z rpc_calls \<Rightarrow> gm_event \<Rightarrow> server \<Rightarrow> server" where
  "phone_event dp E ev s = (let s1 = client_event dp (here E) ev s;
       s2 = s1\<lparr>h_pump := pump_handle (at E 0) (status_name (here E)) ev (h_pump s1)\<rparr> in
     handle_gm_event (here E) ev s2)"

section \<open>gmcli serve\<close>

text \<open>The send mode: read-only unless told otherwise or started on demand, then the policy flag.\<close>

definition serve_read_only :: "bool \<Rightarrow> bool option \<Rightarrow> bool" where
  "serve_read_only auto flag = (case flag of Some b \<Rightarrow> b | None \<Rightarrow> \<not> auto)"

definition serve_idle_exit :: "bool \<Rightarrow> int option \<Rightarrow> int" where
  "serve_idle_exit auto flag = (case flag of Some d \<Rightarrow> d | None \<Rightarrow> if auto then 600000 else 0)"

definition serve_mode :: "'u unicode_scheme \<Rightarrow> bool \<Rightarrow> string \<Rightarrow> string + string" where
  "serve_mode u read_only policy = (if read_only then Inr send_off
     else if policy = ''approve'' then Inr send_approve
     else if policy = ''direct'' then Inr send_direct
     else Inl (''--sends must be approve or direct, got '' @ go_quote u policy))"

text \<open>One turn of the main loop; \<open>listening\<close> is whether the fatal channel is still selected on, and an
  outcome ends the daemon.\<close>

datatype wake = WakeCancelled | WakeFatal | WakeServer "err option" | WakeShutdown | WakeIdle | WakeHeartbeat

definition take_fatal :: "server \<Rightarrow> server" where
  "take_fatal s = s\<lparr>h_pump := (h_pump s)\<lparr>p_fatal := tl (p_fatal (h_pump s))\<rparr>\<rparr>"

definition serve_turn :: "'z rpc_env_scheme \<Rightarrow> wake \<Rightarrow> bool \<Rightarrow> server \<Rightarrow> server \<times> bool \<times> err option option" where
  "serve_turn e w listening s = (case w of
     WakeCancelled \<Rightarrow> (s, listening, Some None)
   | WakeFatal \<Rightarrow> (case p_fatal (h_pump s) of
       [] \<Rightarrow> (s, listening, None)
     | err # _ \<Rightarrow> if err_is err err_logged_out
         then (logged CallDisconnect (broadcast event_sync_status (state_json ''logged_out'')
             (mark_auth_expired (take_fatal s))), False, None)
         else (take_fatal s, listening, Some (Some err)))
   | WakeServer r \<Rightarrow> (s, listening, Some (map_option (Wrap ''rpc server'') r))
   | WakeShutdown \<Rightarrow> (s, listening, Some None)
   | WakeIdle \<Rightarrow> (s, listening, Some None)
   | WakeHeartbeat \<Rightarrow> (put_db (fst (touch_sync e (h_db s))) s, listening, None))"

text \<open>When the select may take a branch.\<close>

definition may_wake :: "wake \<Rightarrow> bool \<Rightarrow> server \<Rightarrow> bool" where
  "may_wake w listening s = (case w of
     WakeFatal \<Rightarrow> listening \<and> p_fatal (h_pump s) \<noteq> []
   | WakeShutdown \<Rightarrow> sv_shutdown s
   | WakeIdle \<Rightarrow> sv_idle_fired s
   | _ \<Rightarrow> True)"

section \<open>Steps\<close>

text \<open>The import at start-up, which runs while clients already connect, and the broadcast that ends it.\<close>

definition startup_import :: "'z rpc_calls \<Rightarrow> server \<Rightarrow> server" where
  "startup_import E s = broadcast event_sync_status (state_json ''refreshed'') (initial_import E s)"

datatype daemon_event =
    Connects nat
  | Sends nat string
  | Leaves nat
  | TimerFires
  | PhoneSays gm_event
  | TaskRuns nat
  | Imports
  | ConnectFails string
  | Wakes wake

text \<open>\<open>Running s listening\<close> while the daemon serves, \<open>Exited\<close> with the error it returned, \<open>Crashed\<close> when a
  handler panicked.\<close>

datatype daemon = Running server bool | Exited server "err option" | Crashed

definition take_task :: "nat \<Rightarrow> server \<Rightarrow> server" where
  "take_task k s = s\<lparr>sv_tasks := take k (sv_tasks s) @ drop (Suc k) (sv_tasks s)\<rparr>"

definition conn_open :: "nat \<Rightarrow> server \<Rightarrow> bool" where
  "conn_open i s \<longleftrightarrow> i \<in> cn_id ` set (sv_conns s)"

text \<open>A request runs in a goroutine of its own, which may outlive its connection.\<close>

definition conn_known :: "nat \<Rightarrow> server \<Rightarrow> bool" where
  "conn_known i s \<longleftrightarrow> i \<in> cn_id ` set (sv_conns s @ sv_closed s)"

inductive daemon_step :: "deps \<Rightarrow> unit rpc_calls \<Rightarrow> daemon_event \<Rightarrow> daemon \<Rightarrow> daemon \<Rightarrow> bool" for dp E where
  connects: "i \<notin> cn_id ` set (sv_conns s @ sv_closed s) \<Longrightarrow>
    daemon_step dp E (Connects i) (Running s l) (Running (accept_conn i s) l)"
| line_ok: "conn_known i s \<Longrightarrow> handle_line dp E i line s = Returns s' \<Longrightarrow>
    daemon_step dp E (Sends i line) (Running s l) (Running s' l)"
| line_crash: "conn_known i s \<Longrightarrow> handle_line dp E i line s = Panics \<Longrightarrow>
    daemon_step dp E (Sends i line) (Running s l) Crashed"
| leaves: "conn_open i s \<Longrightarrow> daemon_step dp E (Leaves i) (Running s l) (Running (drop_conn dp i s) l)"
| timer: "sv_timer s \<Longrightarrow> daemon_step dp E TimerFires (Running s l) (Running (timer_fires s) l)"
| phone: "dp_client dp \<Longrightarrow> daemon_step dp E (PhoneSays ev) (Running s l) (Running (phone_event dp E ev s) l)"
| task: "k < length (sv_tasks s) \<Longrightarrow>
    daemon_step dp E (TaskRuns k) (Running s l) (Running (run_task dp E (sv_tasks s ! k) (take_task k s)) l)"
| import_runs: "dp_client dp \<Longrightarrow> daemon_step dp E Imports (Running s l) (Running (startup_import E s) l)"
| connect_fails: "dp_client dp \<Longrightarrow> daemon_step dp E (ConnectFails t) (Running s l) (Exited s (Some (Wrap ''connect'' (Driver t))))"
| turn: "may_wake w l s \<Longrightarrow> serve_turn (here E) w l s = (s', l', None) \<Longrightarrow>
    daemon_step dp E (Wakes w) (Running s l) (Running s' l')"
| exit: "may_wake w l s \<Longrightarrow> serve_turn (here E) w l s = (s', l', Some r) \<Longrightarrow>
    daemon_step dp E (Wakes w) (Running s l) (Exited s' r)"

inductive_cases running_step: "daemon_step dp E ev (Running s l) d'"

text \<open>The daemon starts with an opened store, an empty log, and a client exactly when it has a pump.\<close>

inductive daemon_reach :: "deps \<Rightarrow> daemon \<Rightarrow> bool" for dp where
  start: "db_ok (h_db h) \<Longrightarrow> h_log h = [] \<Longrightarrow> p_fatal (h_pump h) = [] \<Longrightarrow> dp_pump dp = dp_client dp \<Longrightarrow>
    daemon_reach dp (Running (new_server dp h fs) (dp_pump dp))"
| step: "daemon_reach dp d \<Longrightarrow> daemon_step (new_deps dp) E ev d d' \<Longrightarrow> daemon_reach dp d'"

end
