(* ===== verification/Daemon_Safety.thy ===== *)
theory Daemon_Safety
  imports Daemon "HOL-Library.Sublist"
begin

text \<open>
  What every step of the daemon keeps: the store's invariant, the connections and what was written to
  them, silence of a read-only daemon, and that an offline daemon never turns to the phone.
\<close>

section \<open>Quiet calls\<close>

text \<open>Calls that change nothing on the phone's side: no message and no reaction.\<close>

definition quiet :: "phone_call list \<Rightarrow> bool" where
  "quiet = list_all (\<lambda>c. case c of CallSend r \<Rightarrow> False | CallReact a b n \<Rightarrow> False | _ \<Rightarrow> True)"

lemma quiet_simps [simp]:
  "quiet []" "quiet (xs @ ys) \<longleftrightarrow> quiet xs \<and> quiet ys" "quiet (CallGetConversation t # xs) = quiet xs"
  "quiet (CallDownload t # xs) = quiet xs" "quiet (CallFetch t k c # xs) = quiet xs" "quiet (CallGetOrCreate t # xs) = quiet xs"
  "quiet (CallListConversations k # xs) = quiet xs" "quiet (CallDisconnect # xs) = quiet xs"
  "quiet (CallListFolder t k # xs) = quiet xs" "quiet (CallListContacts # xs) = quiet xs"
  "\<not> quiet (CallSend r # xs)" "\<not> quiet (CallReact t u k # xs)"
  by (simp_all add: quiet_def)

section \<open>Operations that change only the host part\<close>

definition host_only :: "'a host_scheme \<Rightarrow> 'a host_scheme \<Rightarrow> bool" where
  "host_only h h' \<longleftrightarrow> (\<exists>p st l. h' = h\<lparr>h_pump := p, h_settings := st, h_log := l\<rparr>)"

lemma host_onlyI: "h' = h\<lparr>h_pump := p, h_settings := st, h_log := l\<rparr> \<Longrightarrow> host_only h h'"
  unfolding host_only_def by blast

lemma host_only_refl [simp]: "host_only h h"
  by (rule host_onlyI [where p = "h_pump h" and st = "h_settings h" and l = "h_log h"]) simp

lemma host_only_trans [trans]: "host_only a b \<Longrightarrow> host_only b c \<Longrightarrow> host_only a c"
  unfolding host_only_def by force

lemma host_only_logged [simp]: "host_only h (logged c h)"
  by (rule host_onlyI [where p = "h_pump h" and st = "h_settings h" and l = "h_log h @ [c]"]) (simp add: logged_def)

lemma host_only_put [simp]: "host_only h (put_db d h)"
  by (rule host_onlyI [where p = "(h_pump h)\<lparr>p_db := d\<rparr>" and st = "h_settings h" and l = "h_log h"]) (simp add: put_db_def)

lemma host_only_settings [simp]: "host_only h (h\<lparr>h_settings := st\<rparr>)"
  by (rule host_onlyI [where p = "h_pump h" and st = st and l = "h_log h"]) simp

lemma host_only_server:
  assumes "host_only s (s' :: server)"
  shows "sv_conns s' = sv_conns s" "sv_closed s' = sv_closed s" "sv_tasks s' = sv_tasks s" "sv_pairing s' = sv_pairing s"
    "sv_files s' = sv_files s" "sv_shutdown s' = sv_shutdown s" "sv_auth_expired s' = sv_auth_expired s"
    "sv_last_refresh s' = sv_last_refresh s" "sv_timer s' = sv_timer s" "sv_idle_fired s' = sv_idle_fired s"
  using assms by (auto simp: host_only_def)

text \<open>Calls that prepare for a message and then send it once.\<close>

definition sent_as :: "string \<Rightarrow> string \<Rightarrow> string \<Rightarrow> phone_call list \<Rightarrow> bool" where
  "sent_as conv body reply cs \<longleftrightarrow> (\<exists>before req. cs = before @ [CallSend req] \<and> quiet before \<and> sr_conv req = conv
     \<and> sr_body req = body \<and> sr_reply req = (if reply = '''' then None else Some reply))"

lemma quiet_none: "quiet cs \<Longrightarrow> sends cs = [] \<and> CallReact mid emoji act \<notin> set cs"
  by (induction cs) (auto simp: quiet_def split: phone_call.splits)

lemma sent_as_sends: "sent_as conv body reply cs \<Longrightarrow> \<exists>req. sends cs = [req] \<and> sr_conv req = conv \<and> sr_body req = body"
  by (auto simp: sent_as_def dest: quiet_none)

lemma send_text_calls:
  assumes "send_text e cid body reply h = (h', r)"
  shows "host_only h h' \<and> h_db h' = h_db h
    \<and> (\<exists>cs. h_log h' = h_log h @ cs \<and> (quiet cs \<and> (\<exists>err. r = Inl err) \<or> sent_as cid body reply cs))"
proof (cases "cid = '''' \<or> body = ''''")
  case True
  with assms show ?thesis by (auto simp: send_text_def split: if_splits)
next
  case False
  obtain h1 w where w: "wait_for_settings e h = (h1, w)" by fastforce
  then have h1: "host_only h h1" "h_db h1 = h_db h" "h_log h1 = h_log h"
    by (auto simp: wait_for_settings_def split: option.splits sum.splits)
  obtain h2 b where b: "build_send_text_request e cid body reply (ph_uuid e) h1 = (h2, b)" by fastforce
  then have h2: "h2 = logged (CallGetConversation cid) h1" and req: "\<And>q. b = Inr q \<Longrightarrow> sr_conv q = cid \<and> sr_body q = body
      \<and> sr_reply q = (if reply = '''' then None else Some reply)"
    by (auto simp: build_send_text_request_def Let_def split: sum.splits if_splits option.splits)
  have host: "host_only h h2" "host_only h (logged c h2)" for c
    using host_only_trans [OF h1(1) host_only_logged] host_only_trans [OF host_only_trans [OF h1(1) host_only_logged] host_only_logged]
    by (simp_all add: h2)
  consider "h' = h1" "\<exists>err. r = Inl err" | "h' = h2" "\<exists>err. r = Inl err" | q where "b = Inr q" "h' = logged (CallSend q) h2"
    using assms False w b by (auto simp: send_text_def Let_def split: option.splits sum.splits if_splits)
  then show ?thesis
  proof cases
    case 1
    with h1 show ?thesis by simp
  next
    case 2
    with h1 host(1) show ?thesis by (simp add: h2)
  next
    case 3
    with req have "sent_as cid body reply [CallGetConversation cid, CallSend q]"
      by (auto simp: sent_as_def intro!: exI [of _ "[CallGetConversation cid]"])
    with 3 h1 host(2) show ?thesis by (simp add: h2)
  qed
qed

lemma send_text_effect:
  assumes "send_text e cid body reply h = (h', r)"
  shows "host_only h h' \<and> h_db h' = h_db h \<and> (\<exists>cs. h_log h' = h_log h @ cs
    \<and> (sends cs = [] \<or> (\<exists>req. sends cs = [req] \<and> sr_conv req = cid \<and> sr_body req = body)))"
  using send_text_calls [OF assms] quiet_none sent_as_sends by blast

lemma send_text_host: "send_text e cid body reply h = (h', r) \<Longrightarrow> host_only h h'"
  using send_text_effect by blast

lemma send_reaction_host: "send_reaction e mid emoji act h = (h', r) \<Longrightarrow> host_only h h'"
  by (auto simp: send_reaction_def split: if_splits)

lemma download_media_host: "download_media e mid key h = (h', r) \<Longrightarrow> host_only h h'"
  by (auto simp: download_media_def split: if_splits)

text \<open>Host operations whose calls are quiet.\<close>

definition quiet_host :: "'a host_scheme \<Rightarrow> 'a host_scheme \<Rightarrow> bool" where
  "quiet_host h h' \<longleftrightarrow> host_only h h' \<and> (\<exists>cs. h_log h' = h_log h @ cs \<and> quiet cs)"

lemma quiet_refl [simp]: "quiet_host h h"
  by (simp add: quiet_host_def)

lemma quiet_trans [trans]: "quiet_host a b \<Longrightarrow> quiet_host b c \<Longrightarrow> quiet_host a c"
  unfolding quiet_host_def using host_only_trans by fastforce

lemma quiet_logged [simp]: "quiet [c] \<Longrightarrow> quiet_host h (logged c h)"
  by (simp add: quiet_host_def)

lemma quiet_put [simp]: "quiet_host h (put_db d h)"
  by (simp add: quiet_host_def)

lemma quiet_logged_put [simp]: "quiet [c] \<Longrightarrow> quiet_host h (put_db d (logged c h))"
  using quiet_trans [OF quiet_logged quiet_put] .

lemma backfill_loop_host: "backfill_loop E chat n left cur res h = (h', res', err) \<Longrightarrow> quiet_host h h'"
proof (induction E chat n left cur res h arbitrary: h' res' err rule: backfill_loop.induct)
  case (2 E chat n left cur res h)
  show ?case
  proof (cases "ctx_err (here (at E left))")
    case (Some t)
    with "2.prems" show ?thesis by (simp add: Let_def)
  next
    case None
    show ?thesis
    proof (cases "ph_fetch (here (at E left)) chat n cur")
      case (Inl t)
      with "2.prems" None show ?thesis by (auto simp: Let_def)
    next
      case (Inr r)
      obtain ms nx where r: "r = (ms, nx)" by fastforce
      let ?h1 = "logged (CallFetch chat n cur) h"
      obtain d2 k where imp: "import_messages (at (at E left) 0) (status_name (here (at E left))) 0 ms (h_db ?h1) = (d2, k)"
        by fastforce
      have h2: "quiet_host h (put_db d2 ?h1)" by simp
      show ?thesis
      proof (cases "ms = [] \<or> same_cursor cur nx")
        case True
        with "2.prems" None Inr r imp h2 show ?thesis by (auto simp: Let_def)
      next
        case False
        with "2.prems" None Inr r imp have "quiet_host (put_db d2 ?h1) h'"
          by (intro "2.IH" [OF refl None refl Inr [unfolded r] refl imp [symmetric] refl refl refl False]) (simp add: Let_def)
        with h2 show ?thesis by (rule quiet_trans)
      qed
    qed
  qed
qed simp

lemma backfill_effect:
  assumes "backfill E chat n k h = (h', res, err)"
  shows "quiet_host h h' \<and> (db_ok (h_db h) \<longrightarrow> db_ok (h_db h'))"
proof (cases "oldest_cursor (here (at E 0)) chat (h_db h)")
  case (Inl e)
  with assms show ?thesis by (simp add: backfill_def)
next
  case cur: (Inr cur)
  show ?thesis
  proof (cases "count_messages_conv (here (at E 1)) chat (h_db h)")
    case (Inl e)
    with assms cur show ?thesis by (simp add: backfill_def)
  next
    case (Inr before)
    obtain h1 res1 err1 where loop: "backfill_loop (at E 2) chat (if k \<le> 0 then 50 else k) (nat (if n \<le> 0 then 10 else n)) cur
        (empty_backfill\<lparr>bf_conv := chat, bf_count := (if k \<le> 0 then 50 else k), bf_before := int before\<rparr>) h = (h1, res1, err1)"
      by (rule prod_cases3)
    have "h' = h1"
      using assms cur Inr loop by (auto simp: backfill_def Let_def split: option.splits sum.splits)
    with backfill_loop_host [OF loop] backfill_loop_ok [OF loop] show ?thesis by (simp add: backfill_ok_def)
  qed
qed

lemmas backfill_host = backfill_effect [THEN conjunct1]

lemma lookup_host: "lookup_conversation E phone h = (h', r) \<Longrightarrow> quiet_host h h'"
  by (auto simp: lookup_conversation_def Let_def split: sum.splits option.splits)

section \<open>What a step keeps\<close>

definition conn_grows :: "conn \<Rightarrow> conn \<Rightarrow> bool" where
  "conn_grows c c' \<longleftrightarrow> cn_id c' = cn_id c \<and> (cn_subscribed c \<longrightarrow> cn_subscribed c') \<and> prefix (cn_out c) (cn_out c')"

definition step_ok :: "deps \<Rightarrow> server \<Rightarrow> server \<Rightarrow> bool" where
  "step_ok dp s s' \<longleftrightarrow> (db_ok (h_db s) \<longrightarrow> db_ok (h_db s'))
     \<and> list_all2 conn_grows (sv_conns s) (sv_conns s') \<and> sv_closed s' = sv_closed s
     \<and> (\<exists>cs. h_log s' = h_log s @ cs \<and> (dp_client dp \<or> cs = []) \<and> (dp_mode dp \<noteq> send_off \<or> quiet cs))"

lemma conn_grows_refl [simp]: "conn_grows c c"
  by (simp add: conn_grows_def)

lemma conn_grows_trans: "conn_grows a b \<Longrightarrow> conn_grows b c \<Longrightarrow> conn_grows a c"
  by (auto simp: conn_grows_def intro: prefix_order.trans)

lemma conns_refl [simp]: "list_all2 conn_grows cs cs"
  by (simp add: list_all2_same)

lemma conns_map: "(\<And>c. conn_grows c (f c)) \<Longrightarrow> list_all2 conn_grows cs (map f cs)"
  by (induction cs) simp_all

lemma step_ok_refl [simp]: "step_ok dp s s"
  by (simp add: step_ok_def)

lemma step_ok_trans [trans]: "step_ok dp a b \<Longrightarrow> step_ok dp b c \<Longrightarrow> step_ok dp a c"
  by (auto simp: step_ok_def intro: list_all2_trans [OF conn_grows_trans])

text \<open>A step of the server's own fields, the connections growing.\<close>

lemma step_ok_server:
  "h_db s' = h_db s \<Longrightarrow> h_log s' = h_log s \<Longrightarrow> sv_closed s' = sv_closed s \<Longrightarrow>
    list_all2 conn_grows (sv_conns s) (sv_conns s') \<Longrightarrow> step_ok dp s s'"
  by (simp add: step_ok_def)

text \<open>A step of the host's part.\<close>

lemma step_ok_host:
  "host_only s s' \<Longrightarrow> (db_ok (h_db s) \<Longrightarrow> db_ok (h_db s')) \<Longrightarrow> h_log s' = h_log s @ cs \<Longrightarrow>
    dp_client dp \<or> cs = [] \<Longrightarrow> dp_mode dp \<noteq> send_off \<or> quiet cs \<Longrightarrow> step_ok dp s s'"
  using host_only_server(1,2) [of s s'] by (auto simp: step_ok_def)

lemma write_conn_grows: "conn_grows c (write_conn v c)"
  by (simp add: conn_grows_def write_conn_def)

lemma server_fields [simp]:
  "h_db (s\<lparr>sv_conns := a\<rparr>) = h_db s" "h_db (s\<lparr>sv_closed := a\<rparr>) = h_db s" "h_db (s\<lparr>sv_timer := b\<rparr>) = h_db s"
  "h_db (s\<lparr>sv_idle_fired := b\<rparr>) = h_db s" "h_db (s\<lparr>sv_last_refresh := i\<rparr>) = h_db s" "h_db (s\<lparr>sv_auth_expired := b\<rparr>) = h_db s"
  "h_db (s\<lparr>sv_shutdown := b\<rparr>) = h_db s" "h_db (s\<lparr>sv_pairing := b\<rparr>) = h_db s" "h_db (s\<lparr>sv_tasks := t\<rparr>) = h_db s"
  "h_db (s\<lparr>sv_files := f\<rparr>) = h_db s"
  by (simp_all add: h_db_def)

lemma broadcast_frame [simp]:
  "h_db (broadcast t v s) = h_db s" "h_log (broadcast t v s) = h_log s" "sv_closed (broadcast t v s) = sv_closed s"
  "sv_tasks (broadcast t v s) = sv_tasks s" "sv_pairing (broadcast t v s) = sv_pairing s" "h_settings (broadcast t v s) = h_settings s"
  "sv_files (broadcast t v s) = sv_files s" "sv_shutdown (broadcast t v s) = sv_shutdown s" "h_pump (broadcast t v s) = h_pump s"
  by (simp_all add: broadcast_def h_db_def)

lemma write_frame [simp]:
  "h_db (write_to i v s) = h_db s" "h_log (write_to i v s) = h_log s" "sv_closed (write_to i v s) = sv_closed s"
  "sv_tasks (write_to i v s) = sv_tasks s" "sv_pairing (write_to i v s) = sv_pairing s"
  by (simp_all add: write_to_def h_db_def)

lemma broadcast_ok [simp]: "step_ok dp s (broadcast t v s)"
  by (rule step_ok_server) (simp_all add: broadcast_def write_conn_grows conns_map)

lemma write_ok [simp]: "step_ok dp s (write_to i v s)"
  by (rule step_ok_server) (simp_all add: write_to_def write_conn_grows conns_map)

lemma subscribe_ok [simp]: "step_ok dp s (subscribe_conn i s)"
  by (rule step_ok_server) (simp_all add: subscribe_conn_def conns_map conn_grows_def)

lemma put_ok: "(db_ok (h_db s) \<Longrightarrow> db_ok d) \<Longrightarrow> step_ok dp s (put_db d s)"
  by (rule step_ok_host [where cs = "[]"]) simp_all

lemma logged_ok: "dp_client dp \<Longrightarrow> quiet [c] \<Longrightarrow> step_ok dp s (logged c s)"
  by (rule step_ok_host [where cs = "[c]"]) simp_all

section \<open>The handlers\<close>

lemma send_text_ok:
  assumes "send_text e cid body reply s = (s', r)" and "dp_client dp" and "dp_mode dp \<noteq> send_off"
  shows "step_ok dp s s'"
proof -
  from send_text_effect [OF assms(1)] obtain cs where "h_db s' = h_db s" "h_log s' = h_log s @ cs" by auto
  then show ?thesis using send_text_host [OF assms(1)] assms(2,3) by (intro step_ok_host) simp_all
qed

lemma quiet_step_ok:
  "quiet_host s s' \<Longrightarrow> dp_client dp \<Longrightarrow> (db_ok (h_db s) \<Longrightarrow> db_ok (h_db s')) \<Longrightarrow> step_ok dp s s'"
  by (auto simp: quiet_host_def intro: step_ok_host)

lemma backfill_step_ok:
  assumes "backfill E chat n k s = (s', res, err)" and "dp_client dp"
  shows "step_ok dp s s'"
  using backfill_effect [OF assms(1)] by (intro quiet_step_ok [OF backfill_host [OF assms(1)] assms(2)]) blast

text \<open>The store's operations as they are called: with their results bound.\<close>

lemma ok_result: "db_ok (fst p) \<Longrightarrow> p = (d', r) \<Longrightarrow> db_ok d'"
  by simp

lemmas db_results = ok_result [OF set_alias_ok] ok_result [OF remove_alias_ok] ok_result [OF create_approval_ok]
  ok_result [OF resolve_approval_ok]

lemma alias_set_ok: "handle_alias_set E params s = (s', r) \<Longrightarrow> step_ok dp s s'"
  by (auto simp: handle_alias_set_def Let_def split: sum.splits if_splits prod.splits option.splits intro!: put_ok
      intro: db_results)

lemma alias_rm_ok: "handle_alias_rm E params s = (s', r) \<Longrightarrow> step_ok dp s s'"
  by (auto simp: handle_alias_rm_def Let_def split: sum.splits if_splits prod.splits option.splits intro!: put_ok
      intro: db_results)

lemma files_ok [simp]: "step_ok dp s (s\<lparr>sv_files := f\<rparr>)" "step_ok dp s (s\<lparr>sv_tasks := t\<rparr>)" "step_ok dp s (s\<lparr>sv_pairing := b\<rparr>)"
  "step_ok dp s (s\<lparr>sv_auth_expired := b\<rparr>)" "step_ok dp s (request_shutdown s)" "step_ok dp s (mark_auth_expired s)"
  "step_ok dp s (s\<lparr>sv_last_refresh := i\<rparr>)" "step_ok dp s (s\<lparr>sv_timer := b\<rparr>)" "step_ok dp s (timer_fires s)"
  by (rule step_ok_server; simp add: request_shutdown_def mark_auth_expired_def timer_fires_def h_db_def)+

lemma download_ok:
  assumes "download_media e mid key s = (s', r)" and "dp_client dp"
  shows "step_ok dp s s'"
  using assms by (auto simp: download_media_def intro: logged_ok split: if_splits)

lemma download_files_ok:
  "download_media e mid key s = (s', r) \<Longrightarrow> dp_client dp \<Longrightarrow> step_ok dp s (s'\<lparr>sv_files := f\<rparr>)"
  by (rule step_ok_trans [OF download_ok files_ok(1)])

lemma media_ok: "handle_media_download dp E params s = (s', r) \<Longrightarrow> step_ok dp s s'"
  unfolding handle_media_download_def Let_def
  by (auto split: sum.splits if_splits prod.splits option.splits intro: download_ok download_files_ok)

lemma react_ok:
  assumes "handle_send_react dp E params s = (s', r)"
  shows "step_ok dp s s'"
proof -
  have "s' = s \<or> dp_client dp \<and> dp_mode dp \<noteq> send_off \<and> (\<exists>c. s' = logged c s)"
    using assms by (auto simp: handle_send_react_def Let_def send_reaction_def split: sum.splits if_splits prod.splits option.splits)
  then show ?thesis by (auto intro!: step_ok_host)
qed

lemma refresh_handler_ok: "handle_sync_refresh dp e s = (s', r) \<Longrightarrow> step_ok dp s s'"
  by (auto simp: handle_sync_refresh_def split: if_splits intro: step_ok_server)

lemma start_pairing_ok:
  assumes "start_pairing dp t s = (s', r)"
  shows "step_ok dp s s'"
proof (cases "sv_pairing s")
  case True
  with assms show ?thesis by (simp add: start_pairing_def)
next
  case False
  let ?s1 = "s\<lparr>sv_pairing := True\<rparr>"
  let ?s2 = "if dp_client dp then logged CallDisconnect ?s1 else ?s1"
  have "step_ok dp s ?s1" by simp
  also have "step_ok dp ?s1 ?s2" using logged_ok [of dp CallDisconnect ?s1] by simp
  also have "step_ok dp ?s2 s'" using assms False by (auto simp: start_pairing_def Let_def)
  finally show ?thesis .
qed

lemma pair_handler_ok: "handle_auth_pair dp s = (s', r) \<Longrightarrow> step_ok dp s s'"
  by (auto simp: handle_auth_pair_def split: if_splits intro: start_pairing_ok)

lemma pair_google_handler_ok: "handle_auth_pair_google dp e params s = Returns (s', r) \<Longrightarrow> step_ok dp s s'"
  by (auto simp: handle_auth_pair_google_def split: if_splits sum.splits outcome.splits intro: start_pairing_ok)

lemma history_backfill_ok: "handle_history_backfill dp E params s = (s', r) \<Longrightarrow> step_ok dp s s'"
  by (auto simp: handle_history_backfill_def split: if_splits sum.splits prod.splits option.splits intro: backfill_step_ok)

lemma lookup_db: "lookup_conversation E phone h = (h', r) \<Longrightarrow> db_ok (h_db h) \<Longrightarrow> db_ok (h_db h')"
  by (auto simp: lookup_conversation_def Let_def on_conversation_ok split: sum.splits option.splits)

lemma lookup_ok: "lookup_conversation E phone s = (s', r) \<Longrightarrow> dp_client dp \<Longrightarrow> step_ok dp s s'"
  by (rule quiet_step_ok [OF lookup_host _ lookup_db])

lemma history_lookup_ok: "handle_history_lookup dp E params s = (s', r) \<Longrightarrow> step_ok dp s s'"
  by (auto simp: handle_history_lookup_def split: if_splits sum.splits prod.splits option.splits
      intro: lookup_ok step_ok_trans [OF lookup_ok backfill_step_ok])

lemma broadcast_put_ok: "step_ok dp s (put_db d s1) \<Longrightarrow> step_ok dp s (broadcast t v (put_db d s1))"
  by (rule step_ok_trans [OF _ broadcast_ok])

lemma sent_resolved_ok:
  assumes "send_text e cid b re s = (s1, sent)" and "resolve_approval f i st er mid (h_db s1) = (d, x)"
    and "dp_client dp" and "dp_mode dp \<noteq> send_off"
  shows "step_ok dp s (put_db d s1)"
  by (rule step_ok_trans [OF send_text_ok [OF assms(1,3,4)] put_ok [OF db_results(4) [OF _ assms(2)]]])

lemma perform_ok:
  "perform_approved_send dp E a s = (s', r) \<Longrightarrow> dp_mode dp \<noteq> send_off \<Longrightarrow> step_ok dp s s'"
  unfolding perform_approved_send_def
  by (auto split: sum.splits if_splits prod.splits option.splits intro: sent_resolved_ok broadcast_put_ok)

lemma created_ok: "create_approval e a (h_db s) = (d, x) \<Longrightarrow> step_ok dp s (put_db d s)"
  by (rule put_ok) (rule db_results(3))

lemma send_text_handler_ok: "handle_send_text dp E params s = (s', r) \<Longrightarrow> step_ok dp s s'"
  unfolding handle_send_text_def
  by (auto split: sum.splits if_splits prod.splits option.splits
      intro: created_ok broadcast_put_ok step_ok_trans [OF created_ok perform_ok])

lemma approve_handler_ok: "handle_approvals_approve dp E params s = (s', r) \<Longrightarrow> step_ok dp s s'"
  by (auto simp: handle_approvals_approve_def Let_def split: if_splits sum.splits intro: perform_ok)

lemma resolved_ok: "resolve_approval e i st er m (h_db s) = (d, x) \<Longrightarrow> step_ok dp s (put_db d s)"
  by (rule put_ok) (rule db_results(4))

lemma deny_handler_ok: "handle_approvals_deny E params s = (s', r) \<Longrightarrow> step_ok dp s s'"
  unfolding handle_approvals_deny_def Let_def
  by (auto split: sum.splits if_splits prod.splits option.splits intro: resolved_ok broadcast_put_ok)

lemma dispatch_ok:
  assumes "dispatch dp E c m params s = Returns (s', r)"
  shows "step_ok dp s s'"
  using assms unfolding dispatch_def Let_def
  by (auto split: if_splits intro: refresh_handler_ok pair_handler_ok pair_google_handler_ok media_ok alias_set_ok alias_rm_ok
      react_ok history_backfill_ok history_lookup_ok send_text_handler_ok approve_handler_ok deny_handler_ok)

lemma handle_line_ok:
  assumes "handle_line dp E c line s = Returns s'"
  shows "step_ok dp s s'"
  using assms unfolding handle_line_def
  by (auto split: if_splits option.splits outcome.splits prod.splits intro: dispatch_ok step_ok_trans [OF dispatch_ok write_ok])

section \<open>Tasks, events, the main loop\<close>

lemma pump_ok_step:
  "db_ok (h_db s) \<Longrightarrow> db_ok (p_db (pump_handle E nm ev (h_pump s)))"
  by (cases ev) (simp_all add: h_db_def on_client_ready_def pump_touch_ok apply_snapshot_ok on_conversation_ok on_message_ok pump_fail_def)

lemma set_pump_ok:
  "(db_ok (h_db s) \<Longrightarrow> db_ok (p_db p)) \<Longrightarrow> step_ok dp s (s\<lparr>h_pump := p\<rparr>)"
  by (simp add: step_ok_def h_db_def)

lemma refresh_all_ok: "dp_client dp \<Longrightarrow> step_ok dp s (refresh_all E i k cs s)"
proof (induction E i k cs s rule: refresh_all.induct)
  case (3 E i k c cs s)
  show ?case
  proof (cases "gc_id c = ''''")
    case True
    with 3 show ?thesis by simp
  next
    case False
    let ?nm = "status_name (here (at E i))"
    let ?s1 = "s\<lparr>h_pump := pump_handle (at (at E i) 0) ?nm (EvConversation c) (h_pump s)\<rparr>"
    let ?s2 = "logged (CallFetch (gc_id c) refresh_messages_each None) ?s1"
    let ?s3 = "case ph_fetch (here (at E i)) (gc_id c) refresh_messages_each None of
               Inl t \<Rightarrow> ?s2
             | Inr (ms, cur) \<Rightarrow> put_db (fst (import_messages (at (at E i) 1) ?nm 0 ms (h_db ?s2))) ?s2"
    have s1: "step_ok dp s ?s1" by (rule set_pump_ok) (rule pump_ok_step)
    have s2: "step_ok dp ?s1 ?s2" using "3.prems" by (simp add: logged_ok)
    have "step_ok dp ?s2 ?s3" by (auto split: sum.split prod.split intro!: put_ok simp: import_messages_ok)
    with s1 s2 have s3: "step_ok dp s ?s3" by (blast intro: step_ok_trans)
    show ?thesis
    proof (cases "k < refresh_message_convs")
      case True
      with False have "refresh_all E i k (Some c # cs) s = refresh_all E (Suc i) (Suc k) cs ?s3" by (simp add: Let_def del: pump_handle.simps)
      with step_ok_trans [OF s3 "3.IH"(2) [OF False refl refl refl True refl "3.prems"]] show ?thesis by (simp only:)
    next
      case no: False
      with False have "refresh_all E i k (Some c # cs) s = refresh_all E (Suc i) k cs ?s1" by (simp add: Let_def del: pump_handle.simps)
      with step_ok_trans [OF s1 "3.IH"(3) [OF False refl refl refl no "3.prems"]] show ?thesis by (simp only:)
    qed
  qed
qed simp_all

lemma run_refresh_ok:
  assumes "dp_client dp"
  shows "step_ok dp s (run_refresh E s)"
proof -
  let ?s = "logged (CallListConversations refresh_conversations) s"
  have l: "step_ok dp s ?s" by (rule logged_ok [OF assms]) simp
  show ?thesis
  proof (cases "ph_list_conversations (here E) refresh_conversations")
    case (Inl t)
    with step_ok_trans [OF l broadcast_ok] show ?thesis by (simp add: run_refresh_def Let_def)
  next
    case (Inr cs)
    let ?s1 = "refresh_all (at E 0) 0 0 cs ?s"
    let ?s2 = "put_db (fst (mark_sync (here (at E 1)) zero_time_ms (now_ms (here (at E 1))) (h_db ?s1))) ?s1"
    note l
    also have "step_ok dp ?s ?s1" by (rule refresh_all_ok [OF assms])
    also have "step_ok dp ?s1 ?s2" by (rule put_ok) (rule mark_sync_ok)
    finally have "step_ok dp s ?s2" .
    from step_ok_trans [OF this broadcast_ok] Inr show ?thesis by (simp add: run_refresh_def Let_def)
  qed
qed

lemma quiet_initial: "quiet (initial_calls E)"
proof -
  have "quiet (map (\<lambda>i. CallFetch i 10 None) xs)" for xs by (induction xs) simp_all
  then show ?thesis by (simp add: initial_calls_def folder_calls_def fetch_calls_def split: sum.split)
qed

lemma initial_import_quiet: "quiet_host h (initial_import E h)"
proof -
  obtain p where p: "initial_import E h = h\<lparr>h_pump := p, h_log := h_log h @ initial_calls E\<rparr>"
    using initial_import_step [of E h] by (auto simp: import_step_def)
  have "host_only h (initial_import E h)"
    by (rule host_onlyI [where p = p and st = "h_settings h" and l = "h_log h @ initial_calls E"]) (simp add: p)
  then show ?thesis using p quiet_initial by (auto simp: quiet_host_def)
qed

lemma startup_import_ok:
  assumes "dp_client dp"
  shows "step_ok dp s (startup_import E s)"
proof -
  have "step_ok dp s (initial_import E s)"
    using initial_import_step [of E s] unfolding import_step_def by (intro quiet_step_ok [OF initial_import_quiet assms]) blast
  from step_ok_trans [OF this broadcast_ok] show ?thesis by (simp add: startup_import_def)
qed

lemma fold_broadcast_ok: "step_ok dp s (fold (\<lambda>x. broadcast t (f x)) xs s)"
proof (induction xs arbitrary: s)
  case (Cons x xs)
  from step_ok_trans [OF broadcast_ok Cons.IH] show ?case by simp
qed simp

lemma finish_pairing_ok: "step_ok dp s (finish_pairing event name flow s)"
proof -
  obtain fs shown r where flow: "flow = (fs, shown, r)" by (rule prod_cases3)
  let ?s1 = "fold (\<lambda>x. broadcast event (json_map [(name, JStr x)])) shown (s\<lparr>sv_files := fs\<rparr>)"
  have s1: "step_ok dp s ?s1" by (rule step_ok_trans [OF files_ok(1) fold_broadcast_ok])
  show ?thesis
  proof (cases r)
    case (Inl err)
    with step_ok_trans [OF step_ok_trans [OF s1 broadcast_ok] files_ok(3)] flow show ?thesis
      by (simp add: finish_pairing_def Let_def)
  next
    case (Inr res)
    from step_ok_trans [OF step_ok_trans [OF step_ok_trans [OF step_ok_trans [OF s1 files_ok(4)] broadcast_ok] files_ok(5)] files_ok(3)]
    show ?thesis using Inr flow by (simp add: finish_pairing_def Let_def)
  qed
qed

lemma run_task_ok: "t = TaskRefresh \<Longrightarrow> dp_client dp \<Longrightarrow> step_ok dp s (run_task dp E t s)"
    "t \<noteq> TaskRefresh \<Longrightarrow> step_ok dp s (run_task dp E t s)"
  by (simp add: run_refresh_ok) (cases t; simp add: run_pairing_def run_google_pairing_def finish_pairing_ok)

lemma expired_broadcast_ok: "step_ok dp s (broadcast t v (s\<lparr>sv_auth_expired := b\<rparr>))"
  by (rule step_ok_trans [OF files_ok(4) broadcast_ok])

lemma gm_event_ok: "step_ok dp s (handle_gm_event e ev s)"
  by (cases "(e, ev, s)" rule: handle_gm_event.cases) (simp_all add: expired_broadcast_ok split: option.split)

lemma client_event_ok: "step_ok dp s (client_event dp e ev s)"
  by (cases ev) (simp_all add: client_event_def step_ok_server)

lemma phone_event_ok: "step_ok dp s (phone_event dp E ev s)"
  unfolding phone_event_def Let_def
  by (rule step_ok_trans [OF step_ok_trans [OF client_event_ok set_pump_ok [OF pump_ok_step]] gm_event_ok])

lemma take_fatal_ok: "step_ok dp s (take_fatal s)"
  unfolding take_fatal_def by (rule set_pump_ok) (simp add: h_db_def)

lemma serve_turn_ok:
  assumes "serve_turn e w l s = (s', l', r)" and "w = WakeFatal \<Longrightarrow> dp_client dp"
  shows "step_ok dp s s'"
proof (cases w)
  case WakeFatal
  have "step_ok dp s (logged CallDisconnect (broadcast t v (mark_auth_expired (take_fatal s))))" for t v
    by (rule step_ok_trans [OF step_ok_trans [OF step_ok_trans [OF take_fatal_ok files_ok(6)] broadcast_ok] logged_ok])
      (use assms(2) WakeFatal in simp_all)
  with assms(1) WakeFatal show ?thesis
    by (auto simp: serve_turn_def take_fatal_ok split: list.splits if_splits)
next
  case WakeHeartbeat
  have "step_ok dp s (put_db (fst (touch_sync e (h_db s))) s)"
    by (rule put_ok) (simp add: touch_sync_def split: option.split)
  with assms(1) WakeHeartbeat show ?thesis by (auto simp: serve_turn_def)
qed (use assms(1) in \<open>auto simp: serve_turn_def\<close>)

section \<open>Background tasks\<close>

definition same_tasks :: "server \<Rightarrow> server \<Rightarrow> bool" where
  "same_tasks s s' \<longleftrightarrow> sv_tasks s' = sv_tasks s \<and> sv_pairing s' = sv_pairing s"

lemma same_tasks_refl [simp]: "same_tasks s s"
  by (simp add: same_tasks_def)

lemma same_tasks_trans [trans]: "same_tasks a b \<Longrightarrow> same_tasks b c \<Longrightarrow> same_tasks a c"
  by (simp add: same_tasks_def)

lemma host_tasks: "host_only s s' \<Longrightarrow> same_tasks s s'"
  using host_only_server(3,4) [of s s'] by (simp add: same_tasks_def)

lemmas host_results = host_tasks [OF send_text_host] host_tasks [OF send_reaction_host] host_tasks [OF download_media_host]

lemma quiet_tasks: "quiet_host s s' \<Longrightarrow> same_tasks s s'"
  by (simp add: quiet_host_def host_tasks)

lemma tasks_simps [simp]:
  "same_tasks s (put_db d s1) = same_tasks s s1" "same_tasks s (logged c s1) = same_tasks s s1"
  "same_tasks s (broadcast t v s1) = same_tasks s s1" "same_tasks s (write_to i v s1) = same_tasks s s1"
  "same_tasks s (s1\<lparr>sv_files := f\<rparr>) = same_tasks s s1" "same_tasks s (s1\<lparr>h_pump := p\<rparr>) = same_tasks s s1"
  "same_tasks s (s1\<lparr>h_settings := st\<rparr>) = same_tasks s s1"
  "same_tasks s (request_shutdown s1) = same_tasks s s1" "same_tasks s (subscribe_conn i s1) = same_tasks s s1"
  "same_tasks s (mark_auth_expired s1) = same_tasks s s1" "same_tasks s (s1\<lparr>sv_auth_expired := b\<rparr>) = same_tasks s s1"
  "same_tasks s (timer_fires s1) = same_tasks s s1" "same_tasks s (accept_conn i s1) = same_tasks s s1"
  "same_tasks s (drop_conn dp i s1) = same_tasks s s1" "same_tasks s (take_fatal s1) = same_tasks s s1"
  using host_tasks [OF host_only_put, of s1 d] host_tasks [OF host_only_logged, of s1 c]
  by (auto simp: same_tasks_def request_shutdown_def subscribe_conn_def mark_auth_expired_def timer_fires_def accept_conn_def
      drop_conn_def take_fatal_def Let_def)

lemma perform_tasks: "perform_approved_send dp E a s = (s', r) \<Longrightarrow> same_tasks s s'"
  unfolding perform_approved_send_def
  by (auto split: sum.splits if_splits prod.splits option.splits intro: host_results)

lemma perform_put_tasks: "perform_approved_send dp E a (put_db d s) = (s', r) \<Longrightarrow> same_tasks s s'"
  by (rule same_tasks_trans [of s "put_db d s"]) (simp, rule perform_tasks)

lemma handler_tasks:
  "handle_alias_set E params s = (s', r) \<Longrightarrow> same_tasks s s'"
  "handle_alias_rm E params s = (s', r) \<Longrightarrow> same_tasks s s'"
  "handle_media_download dp E params s = (s', r) \<Longrightarrow> same_tasks s s'"
  "handle_send_react dp E params s = (s', r) \<Longrightarrow> same_tasks s s'"
  "handle_history_backfill dp E params s = (s', r) \<Longrightarrow> same_tasks s s'"
  "handle_history_lookup dp E params s = (s', r) \<Longrightarrow> same_tasks s s'"
  "handle_send_text dp E params s = (s', r) \<Longrightarrow> same_tasks s s'"
  "handle_approvals_approve dp E params s = (s', r) \<Longrightarrow> same_tasks s s'"
  "handle_approvals_deny E params s = (s', r) \<Longrightarrow> same_tasks s s'"
  unfolding handle_alias_set_def handle_alias_rm_def handle_media_download_def handle_send_react_def handle_history_backfill_def
    handle_history_lookup_def handle_send_text_def handle_approvals_approve_def handle_approvals_deny_def Let_def
  by (auto split: sum.splits if_splits prod.splits option.splits
      intro: host_results quiet_tasks [OF backfill_host] quiet_tasks [OF lookup_host]
        same_tasks_trans [OF quiet_tasks [OF lookup_host] quiet_tasks [OF backfill_host]]
        perform_tasks perform_put_tasks)

text \<open>A refresh is only started with a client, and exactly one pairing task exists while pairing.\<close>

definition tasks_ok :: "deps \<Rightarrow> server \<Rightarrow> bool" where
  "tasks_ok dp s \<longleftrightarrow> (TaskRefresh \<in> set (sv_tasks s) \<longrightarrow> dp_client dp)
     \<and> length (filter (\<lambda>t. t \<noteq> TaskRefresh) (sv_tasks s)) = (if sv_pairing s then 1 else 0)"

lemma tasks_ok_same: "same_tasks s s' \<Longrightarrow> tasks_ok dp s' = tasks_ok dp s"
  by (simp add: same_tasks_def tasks_ok_def)

lemma refresh_tasks: "handle_sync_refresh dp e s = (s', r) \<Longrightarrow> tasks_ok dp s \<Longrightarrow> tasks_ok dp s'"
  by (auto simp: handle_sync_refresh_def tasks_ok_def split: if_splits)

lemma start_pairing_tasks: "start_pairing dp t s = (s', r) \<Longrightarrow> t \<noteq> TaskRefresh \<Longrightarrow> tasks_ok dp s \<Longrightarrow> tasks_ok dp s'"
  by (auto simp: start_pairing_def tasks_ok_def logged_def Let_def split: if_splits)

lemma pair_tasks: "handle_auth_pair dp s = (s', r) \<Longrightarrow> tasks_ok dp s \<Longrightarrow> tasks_ok dp s'"
  by (auto simp: handle_auth_pair_def split: if_splits dest: start_pairing_tasks)

lemma pair_google_tasks: "handle_auth_pair_google dp e params s = Returns (s', r) \<Longrightarrow> tasks_ok dp s \<Longrightarrow> tasks_ok dp s'"
  by (auto simp: handle_auth_pair_google_def split: if_splits sum.splits outcome.splits dest: start_pairing_tasks)

lemma dispatch_tasks:
  assumes "dispatch dp E c m params s = Returns (s', r)" and "tasks_ok dp s"
  shows "tasks_ok dp s'"
proof -
  have "same_tasks s s' \<or> tasks_ok dp s'"
    using assms unfolding dispatch_def Let_def
    by (auto split: if_splits intro: handler_tasks dest: refresh_tasks pair_tasks pair_google_tasks)
  with assms(2) tasks_ok_same show ?thesis by blast
qed

lemma handle_line_tasks:
  assumes "handle_line dp E c line s = Returns s'" and "tasks_ok dp s"
  shows "tasks_ok dp s'"
proof -
  have "tasks_ok dp (write_to c v s1) = tasks_ok dp s1" for v s1 by (rule tasks_ok_same) simp
  then show ?thesis using assms unfolding handle_line_def
    by (auto split: if_splits option.splits outcome.splits prod.splits dest: dispatch_tasks)
qed

lemma fold_broadcast_frame [simp]:
  "sv_tasks (fold (\<lambda>x. broadcast t (f x)) xs s) = sv_tasks s" "sv_pairing (fold (\<lambda>x. broadcast t (f x)) xs s) = sv_pairing s"
  "h_db (fold (\<lambda>x. broadcast t (f x)) xs s) = h_db s"
  by (induction xs arbitrary: s) simp_all

lemma finish_pairing_tasks:
  "sv_tasks (finish_pairing event name flow s) = sv_tasks s" "\<not> sv_pairing (finish_pairing event name flow s)"
  by (cases flow; auto simp: finish_pairing_def request_shutdown_def Let_def split: sum.split)+

lemma refresh_all_tasks: "same_tasks s (refresh_all E i k cs s)"
proof (induction E i k cs s rule: refresh_all.induct)
  case (3 E i k c cs s)
  show ?case
  proof (cases "gc_id c = ''''")
    case False
    have "same_tasks s x \<Longrightarrow> same_tasks x y \<Longrightarrow> same_tasks s y" for x y by (rule same_tasks_trans)
    with "3.IH"(2,3) [OF False refl refl refl] False show ?thesis
      by (cases "k < refresh_message_convs"; cases "ph_fetch (here (at E i)) (gc_id c) refresh_messages_each None")
        (auto simp: Let_def same_tasks_def put_db_def logged_def split: prod.splits)
  qed (use 3 in simp)
qed simp_all

lemma run_refresh_tasks: "same_tasks s (run_refresh E s)"
proof -
  have "same_tasks s (refresh_all (at E 0) 0 0 cs (logged c s))" for cs c
    by (rule same_tasks_trans [OF _ refresh_all_tasks]) simp
  then show ?thesis by (auto simp: run_refresh_def Let_def split: sum.split)
qed

lemma filter_take_task:
  "k < length ts \<Longrightarrow> length (filter P (take k ts @ drop (Suc k) ts)) + (if P (ts ! k) then 1 else 0) = length (filter P ts)"
  by (subst (3) id_take_nth_drop [of k ts]) simp_all

lemma startup_import_tasks: "same_tasks s (startup_import E s)"
  using quiet_tasks [OF initial_import_quiet, of s E] by (simp add: startup_import_def same_tasks_def)

lemma run_task_tasks:
  assumes "tasks_ok dp s" and "k < length (sv_tasks s)"
  shows "tasks_ok dp (run_task dp E (sv_tasks s ! k) (take_task k s))"
proof -
  let ?t = "sv_tasks s ! k" and ?ts = "take k (sv_tasks s) @ drop (Suc k) (sv_tasks s)"
  have sub: "set ?ts \<subseteq> set (sv_tasks s)" by (auto dest: in_set_takeD in_set_dropD)
  note len = filter_take_task [OF assms(2), of "\<lambda>t. t \<noteq> TaskRefresh"]
  show ?thesis
  proof (cases "?t = TaskRefresh")
    case True
    with run_refresh_tasks [of "take_task k s" E] tasks_ok_same
    have "tasks_ok dp (run_task dp E ?t (take_task k s)) = tasks_ok dp (take_task k s)" by simp
    moreover have "tasks_ok dp (take_task k s)"
      using assms(1) sub len True by (auto simp: tasks_ok_def take_task_def)
    ultimately show ?thesis by simp
  next
    case False
    obtain ev nm fl where r: "run_task dp E ?t (take_task k s) = finish_pairing ev nm fl (take_task k s)"
      using False by (cases ?t) (simp_all add: run_pairing_def run_google_pairing_def)
    have "length (filter (\<lambda>t. t \<noteq> TaskRefresh) ?ts) = 0"
      using assms(1) len False by (auto simp: tasks_ok_def split: if_splits)
    then have "tasks_ok dp (finish_pairing ev nm fl (take_task k s))"
      using assms(1) sub unfolding tasks_ok_def finish_pairing_tasks(1) by (auto simp: finish_pairing_tasks(2) take_task_def)
    with r show ?thesis by simp
  qed
qed

lemma gm_event_tasks: "same_tasks s (handle_gm_event e ev s)"
  by (cases "(e, ev, s)" rule: handle_gm_event.cases) (simp_all split: option.split)

lemma phone_event_tasks: "same_tasks s (phone_event dp E ev s)"
proof -
  have "same_tasks s (client_event dp (here E) ev s)" by (cases ev) (simp_all add: client_event_def)
  then show ?thesis unfolding phone_event_def Let_def by (intro same_tasks_trans [OF _ gm_event_tasks]) simp
qed

lemma serve_turn_tasks: "serve_turn e w l s = (s', l', r) \<Longrightarrow> same_tasks s s' \<and> (l' \<longrightarrow> l)"
  by (auto simp: serve_turn_def split: wake.splits list.splits if_splits)

section \<open>The daemon's invariant\<close>

definition daemon_inv :: "deps \<Rightarrow> server \<Rightarrow> bool \<Rightarrow> bool" where
  "daemon_inv dp s l \<longleftrightarrow> db_ok (h_db s) \<and> distinct (map cn_id (sv_conns s @ sv_closed s)) \<and> tasks_ok dp s
     \<and> (l \<longrightarrow> dp_client dp) \<and> (dp_client dp \<or> h_log s = []) \<and> (dp_mode dp \<noteq> send_off \<or> quiet (h_log s))"

lemma grows_ids: "list_all2 conn_grows cs cs' \<Longrightarrow> map cn_id cs' = map cn_id cs"
  by (induction rule: list_all2_induct) (simp_all add: conn_grows_def)

lemma inv_step:
  assumes "daemon_inv dp s l" and "step_ok dp s s'" and "tasks_ok dp s'" and "l' \<longrightarrow> l"
  shows "daemon_inv dp s' l'"
proof -
  have "map cn_id (sv_conns s' @ sv_closed s') = map cn_id (sv_conns s @ sv_closed s)"
    using assms(2) grows_ids [of "sv_conns s" "sv_conns s'"] by (simp add: step_ok_def)
  with assms show ?thesis by (auto simp: daemon_inv_def step_ok_def)
qed

lemma task_step_ok:
  assumes "tasks_ok dp s" and "k < length (sv_tasks s)"
  shows "step_ok dp s (run_task dp E (sv_tasks s ! k) (take_task k s))"
proof -
  have "step_ok dp s (take_task k s)" by (simp add: take_task_def)
  moreover have "step_ok dp (take_task k s) (run_task dp E (sv_tasks s ! k) (take_task k s))"
  proof (cases "sv_tasks s ! k = TaskRefresh")
    case True
    with assms nth_mem [of k "sv_tasks s"] have "dp_client dp" by (auto simp: tasks_ok_def)
    with True show ?thesis by (rule run_task_ok)
  qed (rule run_task_ok)
  ultimately show ?thesis by (rule step_ok_trans)
qed

lemma daemon_step_inv:
  assumes "daemon_step dp E ev (Running s l) (Running s' l')" and "daemon_inv dp s l"
  shows "daemon_inv dp s' l'"
proof -
  have t: "tasks_ok dp s" using assms(2) by (simp add: daemon_inv_def)
  from assms(1) show ?thesis
  proof (cases rule: running_step [consumes 1, case_names connects line_ok line_crash leaves timer phone task import_runs connect_fails turn exit])
    case (connects i)
    with assms(2) t show ?thesis
      by (auto simp: daemon_inv_def accept_conn_def tasks_ok_def h_db_def)
  next
    case (line_ok i line sx)
    from inv_step [OF assms(2) handle_line_ok [OF line_ok(4)] handle_line_tasks [OF line_ok(4) t]] line_ok(2) show ?thesis by simp
  next
    case (leaves i)
    have ids: "distinct (map cn_id (filter (\<lambda>c. cn_id c \<noteq> i) cs @ ds @ filter (\<lambda>c. cn_id c = i) cs))"
      if "distinct (map cn_id (cs @ ds))" for cs ds
      using that by (auto simp: distinct_map_filter)
    have "tasks_ok dp (drop_conn dp i s) = tasks_ok dp s" by (rule tasks_ok_same) simp
    with leaves assms(2) ids [of "sv_conns s" "sv_closed s"] show ?thesis
      by (simp add: daemon_inv_def drop_conn_def Let_def h_db_def)
  next
    case timer
    have "tasks_ok dp (timer_fires s)" using t tasks_ok_same [of s "timer_fires s" dp] by simp
    from inv_step [OF assms(2) files_ok(9) this] timer show ?thesis by simp
  next
    case (phone ev')
    have "tasks_ok dp (phone_event dp E ev' s)" using t tasks_ok_same [OF phone_event_tasks] by blast
    from inv_step [OF assms(2) phone_event_ok this] phone show ?thesis by simp
  next
    case (task k)
    from inv_step [OF assms(2) task_step_ok [OF t task(3)] run_task_tasks [OF t task(3)], of l] task(2) show ?thesis by simp
  next
    case import_runs
    have "tasks_ok dp (startup_import E s)" using t tasks_ok_same [OF startup_import_tasks] by blast
    from inv_step [OF assms(2) startup_import_ok [OF import_runs(3)] this] import_runs show ?thesis by simp
  next
    case (turn w sx lx)
    have "dp_client dp" if "w = WakeFatal" using turn that assms(2) by (simp add: may_wake_def daemon_inv_def)
    note ok = serve_turn_ok [OF turn(4) this]
    have "same_tasks s sx" "lx \<longrightarrow> l" using serve_turn_tasks [OF turn(4)] by auto
    with inv_step [OF assms(2) ok] t tasks_ok_same turn(2) show ?thesis by blast
  qed simp_all
qed

lemma daemon_reach_inv:
  "daemon_reach dp d \<Longrightarrow> d = Running s l \<Longrightarrow> daemon_inv (new_deps dp) s l"
proof (induction arbitrary: s l rule: daemon_reach.induct)
  case (start h fs)
  then show ?case
    by (auto simp: daemon_inv_def tasks_ok_def new_server_def new_deps_def h_db_def host.defs server.defs)
next
  case (step d E ev d')
  show ?case
  proof (cases d)
    case (Running s0 l0)
    from step.IH [OF this] step.hyps(2) Running step.prems show ?thesis by (blast intro: daemon_step_inv)
  qed (use step.hyps(2) step.prems in \<open>auto elim: daemon_step.cases\<close>)
qed


text \<open>A daemon started read-only, or without a send mode, never puts a message or a reaction on the
  phone, whatever requests, approvals and events it is given.\<close>

theorem read_only_silent:
  assumes "daemon_reach dp (Running s l)" and "dp_mode dp = '''' \<or> dp_mode dp = ''off''"
  shows "sends (h_log s) = [] \<and> CallReact mid emoji act \<notin> set (h_log s)"
proof -
  have "dp_mode (new_deps dp) = send_off" using assms(2) by (auto simp: new_deps_def send_off_def)
  with daemon_reach_inv [OF assms(1) refl] have "quiet (h_log s)" by (simp add: daemon_inv_def)
  then show ?thesis by (rule quiet_none)
qed

text \<open>An offline daemon makes no call to the phone at all, not even to disconnect.\<close>

theorem offline_makes_no_call:
  assumes "daemon_reach dp (Running s l)" and "\<not> dp_client dp"
  shows "h_log s = []"
  using daemon_reach_inv [OF assms(1) refl] assms(2) by (simp add: daemon_inv_def new_deps_def)

section \<open>A concrete run\<close>

definition offline_deps :: deps where
  "offline_deps = \<lparr>dp_client = False, dp_pump = False, dp_version = ''1'', dp_mode = '''', dp_live_timeout = 0,
     dp_session = ''/s/session.json'', dp_media_dir = ''/s/media'', dp_idle_exit = 600000\<rparr>"

definition first_client :: server where
  "first_client = accept_conn 1 (new_server offline_deps (idle_host fresh_db) Map.empty)"

definition quiet_rpc :: "int \<Rightarrow> rpc_env" where
  "quiet_rpc t = phone_env.extend (quiet_phone t) (rpc_env.fields ''a1'' (\<lambda>j. ''bad'') (\<lambda>l. ''bad'') (\<lambda>i. '''') (\<lambda>m. [''.jpg''])
     (\<lambda>p. None) good_pairing)"

lemma first_client_reached: "daemon_reach offline_deps (Running first_client False)"
proof -
  have "daemon_reach offline_deps (Running (new_server offline_deps (idle_host fresh_db) Map.empty) (dp_pump offline_deps))"
    by (rule daemon_reach.start) (simp_all add: idle_host_def h_db_def offline_deps_def)
  then have "daemon_reach offline_deps (Running (accept_conn 1 (new_server offline_deps (idle_host fresh_db) Map.empty)) (dp_pump offline_deps))"
    by (rule daemon_reach.step [OF _ daemon_step.connects [where E = "\<lambda>_. quiet_rpc 5"]])
      (simp add: new_server_def server.defs host.defs)
  then show ?thesis by (simp add: first_client_def offline_deps_def)
qed


theorem read_only_silent_witness: "sends (h_log first_client) = []"
  using read_only_silent [OF first_client_reached] by (simp add: offline_deps_def)

theorem offline_makes_no_call_witness: "h_log first_client = []"
  using offline_makes_no_call [OF first_client_reached] by (simp add: offline_deps_def)

end
