(* ===== verification/Json_Wire.thy ===== *)
theory Json_Wire
  imports Go_Json
begin

text \<open>
  The encoder and the decoder of \<open>encoding/json\<close> against each other: what is marshalled reads back,
  with the bytes of strings that are not UTF-8 replaced by U+FFFD, and never contains a control character,
  so that one line of the wire protocol is one value.
\<close>

section \<open>Chunks are encoded runes or single bytes\<close>

lemma byte_offset:
  assumes "k \<le> byte_of c" and "byte_of c < k + m"
  obtains a where "c = char_of (k + a)" and "byte_of c = k + a" and "a < m"
proof
  show "c = char_of (k + (byte_of c - k))" using assms(1) by simp
qed (use assms in simp_all)

lemma div_parts:
  "c < 64 \<Longrightarrow> (a * 64 + c) div 64 = (a::nat)" "c < 64 \<Longrightarrow> (a * 64 + c) mod 64 = (c::nat)"
  by simp_all

lemma encode_two:
  assumes "2 \<le> a" "a < 32" "c < 64"
  shows "encode_rune (a * 64 + c) = [char_of (192 + a), char_of (128 + c)] \<and> valid_rune (a * 64 + c)"
proof -
  have "128 \<le> a * 64 + c" "a * 64 + c < 2048" using assms by simp_all
  with assms(3) show ?thesis by (simp add: encode_rune_def valid_rune_def div_parts)
qed

lemma encode_three:
  assumes "a < 16" "b < 64" "c < 64" "a = 0 \<Longrightarrow> 32 \<le> b" "a = 13 \<Longrightarrow> b < 32"
  shows "encode_rune (a * 4096 + b * 64 + c) = [char_of (224 + a), char_of (128 + b), char_of (128 + c)]
    \<and> valid_rune (a * 4096 + b * 64 + c)"
proof -
  let ?r = "a * 4096 + b * 64 + c"
  have r: "?r = (a * 64 + b) * 64 + c" by simp
  have "2048 \<le> ?r" using assms by (cases "a = 0") auto
  moreover have "?r < 65536" using assms by simp
  moreover have "valid_rune ?r"
  proof -
    consider "a < 13" | "a = 13" | "14 \<le> a" by linarith
    then show ?thesis using assms by cases (auto simp: valid_rune_def)
  qed
  moreover have "?r div 64 = a * 64 + b" "?r mod 64 = c" unfolding r by (simp_all only: div_parts assms)
  moreover have "?r div 4096 = a" using calculation(4) assms(2) div_mult2_eq [of ?r 64 64] by simp
  ultimately show ?thesis using assms(2) by (simp add: encode_rune_def)
qed

lemma encode_four:
  assumes "a < 5" "b < 64" "c < 64" "d < 64" "a = 0 \<Longrightarrow> 16 \<le> b" "a = 4 \<Longrightarrow> b < 16"
  shows "encode_rune (a * 262144 + b * 4096 + c * 64 + d)
      = [char_of (240 + a), char_of (128 + b), char_of (128 + c), char_of (128 + d)]
    \<and> valid_rune (a * 262144 + b * 4096 + c * 64 + d)"
proof -
  let ?r = "a * 262144 + b * 4096 + c * 64 + d"
  have r: "?r = (a * 4096 + b * 64 + c) * 64 + d" "a * 4096 + b * 64 + c = (a * 64 + b) * 64 + c" by simp_all
  have "65536 \<le> ?r" using assms by (cases "a = 0") auto
  moreover have "?r \<le> 1114111" using assms by (cases "a = 4") auto
  moreover have "?r div 64 = a * 4096 + b * 64 + c" "?r mod 64 = d" unfolding r(1) by (simp_all only: div_parts assms)
  moreover have "?r div 4096 = a * 64 + b" using calculation(3) assms(3) div_mult2_eq [of ?r 64 64] r(2) by simp
  moreover have "?r div 262144 = a" using calculation(5) assms(2) div_mult2_eq [of ?r 4096 64] by simp
  moreover have "(a * 4096 + b * 64 + c) mod 64 = c" unfolding r(2) by (simp only: div_parts assms)
  ultimately show ?thesis using assms(2,3) by (simp add: encode_rune_def valid_rune_def)
qed

text \<open>The same on the bytes of a string.\<close>

lemma bytes_two:
  assumes "194 \<le> byte_of c0" "byte_of c0 < 224" "is_cont (byte_of c1)"
  shows "encode_rune (byte_of c0 mod 32 * 64 + byte_of c1 mod 64) = [c0, c1] \<and> valid_rune (byte_of c0 mod 32 * 64 + byte_of c1 mod 64)"
proof -
  obtain a where a: "c0 = char_of (192 + a)" "byte_of c0 = 192 + a" "a < 32"
    using byte_offset [of 192 c0 32] assms by auto
  obtain b where b: "c1 = char_of (128 + b)" "byte_of c1 = 128 + b" "b < 64"
    using byte_offset [of 128 c1 64] assms by (auto simp: is_cont_def)
  have "2 \<le> a" using assms(1) a(2) by simp
  moreover have "byte_of c0 mod 32 = a" "byte_of c1 mod 64 = b" using a b mod_offset [of a 32 6] mod_offset [of b 64 2] by simp_all
  ultimately show ?thesis using encode_two [of a b] a b by simp
qed

lemma bytes_three:
  assumes "224 \<le> byte_of c0" "byte_of c0 < 240" "second_ok (byte_of c0) (byte_of c1)" "is_cont (byte_of c2)"
  defines "r \<equiv> byte_of c0 mod 16 * 4096 + byte_of c1 mod 64 * 64 + byte_of c2 mod 64"
  shows "encode_rune r = [c0, c1, c2] \<and> valid_rune r"
proof -
  obtain a where a: "c0 = char_of (224 + a)" "byte_of c0 = 224 + a" "a < 16"
    using byte_offset [of 224 c0 16] assms by auto
  have "is_cont (byte_of c1)" using assms(3) by (auto simp: second_ok_def is_cont_def split: if_splits)
  then obtain b where b: "c1 = char_of (128 + b)" "byte_of c1 = 128 + b" "b < 64"
    using byte_offset [of 128 c1 64] by (auto simp: is_cont_def)
  obtain c where c: "c2 = char_of (128 + c)" "byte_of c2 = 128 + c" "c < 64"
    using byte_offset [of 128 c2 64] assms(4) by (auto simp: is_cont_def)
  have "a = 0 \<Longrightarrow> 32 \<le> b" "a = 13 \<Longrightarrow> b < 32" using assms(3) a(2) b(2) by (auto simp: second_ok_def)
  moreover have "byte_of c0 mod 16 = a" "byte_of c1 mod 64 = b" "byte_of c2 mod 64 = c"
    using a b c mod_offset [of a 16 14] mod_offset [of b 64 2] mod_offset [of c 64 2] by simp_all
  ultimately show ?thesis using encode_three [of a b c] a b c by (simp add: r_def)
qed

lemma bytes_four:
  assumes "240 \<le> byte_of c0" "byte_of c0 \<le> 244" "second_ok (byte_of c0) (byte_of c1)" "is_cont (byte_of c2)" "is_cont (byte_of c3)"
  defines "r \<equiv> byte_of c0 mod 8 * 262144 + byte_of c1 mod 64 * 4096 + byte_of c2 mod 64 * 64 + byte_of c3 mod 64"
  shows "encode_rune r = [c0, c1, c2, c3] \<and> valid_rune r"
proof -
  obtain a where a: "c0 = char_of (240 + a)" "byte_of c0 = 240 + a" "a < 5"
    using byte_offset [of 240 c0 5] assms by auto
  have "is_cont (byte_of c1)" using assms(3) by (auto simp: second_ok_def is_cont_def split: if_splits)
  then obtain b where b: "c1 = char_of (128 + b)" "byte_of c1 = 128 + b" "b < 64"
    using byte_offset [of 128 c1 64] by (auto simp: is_cont_def)
  obtain c where c: "c2 = char_of (128 + c)" "byte_of c2 = 128 + c" "c < 64"
    using byte_offset [of 128 c2 64] assms(4) by (auto simp: is_cont_def)
  obtain d where d: "c3 = char_of (128 + d)" "byte_of c3 = 128 + d" "d < 64"
    using byte_offset [of 128 c3 64] assms(5) by (auto simp: is_cont_def)
  have "a = 0 \<Longrightarrow> 16 \<le> b" "a = 4 \<Longrightarrow> b < 16" using assms(3) a(2) b(2) by (auto simp: second_ok_def)
  moreover have "byte_of c0 mod 8 = a" "byte_of c1 mod 64 = b" "byte_of c2 mod 64 = c" "byte_of c3 mod 64 = d"
    using a b c d mod_offset [of a 8 30] mod_offset [of b 64 2] mod_offset [of c 64 2] mod_offset [of d 64 2] by simp_all
  ultimately show ?thesis using encode_four [of a b c d] a b c d by (simp add: r_def)
qed

text \<open>A rune read from a string is either the error rune for one byte, or encoded by the bytes read.\<close>

definition rune_read :: "string \<Rightarrow> nat \<times> nat \<Rightarrow> bool" where
  "rune_read s p \<longleftrightarrow> (p = (rune_error, 1) \<and> 128 \<le> byte_of (hd s)) \<or> (take (snd p) s = encode_rune (fst p) \<and> valid_rune (fst p))"

lemma decode_rune_cases:
  assumes "s \<noteq> []"
  shows "rune_read s (decode_rune s)"
proof -
  obtain c0 s1 where s: "s = c0 # s1" using assms by (cases s) auto
  let ?b0 = "byte_of c0"
  have one: "rune_read (c0 # s1) (?b0, 1)" if "?b0 < 128" using that by (simp add: rune_read_def encode_rune_def valid_rune_def)
  have err: "rune_read (c0 # t) (rune_error, 1)" if "128 \<le> ?b0" for t using that by (simp add: rune_read_def)
  have two: "rune_read (c0 # c1 # t) (?b0 mod 32 * 64 + byte_of c1 mod 64, 2)"
    if "194 \<le> ?b0" "?b0 < 224" "second_ok ?b0 (byte_of c1)" for c1 t
    using that bytes_two [of c0 c1] by (auto simp: rune_read_def second_ok_def)
  have three: "rune_read (c0 # c1 # c2 # t) (?b0 mod 16 * 4096 + byte_of c1 mod 64 * 64 + byte_of c2 mod 64, 3)"
    if "224 \<le> ?b0" "?b0 < 240" "second_ok ?b0 (byte_of c1)" "is_cont (byte_of c2)" for c1 c2 t
    using that bytes_three [of c0 c1 c2] by (simp add: rune_read_def)
  have four: "rune_read (c0 # c1 # c2 # c3 # t) (?b0 mod 8 * 262144 + byte_of c1 mod 64 * 4096 + byte_of c2 mod 64 * 64 + byte_of c3 mod 64, 4)"
    if "240 \<le> ?b0" "?b0 \<le> 244" "second_ok ?b0 (byte_of c1)" "is_cont (byte_of c2)" "is_cont (byte_of c3)" for c1 c2 c3 t
    using that bytes_four [of c0 c1 c2 c3] by (simp add: rune_read_def)
  consider "s1 = []" | c1 where "s1 = [c1]" | c1 c2 where "s1 = [c1, c2]" | c1 c2 c3 t where "s1 = c1 # c2 # c3 # t"
    by (cases s1; cases "tl s1"; cases "tl (tl s1)") auto
  then show ?thesis
  proof cases
    case 1
    then show ?thesis using one err unfolding s by (simp add: decode_rune_def not_less)
  next
    case 2
    then show ?thesis using one err two unfolding s by (simp add: decode_rune_def not_less)
  next
    case 3
    then show ?thesis using one err two three unfolding s by (simp add: decode_rune_def not_less)
  next
    case 4
    then show ?thesis using one err two three four unfolding s by (simp add: decode_rune_def not_less)
  qed
qed

text \<open>What a \<open>for range\<close> loop sees of a string.\<close>

definition good_chunk :: "string \<Rightarrow> bool" where
  "good_chunk c \<longleftrightarrow> (\<exists>b. c = [b] \<and> 128 \<le> byte_of b) \<or> (\<exists>r. valid_rune r \<and> c = encode_rune r)"

lemma chunks_good: "c \<in> set (chunks s) \<Longrightarrow> good_chunk c"
proof (induction s rule: chunks.induct)
  case (1 s)
  show ?case
  proof (cases "s = []")
    case False
    then have split: "chunks s = take (snd (decode_rune s)) s # chunks (drop (snd (decode_rune s)) s)"
      by (subst chunks.simps) simp
    have "good_chunk (take (snd (decode_rune s)) s)"
      using decode_rune_cases [OF False] False by (cases s) (auto simp: rune_read_def good_chunk_def)
    with 1 False split show ?thesis by auto
  qed (use 1 in simp)
qed

lemma lone_byte: "128 \<le> byte_of b \<Longrightarrow> chunk_rune [b] = rune_error"
  by (simp add: chunk_rune_def decode_rune_def)

lemma encode_ascii: "r < 128 \<Longrightarrow> encode_rune r = [char_of r]"
  by (simp add: encode_rune_def valid_rune_def)

lemma encode_high: "128 \<le> r \<Longrightarrow> c \<in> set (encode_rune r) \<Longrightarrow> 128 \<le> byte_of c"
  by (auto simp: encode_rune_def Let_def rune_error_def valid_rune_def split: if_splits)

lemma encode_high_length: "128 \<le> r \<Longrightarrow> length (encode_rune r) \<noteq> 1"
  by (simp add: encode_rune_def Let_def rune_error_def)

text \<open>The escapes of the encoder: two bytes, six bytes, or the chunk as it is.\<close>

definition plain_byte :: "char \<Rightarrow> bool" where
  "plain_byte c \<longleftrightarrow> 32 \<le> byte_of c \<and> c \<noteq> CHR 34 \<and> c \<noteq> backslash"

definition short_escapes :: "(nat \<times> char) list" where
  "short_escapes = [(34, CHR 34), (92, backslash), (8, CHR ''b''), (12, CHR ''f''), (10, CHR ''n''), (13, CHR ''r''), (9, CHR ''t'')]"

definition long_escape :: "nat \<Rightarrow> bool" where
  "long_escape r \<longleftrightarrow> r < 32 \<or> r \<in> {38, 60, 62, 8232, 8233}"

lemma quote_backslash: "char_of (34::nat) = CHR 34" "char_of (92::nat) = backslash"
proof -
  have "byte_of (CHR 34) = 34" "byte_of backslash = 92" by (simp_all add: byte_of_def backslash_def)
  then show "char_of (34::nat) = CHR 34" "char_of (92::nat) = backslash"
    using char_of_byte_of [of "CHR 34"] char_of_byte_of [of backslash] by simp_all
qed

lemma json_chunk_rune:
  assumes "valid_rune r"
  shows "json_chunk (encode_rune r) = (case map_of short_escapes r of Some d \<Rightarrow> [backslash, d]
    | None \<Rightarrow> if long_escape r then backslash # CHR ''u'' # hex_digits 4 r else encode_rune r)"
proof -
  note eq = json_chunk_def [of "encode_rune r", unfolded Let_def chunk_rune_encode [OF assms]]
  have len: "\<not> (r = rune_error \<and> length (encode_rune r) = 1)"
    using encode_high_length [of r] by (auto simp: rune_error_def)
  consider "r = 34" | "r = 92" | "r = 8" | "r = 12" | "r = 10" | "r = 13" | "r = 9"
    | "map_of short_escapes r = None" "r \<notin> {34, 92, 8, 12, 10, 13, 9}"
    by (auto simp: short_escapes_def)
  then show ?thesis
  proof cases
    case 8
    then show ?thesis unfolding eq using len by (auto simp: long_escape_def)
  qed (unfold eq, simp_all add: short_escapes_def quote_backslash)
qed

lemma hex_digits_4: "hex_digits 4 n = [hex_digit (n div 16 div 16 div 16), hex_digit (n div 16 div 16), hex_digit (n div 16), hex_digit n]"
proof -
  have "4 = Suc (Suc (Suc (Suc 0)))" by simp
  then show ?thesis by (simp only: hex_digits.simps append_Nil append_Cons)
qed

lemma json_chunk_lone: "128 \<le> byte_of b \<Longrightarrow> json_chunk [b] = backslash # CHR ''u'' # hex_digits 4 rune_error"
proof -
  assume "128 \<le> byte_of b"
  note eq = json_chunk_def [of "[b]", unfolded Let_def lone_byte [OF this]]
  have "json_chunk [b] = backslash # ''ufffd''" unfolding eq by (simp add: rune_error_def)
  moreover have "hex_digits 4 rune_error = ''fffd''" by (simp add: hex_digits_4 rune_error_def hex_digit_def)
  ultimately show ?thesis by simp
qed

lemma unescape_short:
  assumes "map_of short_escapes r = Some d"
  shows "unescape (Suc n) (backslash # d # s) = map_option ((@) (encode_rune r)) (unescape n s)"
    and "32 \<le> byte_of d" and "byte_of d < 128"
proof -
  have "(r, d) \<in> set short_escapes" using assms by (rule map_of_SomeD)
  then consider "r = 34" "d = CHR 34" | "r = 92" "d = backslash" | "r = 8" "d = CHR ''b''" | "r = 12" "d = CHR ''f''"
    | "r = 10" "d = CHR ''n''" | "r = 13" "d = CHR ''r''" | "r = 9" "d = CHR ''t''"
    by (auto simp: short_escapes_def)
  then have "unescape (Suc n) (backslash # d # s) = map_option ((@) (encode_rune r)) (unescape n s) \<and> 32 \<le> byte_of d \<and> byte_of d < 128"
    by cases (cases "unescape n s"; simp add: encode_ascii quote_backslash backslash_def byte_of_def)+
  then show "unescape (Suc n) (backslash # d # s) = map_option ((@) (encode_rune r)) (unescape n s)"
    "32 \<le> byte_of d" "byte_of d < 128" by simp_all
qed

lemma small_cases: "k < 16 \<Longrightarrow> k = 0 \<or> k = 1 \<or> k = 2 \<or> k = 3 \<or> k = 4 \<or> k = 5 \<or> k = 6 \<or> k = 7 \<or> k = 8
    \<or> k = 9 \<or> k = 10 \<or> k = 11 \<or> k = 12 \<or> k = 13 \<or> k = 14 \<or> k = (15::nat)"
  by arith

lemma hex_value_digit: "k < 16 \<Longrightarrow> hex_value (hex_digit k) = Some k"
  by (drule small_cases, elim disjE) (simp_all add: hex_digit_def hex_value_def byte_of_def)

lemma hex_digit_plain: "plain_byte (hex_digit k) \<and> byte_of (hex_digit k) < 128"
proof -
  have "plain_byte (hex_digit (k mod 16)) \<and> byte_of (hex_digit (k mod 16)) < 128"
    by (insert small_cases [of "k mod 16", simplified], elim disjE) (simp_all add: hex_digit_def plain_byte_def byte_of_def backslash_def)
  then show ?thesis by (simp add: hex_digit_def)
qed

lemma hex_number_append: "hex_number acc (a @ b) = (case hex_number acc a of None \<Rightarrow> None | Some v \<Rightarrow> hex_number v b)"
  by (induction a arbitrary: acc) (auto split: option.split)

lemma hex_digit_mod [simp]: "hex_digit (n mod 16) = hex_digit n"
  by (simp add: hex_digit_def)

lemma hex_number_digits: "r < 16 ^ w \<Longrightarrow> hex_number acc (hex_digits w r) = Some (acc * 16 ^ w + r)"
proof (induction w arbitrary: acc r)
  case (Suc w)
  have "r div 16 < 16 ^ w" using Suc.prems by (simp add: less_mult_imp_div_less mult.commute)
  from Suc.IH [OF this] have "hex_number acc (hex_digits w (r div 16)) = Some (acc * 16 ^ w + r div 16)" .
  then show ?case using hex_value_digit [of "r mod 16"]
    by (simp add: hex_number_append algebra_simps)
qed simp

lemma length_hex_digits [simp]: "length (hex_digits w r) = w"
  by (induction w arbitrary: r) simp_all

lemma unescape_long:
  assumes "r < 65536" and "\<not> is_surrogate r"
  shows "unescape (Suc n) (backslash # CHR ''u'' # hex_digits 4 r @ s) = map_option ((@) (encode_rune r)) (unescape n s)"
proof -
  have "hex_number 0 (hex_digits 4 r) = Some r" using hex_number_digits [of r 4 0] assms(1) by simp
  then have "get_u4 (backslash # CHR ''u'' # hex_digits 4 r @ s) = Some r"
    by (simp add: get_u4_def numeral_2_eq_2)
  with assms(2) show ?thesis by (simp add: backslash_def)
qed

lemma plain_unescape: "plain_byte c \<Longrightarrow> unescape (Suc n) (c # s) = map_option ((#) c) (unescape n s)"
  by (simp add: plain_byte_def)

lemma plain_unescape_all: "list_all plain_byte w \<Longrightarrow> unescape (length w + n) (w @ s) = map_option ((@) w) (unescape n s)"
proof (induction w)
  case Nil
  then show ?case by (simp add: option.map_ident [unfolded id_def] del: unescape.simps cong: map_option_cong)
next
  case (Cons c w)
  then have "unescape (length (c # w) + n) ((c # w) @ s) = map_option ((#) c) (map_option ((@) w) (unescape n s))"
    by (simp add: plain_unescape del: unescape.simps)
  then show ?case by (cases "unescape n s") (simp_all del: unescape.simps)
qed

lemma plain_rune:
  assumes "valid_rune r" and "map_of short_escapes r = None" and "\<not> long_escape r"
  shows "list_all plain_byte (encode_rune r)"
proof (cases "r < 128")
  case True
  then have "byte_of (char_of r) = r" by simp
  moreover have "r \<noteq> 34" "r \<noteq> 92" "32 \<le> r" using assms(2,3) by (auto simp: short_escapes_def long_escape_def split: if_splits)
  moreover have "byte_of (CHR 34) = 34" "byte_of backslash = 92" by (simp_all add: byte_of_def backslash_def)
  ultimately have "plain_byte (char_of r)" unfolding plain_byte_def by metis
  with True show ?thesis by (simp add: encode_ascii)
next
  case False
  have "plain_byte c" if "c \<in> set (encode_rune r)" for c
    using encode_high [OF _ that] False by (auto simp: plain_byte_def backslash_def byte_of_def)
  then show ?thesis by (simp add: list_all_iff)
qed

section \<open>Strings\<close>

text \<open>What a chunk becomes once encoded and decoded: itself, or U+FFFD for a byte that is not UTF-8.\<close>

definition clean_text :: "string \<Rightarrow> string" where
  "clean_text s = string_of_runes (runes s)"

lemma good_chunk_rune: "good_chunk c \<Longrightarrow> valid_rune (chunk_rune c)"
  by (auto simp: good_chunk_def lone_byte valid_rune_def rune_error_def)

text \<open>The three shapes of an encoded chunk.\<close>

lemma json_chunk_shapes:
  assumes "good_chunk c"
  obtains (short) d where "map_of short_escapes (chunk_rune c) = Some d" "json_chunk c = [backslash, d]"
  | (long) "json_chunk c = backslash # CHR ''u'' # hex_digits 4 (chunk_rune c)" "chunk_rune c < 65536" "\<not> is_surrogate (chunk_rune c)"
  | (plain) "json_chunk c = encode_rune (chunk_rune c)" "list_all plain_byte (encode_rune (chunk_rune c))"
proof (cases "\<exists>b. c = [b] \<and> 128 \<le> byte_of b")
  case True
  then show ?thesis using long by (auto simp: json_chunk_lone lone_byte rune_error_def is_surrogate_def)
next
  case False
  then obtain r where r: "valid_rune r" "c = encode_rune r" using assms by (auto simp: good_chunk_def)
  then have cr: "chunk_rune c = r" by simp
  show ?thesis
  proof (cases "map_of short_escapes r")
    case None
    show ?thesis
    proof (cases "long_escape r")
      case True
      then have "r < 65536" "\<not> is_surrogate r" by (auto simp: long_escape_def is_surrogate_def)
      with True None show ?thesis using long json_chunk_rune [OF r(1)] r(2) cr by simp
    next
      case False
      with None show ?thesis using plain json_chunk_rune [OF r(1)] plain_rune [OF r(1)] r(2) cr by simp
    qed
  next
    case (Some d)
    then show ?thesis using short json_chunk_rune [OF r(1)] r(2) cr by simp
  qed
qed

lemma hex_digits_plain: "list_all plain_byte (hex_digits w r)"
  by (induction w arbitrary: r) (simp_all add: hex_digit_plain)

lemma u_plain: "plain_byte (CHR ''u'')"
  by (simp add: plain_byte_def byte_of_def backslash_def)

lemma unescape_chunk:
  assumes "good_chunk c" and "length (json_chunk c @ t) \<le> n"
  shows "\<exists>m. length t \<le> m \<and> unescape n (json_chunk c @ t) = map_option ((@) (encode_rune (chunk_rune c))) (unescape m t)"
  using assms(1)
proof (cases rule: json_chunk_shapes)
  case (short d)
  with assms(2) obtain k where "n = Suc k" "length t \<le> k" by (cases n) auto
  with short unescape_short(1) [OF short(1), of k t] show ?thesis by auto
next
  case long
  with assms(2) obtain k where "n = Suc k" "length t \<le> k" by (cases n) auto
  with long unescape_long [OF long(2,3), of k t] show ?thesis by auto
next
  case plain
  with assms(2) plain_unescape_all [of "encode_rune (chunk_rune c)" "n - length (encode_rune (chunk_rune c))" t] show ?thesis
    by (intro exI [of _ "n - length (encode_rune (chunk_rune c))"]) simp
qed

lemma unescape_chunks:
  "\<forall>c \<in> set cs. good_chunk c \<Longrightarrow> length (concat (map json_chunk cs)) \<le> n
    \<Longrightarrow> unescape n (concat (map json_chunk cs)) = Some (string_of_runes (map chunk_rune cs))"
proof (induction cs arbitrary: n)
  case Nil
  then show ?case by (cases n) (simp_all add: string_of_runes_def)
next
  case (Cons c cs)
  then obtain m where "length (concat (map json_chunk cs)) \<le> m" "unescape n (concat (map json_chunk (c # cs)))
      = map_option ((@) (encode_rune (chunk_rune c))) (unescape m (concat (map json_chunk cs)))"
    using unescape_chunk [of c "concat (map json_chunk cs)" n] by auto
  with Cons show ?case by (simp add: string_of_runes_def)
qed

lemma split_plain:
  "list_all plain_byte w \<Longrightarrow> t \<noteq> [] \<Longrightarrow> split_literal (w @ t) = map_option (\<lambda>(l, r). (w @ l, r)) (split_literal t)"
proof (induction w)
  case Nil
  then show ?case by (cases "split_literal t") auto
next
  case (Cons c w)
  then obtain d s where "w @ t = d # s" by (cases "w @ t") auto
  with Cons show ?case by (cases "split_literal t") (auto simp: plain_byte_def)
qed

lemma split_escape: "t \<noteq> [] \<Longrightarrow> split_literal (backslash # d # t) = map_option (\<lambda>(l, r). (backslash # d # l, r)) (split_literal t)"
  by (simp add: backslash_def byte_of_def)

lemma split_chunk:
  assumes "good_chunk c" and "t \<noteq> []"
  shows "split_literal (json_chunk c @ t) = map_option (\<lambda>(l, r). (json_chunk c @ l, r)) (split_literal t)"
  using assms(1)
proof (cases rule: json_chunk_shapes)
  case (short d)
  then show ?thesis using split_escape [OF assms(2)] by simp
next
  case long
  have "split_literal (json_chunk c @ t) = map_option (\<lambda>(l, r). (backslash # CHR ''u'' # l, r)) (split_literal (hex_digits 4 (chunk_rune c) @ t))"
    using split_escape [of "hex_digits 4 (chunk_rune c) @ t"] assms(2) long by simp
  then show ?thesis using split_plain [OF hex_digits_plain assms(2)] long by (cases "split_literal t") auto
next
  case plain
  then show ?thesis using split_plain [OF _ assms(2)] by simp
qed

lemma split_chunks:
  "\<forall>c \<in> set cs. good_chunk c \<Longrightarrow> split_literal (concat (map json_chunk cs) @ CHR 34 # rest) = Some (concat (map json_chunk cs), rest)"
proof (induction cs)
  case Nil
  then show ?case by (cases rest) auto
qed (simp add: split_chunk)

definition valid_text :: "string \<Rightarrow> bool" where
  "valid_text s \<longleftrightarrow> (\<exists>rs. list_all valid_rune rs \<and> s = string_of_runes rs)"

lemma valid_text_append: "valid_text a \<Longrightarrow> valid_text b \<Longrightarrow> valid_text (a @ b)"
  unfolding valid_text_def by (metis concat_append list_all_append map_append string_of_runes_def)

lemma valid_text_Nil [simp]: "valid_text []"
  by (simp add: valid_text_def string_of_runes_def exI [of _ "[]"])

lemma valid_text_encode: "valid_rune r \<Longrightarrow> valid_text (encode_rune r)"
  by (simp add: valid_text_def string_of_runes_def exI [of _ "[r]"])

lemma valid_text_ascii: "list_all (\<lambda>c. byte_of c < 128) s \<Longrightarrow> valid_text s"
proof (induction s)
  case (Cons c s)
  have "[c] = encode_rune (byte_of c)" using Cons.prems by (simp add: encode_ascii)
  moreover have "valid_rune (byte_of c)" using Cons.prems by (simp add: valid_rune_def)
  ultimately show ?case using valid_text_append [OF valid_text_encode Cons.IH, of "byte_of c"] Cons.prems
    by (metis append_Cons append_Nil list.pred_inject(2))
qed simp

lemma clean_valid: "valid_text s \<Longrightarrow> clean_text s = s"
  by (auto simp: valid_text_def clean_text_def runes_string_of_runes)

lemma json_chunk_valid:
  assumes "good_chunk c"
  shows "valid_text (json_chunk c)"
  using assms
proof (cases rule: json_chunk_shapes)
  case (short d)
  then show ?thesis using unescape_short(3) [OF short(1)] by (intro valid_text_ascii) (simp add: backslash_def byte_of_def)
next
  case long
  have "list_all (\<lambda>c. byte_of c < 128) (hex_digits w r)" for w r
    by (induction w arbitrary: r) (simp_all add: hex_digit_plain)
  with long show ?thesis by (intro valid_text_ascii) (simp add: backslash_def byte_of_def)
next
  case plain
  then show ?thesis using valid_text_encode [OF good_chunk_rune [OF assms]] by simp
qed

lemma parse_json_string: "parse_string (drop 1 (json_string s @ rest)) = Some (clean_text s, rest)"
proof -
  let ?cs = "chunks s"
  have good: "\<forall>c \<in> set ?cs. good_chunk c" using chunks_good by blast
  have "valid_text (concat (map json_chunk cs))" if "\<forall>c \<in> set cs. good_chunk c" for cs
    using that by (induction cs) (auto intro: valid_text_append json_chunk_valid)
  then have "unquote (concat (map json_chunk ?cs)) = Some (clean_text s)"
    using unescape_chunks [OF good] clean_valid good by (simp add: unquote_def clean_text_def [symmetric] Let_def)
       (simp add: clean_text_def runes_def)
  then show ?thesis using split_chunks [OF good, of rest] by (simp add: parse_string_def json_string_def)
qed

section \<open>Numbers\<close>

definition stops :: "string \<Rightarrow> bool" where
  "stops rest \<longleftrightarrow> rest = [] \<or> hd rest \<in> set [CHR '','', CHR '']'', CHR ''}'']"

lemma dec_nat_digits: "dec_nat n \<noteq> [] \<and> list_all is_json_digit (dec_nat n)"
proof (induction n rule: dec_nat.induct)
  case (1 n)
  have "byte_of (char_of (48 + n mod 10)) = 48 + n mod 10" by simp
  moreover have "n mod 10 < 10" by simp
  ultimately have d: "is_json_digit (char_of (48 + n mod 10))" unfolding is_json_digit_def by linarith
  show ?case
  proof (cases "n < 10")
    case True
    then show ?thesis using d by (subst (1 2) dec_nat.simps) simp
  next
    case False
    have "dec_nat n = dec_nat (n div 10) @ [char_of (48 + n mod 10)]" using False by (subst dec_nat.simps) simp
    with 1 [OF False] d show ?thesis by simp
  qed
qed

lemma nat_of_digits_append: "nat_of_digits acc (a @ b) = nat_of_digits (nat_of_digits acc a) b"
  by (induction a arbitrary: acc) simp_all

lemma nat_of_dec_nat: "nat_of_digits 0 (dec_nat n) = n"
proof (induction n rule: dec_nat.induct)
  case (1 n)
  have d: "byte_of (char_of (48 + n mod 10)) - 48 = n mod 10" by simp
  show ?case
  proof (cases "n < 10")
    case True
    then show ?thesis by (subst dec_nat.simps) simp
  next
    case False
    with 1 d show ?thesis by (subst dec_nat.simps) (simp add: nat_of_digits_append)
  qed
qed

lemma dec_nat_head: "1 < length (dec_nat n) \<Longrightarrow> hd (dec_nat n) \<noteq> CHR ''0''"
proof (induction n rule: dec_nat.induct)
  case (1 n)
  show ?case
  proof (cases "n < 10")
    case True
    then show ?thesis using 1(2) by (simp add: dec_nat.simps)
  next
    case False
    have eq: "dec_nat n = dec_nat (n div 10) @ [char_of (48 + n mod 10)]" using False by (subst dec_nat.simps) simp
    show ?thesis
    proof (cases "1 < length (dec_nat (n div 10))")
      case True
      then have "dec_nat (n div 10) \<noteq> []" by auto
      with 1(1) [OF False True] show ?thesis by (simp add: eq)
    next
      case short: False
      then have "n div 10 < 10" using dec_nat_digits [of "n div 10 div 10"] by (subst (asm) dec_nat.simps) (auto split: if_splits)
      then have "dec_nat (n div 10) = [char_of (48 + n div 10)]" by (simp add: dec_nat.simps)
      moreover have "byte_of (char_of (48 + n div 10)) \<noteq> 48" using False \<open>n div 10 < 10\<close> by simp
      moreover have "byte_of (CHR ''0'') = 48" by (simp add: byte_of_def)
      ultimately show ?thesis unfolding eq by (metis append_Cons list.sel(1))
    qed
  qed
qed

lemma stops_no_digit: "stops rest \<Longrightarrow> takeWhile is_json_digit rest = [] \<and> dropWhile is_json_digit rest = rest
    \<and> take 1 rest \<noteq> ''.'' \<and> (rest \<noteq> [] \<longrightarrow> hd rest \<notin> {CHR ''e'', CHR ''E''})"
  by (cases rest) (auto simp: stops_def is_json_digit_def byte_of_def)

lemma digit_head: "is_json_digit c \<Longrightarrow> c \<notin> {CHR ''-'', CHR ''n'', CHR ''t'', CHR ''f'', CHR 34, CHR ''['', CHR ''{''} \<and> \<not> is_json_space c"
  by (auto simp: is_json_digit_def is_json_space_def byte_of_def)

lemma parse_number_plain:
  assumes neg: "neg = (take 1 s = ''-'')" and s1: "s1 = (if neg then drop 1 s else s)"
    and ip: "takeWhile is_json_digit s1 = ip" and rest: "dropWhile is_json_digit s1 = rest" and stop: "stops rest"
    and ok: "ip \<noteq> []" "\<not> (1 < length ip \<and> hd ip = CHR ''0'')"
  shows "parse_number s = Some (JInt (if neg then - int (nat_of_digits 0 ip) else int (nat_of_digits 0 ip)), rest)"
proof -
  have dot: "(take 1 rest = ''.'') = False" and ex: "(rest \<noteq> [] \<and> hd rest \<in> {CHR ''e'', CHR ''E''}) = False"
    using stops_no_digit [OF stop] by auto
  have bad: "(ip = [] \<or> 1 < length ip \<and> hd ip = CHR ''0'') = False" using ok by blast
  show ?thesis
    unfolding parse_number_def Let_def neg [symmetric]
    unfolding s1 [symmetric] ip rest
    unfolding dot ex if_False bad
    using bad by simp
qed

lemma parse_number_nat:
  assumes "stops rest"
  shows "parse_number (dec_nat n @ rest) = Some (JInt (int n), rest)"
    and "parse_number (CHR ''-'' # dec_nat n @ rest) = Some (JInt (- int n), rest)"
proof -
  note dn = dec_nat_digits [of n]
  have split: "takeWhile is_json_digit (dec_nat n @ rest) = dec_nat n" "dropWhile is_json_digit (dec_nat n @ rest) = rest"
    using dn stops_no_digit [OF assms] by (simp_all add: list_all_iff)
  have "hd (dec_nat n) \<noteq> CHR ''-''" using dn digit_head [of "hd (dec_nat n)"] by (cases "dec_nat n") auto
  then have neg: "take 1 (dec_nat n @ rest) \<noteq> ''-''" using dn by (cases "dec_nat n") auto
  have lead: "\<not> (1 < length (dec_nat n) \<and> hd (dec_nat n) = CHR ''0'')" using dec_nat_head by blast
  have pos: "parse_number t = Some (JInt (int n), rest)" "parse_number (CHR ''-'' # t) = Some (JInt (- int n), rest)"
    if "takeWhile is_json_digit t = dec_nat n" "dropWhile is_json_digit t = rest" "take 1 t \<noteq> ''-''" for t
    using parse_number_plain [OF refl refl, of t "dec_nat n" rest] parse_number_plain [OF refl refl, of "CHR ''-'' # t" "dec_nat n" rest]
      that assms dn lead by (simp_all add: nat_of_dec_nat)
  from pos [OF split neg] show "parse_number (dec_nat n @ rest) = Some (JInt (int n), rest)"
    "parse_number (CHR ''-'' # dec_nat n @ rest) = Some (JInt (- int n), rest)" .
qed

lemma parse_itoa: "stops rest \<Longrightarrow> parse_number (itoa i @ rest) = Some (JInt i, rest)"
  using parse_number_nat [of rest "nat i"] parse_number_nat [of rest "nat (- i)"] by (simp add: itoa_def)

section \<open>Values\<close>

text \<open>Values whose numbers are all integers; the program writes no others.\<close>

fun integral :: "json \<Rightarrow> bool" where
  "integral (JLit t) = False"
| "integral (JArr vs) = list_all integral vs"
| "integral (JObj fs) = list_all (\<lambda>kv. integral (snd kv)) fs"
| "integral v = True"

fun clean_json :: "json \<Rightarrow> json" where
  "clean_json (JStr s) = JStr (clean_text s)"
| "clean_json (JArr vs) = JArr (map clean_json vs)"
| "clean_json (JObj fs) = JObj (map (\<lambda>kv. (clean_text (fst kv), clean_json (snd kv))) fs)"
| "clean_json v = v"

lemma value_head: "parse_value (Suc n) (c # s) = parse_number (c # s)" if "c = CHR ''-'' \<or> is_json_digit c"
proof -
  have "\<not> is_json_space c" "c \<notin> {CHR ''n'', CHR ''t'', CHR ''f'', CHR 34, CHR ''['', CHR ''{''}"
    using that digit_head [of c] by (auto simp: is_json_space_def byte_of_def)
  then show ?thesis by (simp add: skip_ws_def has_prefix_def Let_def)
qed

lemma itoa_head: "\<exists>c s. itoa i = c # s \<and> (c = CHR ''-'' \<or> is_json_digit c)"
  using dec_nat_digits [of "nat i"] by (cases "dec_nat (nat i)") (auto simp: itoa_def)

lemma parse_int: "stops rest \<Longrightarrow> parse_value (Suc n) (itoa i @ rest) = Some (JInt i, rest)"
  using itoa_head [of i] value_head parse_itoa [of rest i] by fastforce

lemma skip_ws_stop: "c \<in> set [CHR '','', CHR '']'', CHR ''}'', CHR '':'', CHR ''['', CHR ''{'', CHR 34] \<Longrightarrow> skip_ws (c # s) = c # s"
  by (auto simp: skip_ws_def is_json_space_def byte_of_def)

lemma json_string_Cons: "json_string s = CHR 34 # concat (map json_chunk (chunks s)) @ [CHR 34]"
  by (simp add: json_string_def)

lemma parse_str: "parse_value (Suc n) (json_string s @ rest) = Some (JStr (clean_text s), rest)"
proof -
  have "skip_ws (json_string s @ rest) = json_string s @ rest" by (simp add: json_string_Cons skip_ws_stop)
  then show ?thesis using parse_json_string [of s rest]
    by (simp add: Let_def json_string_Cons has_prefix_def del: One_nat_def)
qed

lemma parse_atoms:
  "parse_value (Suc n) (''null'' @ rest) = Some (JNull, rest)"
  "parse_value (Suc n) (''true'' @ rest) = Some (JBool True, rest)"
  "parse_value (Suc n) (''false'' @ rest) = Some (JBool False, rest)"
  by (simp_all add: skip_ws_def is_json_space_def byte_of_def has_prefix_def Let_def)

lemma marshal_head: "integral j \<Longrightarrow> \<exists>c s. marshal j = c # s \<and> \<not> is_json_space c \<and> c \<noteq> CHR '']'' \<and> c \<noteq> CHR ''}''"
proof (cases j)
  case (JInt i)
  then show ?thesis using itoa_head [of i] by (fastforce simp: is_json_digit_def is_json_space_def byte_of_def)
qed (auto simp: is_json_space_def byte_of_def json_string_Cons)

lemma stops_simps [simp]: "stops []" "stops (CHR '','' # s)" "stops (CHR '']'' # s)" "stops (CHR ''}'' # s)"
  by (simp_all add: stops_def)

lemma join_Cons: "xs \<noteq> [] \<Longrightarrow> join_with sep (x # xs) = x @ sep @ join_with sep xs"
  by (cases xs) simp_all

lemma skip_ws_head: "\<not> is_json_space c \<Longrightarrow> skip_ws (c # s) = c # s"
  by (simp add: skip_ws_def)

lemma has_prefix_char: "has_prefix [c] (d # s) = (c = d)"
  by (auto simp: has_prefix_def)

lemma parse_elems_marshal:
  assumes "\<And>v n rest. v \<in> set vs \<Longrightarrow> 2 * length (marshal v) \<le> n \<Longrightarrow> stops rest
      \<Longrightarrow> parse_value n (marshal v @ rest) = Some (clean_json v, rest)"
    and "vs \<noteq> []" and "2 * length (join_with '','' (map marshal vs)) + 1 \<le> n"
  shows "parse_elems n (join_with '','' (map marshal vs) @ CHR '']'' # rest) = Some (map clean_json vs, rest)"
  using assms
proof (induction vs arbitrary: n)
  case (Cons v vs)
  then obtain m where n: "n = Suc m" by (cases n) auto
  show ?case
  proof (cases "vs = []")
    case True
    with Cons.prems n have "parse_value m (marshal v @ CHR '']'' # rest) = Some (clean_json v, CHR '']'' # rest)" by simp
    then show ?thesis by (simp add: True n skip_ws_stop has_prefix_char)
  next
    case False
    let ?t = "join_with '','' (map marshal vs) @ CHR '']'' # rest"
    have len: "2 * (length (marshal v) + Suc (length (join_with '','' (map marshal vs)))) \<le> m"
      using Cons.prems(3) False by (simp add: n join_Cons)
    have "parse_value m (marshal v @ CHR '','' # ?t) = Some (clean_json v, CHR '','' # ?t)"
      using Cons.prems(1) [of v m "CHR '','' # ?t"] len by simp
    moreover have "parse_elems m ?t = Some (map clean_json vs, rest)"
      using len by (intro Cons.IH Cons.prems(1) False) simp_all
    ultimately show ?thesis using False by (simp add: n join_Cons skip_ws_stop has_prefix_char)
  qed
qed simp

abbreviation member_text :: "string \<times> json \<Rightarrow> string" where
  "member_text kv \<equiv> json_string (fst kv) @ '':'' @ marshal (snd kv)"

lemma parse_members_marshal:
  assumes "\<And>kv n rest. kv \<in> set fs \<Longrightarrow> 2 * length (marshal (snd kv)) \<le> n \<Longrightarrow> stops rest
      \<Longrightarrow> parse_value n (marshal (snd kv) @ rest) = Some (clean_json (snd kv), rest)"
    and "fs \<noteq> []" and "2 * length (join_with '','' (map member_text fs)) + 1 \<le> n"
  shows "parse_members n (join_with '','' (map member_text fs) @ CHR ''}'' # rest)
    = Some (map (\<lambda>kv. (clean_text (fst kv), clean_json (snd kv))) fs, rest)"
  using assms
proof (induction fs arbitrary: n)
  case (Cons kv fs)
  then obtain m where n: "n = Suc m" by (cases n) auto
  have key: "skip_ws (json_string k @ t) = json_string k @ t" "has_prefix [CHR 34] (json_string k @ t)" for k t
    by (simp_all add: json_string_Cons skip_ws_stop has_prefix_char)
  show ?case
  proof (cases "fs = []")
    case True
    with Cons.prems n have "parse_value m (marshal (snd kv) @ CHR ''}'' # rest) = Some (clean_json (snd kv), CHR ''}'' # rest)" by simp
    then show ?thesis using parse_json_string [of "fst kv" "CHR '':'' # marshal (snd kv) @ CHR ''}'' # rest"]
      by (simp add: True n skip_ws_stop has_prefix_char key del: drop_append)
  next
    case False
    let ?t = "join_with '','' (map member_text fs) @ CHR ''}'' # rest"
    have len: "2 * (length (marshal (snd kv)) + Suc (length (join_with '','' (map member_text fs)))) \<le> m"
      using Cons.prems(3) False by (simp add: n join_Cons)
    have "parse_value m (marshal (snd kv) @ CHR '','' # ?t) = Some (clean_json (snd kv), CHR '','' # ?t)"
      using Cons.prems(1) [of kv m "CHR '','' # ?t"] len by simp
    moreover have "parse_members m ?t = Some (map (\<lambda>kv. (clean_text (fst kv), clean_json (snd kv))) fs, rest)"
      using len by (intro Cons.IH Cons.prems(1) False) simp_all
    ultimately show ?thesis using False parse_json_string [of "fst kv" "CHR '':'' # marshal (snd kv) @ CHR '','' # ?t"]
      by (simp add: n join_Cons skip_ws_stop has_prefix_char key del: drop_append)
  qed
qed simp

lemma parse_marshal:
  "integral j \<Longrightarrow> 2 * length (marshal j) \<le> n \<Longrightarrow> stops rest \<Longrightarrow> parse_value n (marshal j @ rest) = Some (clean_json j, rest)"
proof (induction j arbitrary: n rest)
  case JNull
  then show ?case using parse_atoms(1) by (cases n) simp_all
next
  case (JBool b)
  then show ?case using parse_atoms(2,3) by (cases n; cases b) simp_all
next
  case (JInt i)
  moreover have "itoa i \<noteq> []" using itoa_head [of i] by auto
  ultimately show ?case using parse_int [of rest "n - 1" i] by (cases n) simp_all
next
  case (JLit t)
  then show ?case by simp
next
  case (JStr s)
  then show ?case using parse_str [of "n - 1" s rest] by (cases n) (simp_all add: json_string_Cons)
next
  case (JArr vs)
  then obtain m where n: "n = Suc m" by (cases n) auto
  let ?body = "join_with '','' (map marshal vs)"
  show ?case
  proof (cases vs)
    case Nil
    then show ?thesis by (simp add: n skip_ws_stop has_prefix_char has_prefix_def Let_def)
  next
    case (Cons v vs')
    obtain c s where head: "?body = c # s" "\<not> is_json_space c" "c \<noteq> CHR '']''"
    proof -
      obtain c s where "marshal v = c # s" "\<not> is_json_space c" "c \<noteq> CHR '']''"
        using marshal_head [of v] JArr.prems(1) Cons by auto
      then show ?thesis using that Cons by (cases vs') auto
    qed
    have "parse_elems m (?body @ CHR '']'' # rest) = Some (map clean_json vs, rest)"
      using JArr Cons n by (intro parse_elems_marshal) (auto simp: list_all_iff)
    then show ?thesis using head by (simp add: n skip_ws_stop skip_ws_head has_prefix_def Let_def)
  qed
next
  case (JObj fs)
  then obtain m where n: "n = Suc m" by (cases n) auto
  let ?body = "join_with '','' (map member_text fs)"
  show ?case
  proof (cases fs)
    case Nil
    then show ?thesis by (simp add: n skip_ws_stop has_prefix_def Let_def)
  next
    case (Cons f fs')
    obtain s where head: "?body = CHR 34 # s" using Cons by (cases fs') (auto simp: json_string_Cons)
    have "parse_members m (?body @ CHR ''}'' # rest) = Some (map (\<lambda>kv. (clean_text (fst kv), clean_json (snd kv))) fs, rest)"
    proof (rule parse_members_marshal)
      fix kv k rest assume kv: "kv \<in> set fs" and "2 * length (marshal (snd kv)) \<le> k" "stops rest"
      moreover have "integral (snd kv)" using JObj.prems(1) kv by (simp add: list_all_iff)
      moreover have "snd kv \<in> Basic_BNFs.snds kv" by (cases kv) (simp add: snds.simps)
      ultimately show "parse_value k (marshal (snd kv) @ rest) = Some (clean_json (snd kv), rest)"
        using JObj.IH [OF kv] by blast
    qed (use JObj.prems Cons n in simp_all)
    then show ?thesis using head by (simp add: n skip_ws_stop has_prefix_def Let_def)
  qed
qed

theorem json_roundtrip:
  assumes "integral j"
  shows "parse_json (marshal j) = Some (clean_json j)"
  using parse_marshal [OF assms, of "2 * length (marshal j) + 2" "[]"] by (simp add: parse_json_def skip_ws_def)

text \<open>No control character, hence no line end, is ever written.\<close>

definition printable :: "char \<Rightarrow> bool" where
  "printable c \<longleftrightarrow> 32 \<le> byte_of c"

lemma plain_printable: "list_all plain_byte w \<Longrightarrow> list_all printable w"
  by (auto simp: list_all_iff plain_byte_def printable_def)

lemma json_chunk_printable:
  assumes "good_chunk c"
  shows "list_all printable (json_chunk c)"
  using assms
proof (cases rule: json_chunk_shapes)
  case (short d)
  then show ?thesis using unescape_short(2) [OF short(1)] by (simp add: printable_def backslash_def byte_of_def)
next
  case long
  then show ?thesis using plain_printable [OF hex_digits_plain] by (simp add: printable_def backslash_def byte_of_def)
next
  case plain
  then show ?thesis using plain_printable by simp
qed

lemma json_string_printable: "list_all printable (json_string s)"
proof -
  have "list_all printable (concat (map json_chunk cs))" if "\<forall>c \<in> set cs. good_chunk c" for cs
    using that by (induction cs) (simp_all add: json_chunk_printable)
  moreover have "\<forall>c \<in> set (chunks s). good_chunk c" using chunks_good by blast
  ultimately show ?thesis by (simp add: json_string_def printable_def byte_of_def)
qed

lemma itoa_printable: "list_all printable (itoa i)"
  using dec_nat_digits [of "nat i"] dec_nat_digits [of "nat (- i)"]
  by (auto simp: itoa_def list_all_iff is_json_digit_def printable_def byte_of_def)

lemma join_printable: "list_all printable sep \<Longrightarrow> \<forall>x \<in> set xs. list_all printable x \<Longrightarrow> list_all printable (join_with sep xs)"
  by (induction sep xs rule: join_with.induct) simp_all

lemma printable_consts: "printable (CHR '','')" "printable (CHR '':'')" "printable (CHR ''['')" "printable (CHR '']'')"
  "printable (CHR ''{'')" "printable (CHR ''}'')"
  by (simp_all add: printable_def byte_of_def)

lemma marshal_printable: "integral j \<Longrightarrow> list_all printable (marshal j)"
proof (induction j)
  case (JArr vs)
  then have "list_all printable (join_with '','' (map marshal vs))"
    by (intro join_printable) (auto simp: printable_consts list_all_iff)
  then show ?case by (simp add: printable_consts)
next
  case (JObj fs)
  have "list_all printable (marshal (snd kv))" if "kv \<in> set fs" for kv
  proof -
    have "snd kv \<in> Basic_BNFs.snds kv" by (cases kv) (simp add: snds.simps)
    with JObj that show ?thesis by (auto simp: list_all_iff)
  qed
  then have "list_all printable (join_with '','' (map member_text fs))"
    by (intro join_printable) (auto simp: json_string_printable printable_consts)
  then show ?case by (simp add: printable_consts)
qed (simp_all add: json_string_printable itoa_printable, simp_all add: printable_def byte_of_def)

end
