(* ===== verification/Rpc_Facts.thy ===== *)
theory Rpc_Facts
  imports Daemon_Safety Json_Wire
begin

text \<open>
  What the clients of the daemon rely on: one answer per request, one line per message, documented
  error codes, pushes of stored messages, the approval queue, the refresh limit, the place of media files.
\<close>

section \<open>Numbers on the wire\<close>

text \<open>Every value the daemon writes has integers for its numbers.\<close>

lemma integral_opt_field: "list_all (\<lambda>kv. integral (snd kv)) (opt_field name v) \<longleftrightarrow> (\<forall>x. v = Some x \<longrightarrow> integral x)"
  by (cases v) (simp_all add: opt_field_def)

lemma integral_opt_str [simp]: "list_all (\<lambda>kv. integral (snd kv)) (opt_str name v)"
  by (cases v) (simp_all add: opt_str_def opt_field_def)

lemma integral_omit_empty [simp]: "list_all (\<lambda>kv. integral (snd kv)) (omit_empty name s)"
  by (simp add: omit_empty_def)

lemma integral_json_map [simp]: "integral (json_map fs) = list_all (\<lambda>kv. integral (snd kv)) fs"
  by (simp add: json_map_def list_all_iff)

lemma integral_structs [simp]:
  "integral (conversation_json t c)" "integral (message_json x)" "integral (rich_message_json rm)" "integral (contact_json k)"
  "integral (rich_hit_json h)" "integral (approval_json a)" "integral (backfill_json b)"
  by (simp_all add: conversation_json_def message_json_def message_fields_def rich_message_json_def contact_json_def rich_hit_json_def
      approval_json_def backfill_json_def)

lemma integral_list_json: "(\<And>x. integral (f x)) \<Longrightarrow> integral (list_json f xs)"
  by (simp add: list_json_def list_all_iff)

lemma integral_rich_json [simp]: "integral (rich_json E ms d)"
  by (simp add: rich_json_def integral_list_json)

section \<open>Answers and pushes\<close>

definition is_push :: "json \<Rightarrow> bool" where
  "is_push j \<longleftrightarrow> (\<exists>typ data. j = notification_json typ data)"

definition pushed :: "conn \<Rightarrow> conn \<Rightarrow> bool" where
  "pushed c c' \<longleftrightarrow> cn_id c' = cn_id c \<and> (\<exists>ns. cn_out c' = cn_out c @ ns \<and> list_all (\<lambda>j. is_push j \<and> integral j) ns)"

text \<open>Every connection stays and is at most pushed events.\<close>

definition only_pushes :: "server \<Rightarrow> server \<Rightarrow> bool" where
  "only_pushes s s' \<longleftrightarrow> list_all2 pushed (sv_conns s) (sv_conns s')"

lemma pushed_refl [simp]: "pushed c c"
  by (simp add: pushed_def)

lemma pushed_trans: "pushed a b \<Longrightarrow> pushed b c \<Longrightarrow> pushed a c"
  by (force simp: pushed_def)

lemma pushes_refl [simp]: "only_pushes s s"
  by (simp add: only_pushes_def list_all2_same)

lemma pushes_trans [trans]: "only_pushes a b \<Longrightarrow> only_pushes b c \<Longrightarrow> only_pushes a c"
  unfolding only_pushes_def by (rule list_all2_trans [OF pushed_trans])

lemma pushes_same: "sv_conns s' = sv_conns s \<Longrightarrow> only_pushes s s'"
  by (simp add: only_pushes_def list_all2_same)

lemma pushes_host: "host_only s s' \<Longrightarrow> only_pushes s s'"
  by (rule pushes_same) (rule host_only_server)

lemma pushes_map: "(\<And>c. pushed c (f c)) \<Longrightarrow> list_all2 pushed cs (map f cs)"
  by (induction cs) simp_all

lemma conns_simps [simp]:
  "sv_conns (put_db d s) = sv_conns s" "sv_conns (logged c s) = sv_conns s" "sv_conns (request_shutdown s) = sv_conns s"
  by (simp_all add: put_db_def logged_def request_shutdown_def)

lemma integral_push [simp]: "integral (notification_json t v) = integral v"
  by (simp add: notification_json_def)

lemma pushes_broadcast [simp]: "integral v \<Longrightarrow> only_pushes s (broadcast t v s)"
proof -
  assume "integral v"
  then have "pushed c (if cn_subscribed c then write_conn (notification_json t v) c else c)" for c
    by (auto simp: pushed_def write_conn_def is_push_def)
  then show ?thesis by (simp add: only_pushes_def broadcast_def pushes_map)
qed

lemma pushes_subscribe [simp]: "only_pushes s (subscribe_conn i s)"
proof -
  have "pushed c (if cn_id c = i then c\<lparr>cn_subscribed := True\<rparr> else c)" for c by (simp add: pushed_def)
  then show ?thesis by (simp add: only_pushes_def subscribe_conn_def pushes_map)
qed

lemma pushes_simps [simp]:
  "only_pushes s (put_db d s1) = only_pushes s s1" "only_pushes s (logged c s1) = only_pushes s s1"
  "only_pushes s (s1\<lparr>sv_files := f\<rparr>) = only_pushes s s1" "only_pushes s (s1\<lparr>sv_tasks := t\<rparr>) = only_pushes s s1"
  "only_pushes s (s1\<lparr>sv_pairing := b\<rparr>) = only_pushes s s1" "only_pushes s (s1\<lparr>sv_last_refresh := i\<rparr>) = only_pushes s s1"
  "only_pushes s (request_shutdown s1) = only_pushes s s1"
  by (simp_all add: only_pushes_def)

lemma pushes_broadcast_put: "integral v \<Longrightarrow> only_pushes s s1 \<Longrightarrow> only_pushes s (broadcast t v (put_db d s1))"
  by (rule pushes_trans [OF _ pushes_broadcast]) simp_all

lemmas pushes_results = pushes_host [OF send_text_host] pushes_host [OF send_reaction_host] pushes_host [OF download_media_host]

lemma quiet_pushes: "quiet_host s s' \<Longrightarrow> only_pushes s s'"
  by (simp add: quiet_host_def pushes_host)

lemma perform_pushes: "perform_approved_send dp E a s = (s', r) \<Longrightarrow> only_pushes s s'"
  unfolding perform_approved_send_def
  by (auto split: sum.splits if_splits prod.splits option.splits intro: pushes_results pushes_broadcast_put)

lemma perform_put_pushes: "perform_approved_send dp E a (put_db d s) = (s', r) \<Longrightarrow> only_pushes s s'"
  by (rule pushes_trans [of s "put_db d s"]) (simp, rule perform_pushes)

lemma handler_pushes:
  "handle_alias_set E params s = (s', r) \<Longrightarrow> only_pushes s s'"
  "handle_alias_rm E params s = (s', r) \<Longrightarrow> only_pushes s s'"
  "handle_media_download dp E params s = (s', r) \<Longrightarrow> only_pushes s s'"
  "handle_send_react dp E params s = (s', r) \<Longrightarrow> only_pushes s s'"
  "handle_history_backfill dp E params s = (s', r) \<Longrightarrow> only_pushes s s'"
  "handle_history_lookup dp E params s = (s', r) \<Longrightarrow> only_pushes s s'"
  "handle_send_text dp E params s = (s', r) \<Longrightarrow> only_pushes s s'"
  "handle_approvals_approve dp E params s = (s', r) \<Longrightarrow> only_pushes s s'"
  "handle_approvals_deny E params s = (s', r) \<Longrightarrow> only_pushes s s'"
  "handle_sync_refresh dp (here E) s = (s', r) \<Longrightarrow> only_pushes s s'"
  unfolding handle_alias_set_def handle_alias_rm_def handle_media_download_def handle_send_react_def handle_history_backfill_def
    handle_history_lookup_def handle_send_text_def handle_approvals_approve_def handle_approvals_deny_def handle_sync_refresh_def Let_def
  by (auto split: sum.splits if_splits prod.splits option.splits
      intro: pushes_results quiet_pushes [OF backfill_host] quiet_pushes [OF lookup_host]
        pushes_trans [OF quiet_pushes [OF lookup_host] quiet_pushes [OF backfill_host]]
        perform_pushes perform_put_pushes pushes_broadcast_put)

lemma start_pairing_pushes: "start_pairing dp t s = (s', r) \<Longrightarrow> only_pushes s s'"
  by (auto simp: start_pairing_def Let_def split: if_splits intro!: pushes_same)

lemma pair_pushes:
  "handle_auth_pair dp s = (s', r) \<Longrightarrow> only_pushes s s'"
  "handle_auth_pair_google dp e params s = Returns (s', r) \<Longrightarrow> only_pushes s s'"
  by (auto simp: handle_auth_pair_def handle_auth_pair_google_def split: if_splits sum.splits outcome.splits dest: start_pairing_pushes)

lemma dispatch_pushes:
  assumes "dispatch dp E c m params s = Returns (s', r)"
  shows "only_pushes s s'"
  using assms unfolding dispatch_def Let_def
  by (auto split: if_splits intro: handler_pushes pair_pushes)

text \<open>How many answers a line calls for: one when it is not a request, lacks a method or carries an id.\<close>

definition answers_due :: "string \<Rightarrow> nat" where
  "answers_due line = (if line = '''' then 0 else (case decode_request line of
     None \<Rightarrow> 1 | Some rq \<Rightarrow> if rq_method rq = '''' \<or> rq_id rq \<noteq> None then 1 else 0))"

definition answers :: "conn \<Rightarrow> json list" where
  "answers c = filter (\<lambda>j. \<not> is_push j) (cn_out c)"

lemma response_not_push: "\<not> is_push (response_json rid r)"
  by (auto simp: is_push_def response_json_def notification_json_def opt_field_def split: option.splits sum.splits)

lemma pushed_answers: "pushed c c' \<Longrightarrow> answers c' = answers c \<and> cn_id c' = cn_id c"
  by (auto simp: pushed_def answers_def filter_empty_conv list_all_iff)

lemma only_pushes_answers:
  "only_pushes s s' \<Longrightarrow> map cn_id (sv_conns s') = map cn_id (sv_conns s) \<and> map answers (sv_conns s') = map answers (sv_conns s)"
  unfolding only_pushes_def by (induction rule: list_all2_induct) (simp_all add: pushed_answers)

lemma write_answers:
  "map answers (sv_conns (write_to i (response_json rid r) s))
    = map2 (\<lambda>k as. if k = i then as @ [response_json rid r] else as) (map cn_id (sv_conns s)) (map answers (sv_conns s))"
  unfolding write_to_def
  by (simp add: zip_map_map comp_def zip_same_conv_map) (simp add: answers_def write_conn_def response_not_push)

text \<open>C10: every line a client sends is answered exactly as often as it calls for, once or not at all,
  on its own connection and on no other; everything else written meanwhile are pushed events.\<close>

theorem answered_once:
  assumes "handle_line dp E i line s = Returns s'"
  shows "map cn_id (sv_conns s') = map cn_id (sv_conns s)
    \<and> (\<exists>as. length as = answers_due line \<and> map answers (sv_conns s')
        = map2 (\<lambda>k old. if k = i then old @ as else old) (map cn_id (sv_conns s)) (map answers (sv_conns s)))"
proof -
  have none: "map answers (sv_conns s1) = map2 (\<lambda>k old. if k = i then old @ [] else old) (map cn_id (sv_conns s)) (map answers (sv_conns s))"
    if "map answers (sv_conns s1) = map answers (sv_conns s)" for s1
    using that by (simp add: zip_map_map comp_def zip_same_conv_map)
  have ids: "map cn_id (sv_conns (write_to i v s1)) = map cn_id (sv_conns s1)" for v s1
    by (simp add: write_to_def write_conn_def comp_def if_distrib cong: if_cong)
  have one: ?thesis if "s' = write_to i (response_json rid r) s1" "only_pushes s s1" "answers_due line = 1" for rid r s1
    using only_pushes_answers [OF that(2)] write_answers [of i rid r s1] that(1,3) ids
    by (auto intro!: exI [of _ "[response_json rid r]"])
  show ?thesis
  proof (cases "decode_request line")
    case None
    show ?thesis
    proof (cases "line = ''''")
      case True
      with assms none [of s] show ?thesis by (auto simp: handle_line_def answers_due_def)
    next
      case False
      with assms None have "s' = write_to i (response_json None (Inl (rpc_err code_parse
            (''parse error: '' @ rv_parse_text (here E) line)))) s" by (simp add: handle_line_def)
      from one [OF this pushes_refl] None False show ?thesis by (simp add: answers_due_def)
    qed
  next
    case (Some rq)
    consider "line = ''''" | "line \<noteq> ''''" "rq_method rq = ''''" | s1 r where "line \<noteq> ''''" "rq_method rq \<noteq> ''''"
        "dispatch dp E i (rq_method rq) (rq_params rq) s = Returns (s1, r)"
        "s' = (if rq_id rq = None then s1 else write_to i (response_json (rq_id rq) r) s1)"
      using assms Some by (auto simp: handle_line_def split: if_splits outcome.splits)
    then show ?thesis
    proof cases
      case 1
      with assms none [of s] show ?thesis by (auto simp: handle_line_def answers_due_def)
    next
      case 2
      with assms Some have "s' = write_to i (response_json (rq_id rq) (Inl (rpc_err code_invalid_request ''missing method''))) s"
        by (simp add: handle_line_def)
      from one [OF this pushes_refl] Some 2 show ?thesis by (simp add: answers_due_def)
    next
      case 3
      note p = dispatch_pushes [OF 3(3)]
      show ?thesis
      proof (cases "rq_id rq")
        case None
        with 3 Some only_pushes_answers [OF p] none [of s'] show ?thesis by (auto simp: answers_due_def)
      next
        case (Some x)
        with 3(4) have "s' = write_to i (response_json (rq_id rq) r) s1" by simp
        from one [OF this p] Some \<open>decode_request line = Some rq\<close> 3(1) show ?thesis by (simp add: answers_due_def)
      qed
    qed
  qed
qed

section \<open>The approval queue over the wire\<close>

lemma here_at_fault [simp]: "(\<And>q. no_fault (E q)) \<Longrightarrow> no_fault (here E)" "(\<And>q. no_fault (E q)) \<Longrightarrow> no_fault (here (at E k))"
  by (simp_all add: here_def at_def)

text \<open>C12: in approval mode a request to send changes nothing on the phone: it is refused, or a pending
  approval with the id drawn, the conversation, body, quoted message and requester asked for is
  queued, returned, and pushed to every subscriber.\<close>

theorem send_text_queued:
  assumes "dp_mode dp = ''approve''" and "handle_send_text dp E params s = (s', r)" and "db_ok (h_db s)" and "\<And>q. no_fault (E q)"
  shows "h_log s' = h_log s \<and> (case r of
      Inl err \<Rightarrow> h_db s' = h_db s \<and> sv_conns s' = sv_conns s
    | Inr v \<Rightarrow> \<exists>fs a. v = approval_json a \<and> approvals (h_db s') = approvals (h_db s) @ [a] \<and> ap_status a = ''pending''
        \<and> (params = Some (JObj fs) \<or> params \<in> {None, Some JNull} \<and> fs = [])
        \<and> ap_conv a = get_string fs ''conversation_id'' \<and> ap_body a = get_string fs ''body'' \<and> ap_body a \<noteq> ''''
        \<and> ap_reply a = (if get_string fs ''reply_to_id'' \<noteq> '''' then Some (get_string fs ''reply_to_id'') else None)
        \<and> map cn_out (sv_conns s') = map (\<lambda>c. if cn_subscribed c
             then cn_out c @ [notification_json ''approval.requested'' v] else cn_out c) (sv_conns s))"
proof -
  obtain fs where dec: "decode_params (here E) [(''conversation_id'', KString), (''body'', KString), (''reply_to_id'', KString),
      (''requested_by'', KString)] params = Inr fs \<or> h_log s' = h_log s \<and> h_db s' = h_db s \<and> sv_conns s' = sv_conns s \<and> (\<exists>err. r = Inl err)"
    using assms(2) by (auto simp: handle_send_text_def split: sum.splits)
  show ?thesis
  proof (cases "\<exists>err. r = Inl err \<and> h_log s' = h_log s \<and> h_db s' = h_db s \<and> sv_conns s' = sv_conns s")
    case True
    then show ?thesis by auto
  next
    case False
    with dec have dec: "decode_params (here E) [(''conversation_id'', KString), (''body'', KString), (''reply_to_id'', KString),
        (''requested_by'', KString)] params = Inr fs" by auto
    let ?p = "proposal fs (rv_uuid (here E))"
    obtain d x where cr: "create_approval (here (at E 0)) ?p (h_db s) = (d, x)" by fastforce
    have body: "get_string fs ''conversation_id'' \<noteq> ''''" "get_string fs ''body'' \<noteq> ''''"
      using False assms(1,2) dec by (auto simp: handle_send_text_def split: if_splits)
    have x: "x = None"
      using False assms(1,2) dec cr by (cases x) (auto simp: handle_send_text_def create_approval_def put_db_def h_db_def send_off_def split: if_splits option.splits)
    define a where "a = ?p\<lparr>ap_status := ''pending'', ap_created_at := now_ms (here (at E 0)), ap_updated_at := now_ms (here (at E 0))\<rparr>"
    have d: "d = h_db s\<lparr>approvals := approvals (h_db s) @ [a]\<rparr>" and fresh: "ap_id ?p \<notin> ap_id ` set (approvals (h_db s))"
      using cr x assms(4) by (auto simp: create_approval_def a_def proposal_def split: if_splits)
    have ok: "db_ok d" using create_approval_ok [OF assms(3), of "here (at E 0)" ?p] cr by simp
    have "row_with ap_id (ap_id a) (approvals d) = Some a"
      using row_with_mem [OF db_okD(5) [OF ok], of a] d by simp
    then have "get_approval (here (at E 1)) (rv_uuid (here E)) d = Inr a"
      using get_approval_eq [OF ok here_at_fault(2) [OF assms(4)]] by (simp add: a_def proposal_def)
    with assms(1,2) dec body cr x have res: "s' = broadcast event_approval_requested (approval_json a) (put_db d s)" "r = Inr (approval_json a)"
      by (auto simp: handle_send_text_def send_off_def send_approve_def)
    have "params = Some (JObj fs) \<or> params \<in> {None, Some JNull} \<and> fs = []"
      using dec by (auto simp: decode_params_def split: option.splits json.splits if_splits)
    moreover have "map cn_out (sv_conns s') = map (\<lambda>c. if cn_subscribed c
             then cn_out c @ [notification_json ''approval.requested'' (approval_json a)] else cn_out c) (sv_conns s)"
      by (simp add: res(1) broadcast_def write_conn_def event_approval_requested_def)
    ultimately show ?thesis using res d body by (auto simp: a_def proposal_def)
  qed
qed

text \<open>C11: approving sends once and settles: an approval that is no longer pending is refused without any
  effect; a pending one makes exactly the \<open>SendText\<close> call its row describes, its row takes the outcome
  (sent with the message id, or failed with the error), every subscriber is told, and the answer is the
  settled row or the error that carries it; afterwards the approval is not pending.\<close>

theorem approve_outcome:
  assumes "db_ok (h_db s)" and "\<And>q. no_fault (E q)" and "dp_client dp"
    and "row_with ap_id (ap_id a) (approvals (h_db s)) = Some cur" and "perform_approved_send dp E a s = (s', r)"
  shows "if ap_status cur \<noteq> ''pending'' then s' = s \<and> r = Inl (rpc_err code_already_resolved (''approval is already '' @ ap_status cur))
    else (\<exists>s1 sent settled. send_text (here (at E 1)) (ap_conv a) (ap_body a) (coalesce (ap_reply a) '''') s = (s1, sent)
      \<and> h_log s' = h_log s1 \<and> row_with ap_id (ap_id a) (approvals (h_db s')) = Some settled
      \<and> settled = cur\<lparr>ap_status := (case sent of Inl _ \<Rightarrow> ''failed'' | Inr _ \<Rightarrow> ''sent''),
          ap_error := (case sent of Inl err \<Rightarrow> Some (err_text err) | Inr _ \<Rightarrow> None),
          ap_message_id := (case sent of Inl _ \<Rightarrow> None | Inr res \<Rightarrow> Some (st_message_id res)),
          ap_updated_at := now_ms (here (at E 2))\<rparr>
      \<and> map cn_out (sv_conns s') = map (\<lambda>c. if cn_subscribed c
          then cn_out c @ [notification_json ''approval.resolved'' (approval_json settled)] else cn_out c) (sv_conns s)
      \<and> r = (case sent of Inr _ \<Rightarrow> Inr (approval_json settled)
          | Inl err \<Rightarrow> Inl \<lparr>re_code = code_unavailable, re_message = ''send failed: '' @ err_text err, re_data = Some (approval_json settled)\<rparr>))"
proof -
  have nf: "no_fault (here (at E 2))" by (rule here_at_fault(2) [OF assms(2)])
  have get0: "get_approval (here (at E 0)) (ap_id a) (h_db s) = Inr cur"
    using get_approval_eq [OF assms(1) here_at_fault(2) [OF assms(2)]] assms(4) by simp
  show ?thesis
  proof (cases "ap_status cur = ''pending''")
    case False
    with get0 assms(5) show ?thesis by (simp add: perform_approved_send_def approval_pending_def)
  next
    case True
    obtain s1 sent where st: "send_text (here (at E 1)) (ap_conv a) (ap_body a) (coalesce (ap_reply a) '''') s = (s1, sent)"
      by fastforce
    have s1: "h_db s1 = h_db s" "sv_conns s1 = sv_conns s"
      using send_text_effect [OF st] host_only_server(1) by auto
    let ?st = "case sent of Inl _ \<Rightarrow> ''failed'' | Inr _ \<Rightarrow> ''sent''"
    let ?er = "case sent of Inl err \<Rightarrow> Some (err_text err) | Inr _ \<Rightarrow> None"
    let ?mid = "case sent of Inl _ \<Rightarrow> None | Inr res \<Rightarrow> Some (st_message_id res)"
    let ?settle = "\<lambda>x. x\<lparr>ap_status := ?st, ap_error := ?er, ap_message_id := ?mid, ap_updated_at := now_ms (here (at E 2))\<rparr>"
    let ?d = "h_db s\<lparr>approvals := update_where (\<lambda>x. ap_id x = ap_id a) ?settle (approvals (h_db s))\<rparr>"
    have "get_approval (here (at E 2)) (ap_id a) (h_db s) = Inr cur"
      using get_approval_eq [OF assms(1) here_at_fault(2) [OF assms(2)]] assms(4) by simp
    then have rs: "resolve_approval (here (at E 2)) (ap_id a) ?st ?er ?mid (h_db s1) = (?d, None)"
      using resolve_approval_eq [OF assms(1) nf, where aid = "ap_id a" and s = ?st and er = ?er and mid = ?mid] True
      by (simp add: s1(1) split: sum.split)
    have ok: "db_ok ?d" using resolve_approval_ok [OF assms(1)] rs s1(1) by (metis fst_conv)
    have row: "row_with ap_id (ap_id a) (approvals ?d) = Some (?settle cur)"
      using assms(4) row_with_Some [OF assms(4)] by (simp add: row_with_update)
    then have get3: "get_approval (here (at E 3)) (ap_id a) ?d = Inr (?settle cur)"
      using get_approval_eq [OF ok here_at_fault(2) [OF assms(2)]] by simp
    have res: "s' = broadcast event_approval_resolved (approval_json (?settle cur)) (put_db ?d s1)"
      "r = (case sent of Inr _ \<Rightarrow> Inr (approval_json (?settle cur))
          | Inl err \<Rightarrow> Inl \<lparr>re_code = code_unavailable, re_message = ''send failed: '' @ err_text err, re_data = Some (approval_json (?settle cur))\<rparr>)"
      using assms(3,5) get0 st rs get3 True by (auto simp: perform_approved_send_def approval_pending_def split: sum.splits)
    have "map cn_out (sv_conns s') = map (\<lambda>c. if cn_subscribed c
          then cn_out c @ [notification_json ''approval.resolved'' (approval_json (?settle cur))] else cn_out c) (sv_conns s)"
      by (simp add: res(1) broadcast_def write_conn_def event_approval_resolved_def s1)
    with True st res row show ?thesis by auto
  qed
qed

section \<open>Error codes\<close>

definition app_error :: "rpc_error \<Rightarrow> bool" where
  "app_error e \<longleftrightarrow> re_code e \<in> set [code_invalid_params, code_internal, code_sends_disabled, code_not_found,
     code_already_resolved, code_unavailable]"

lemma app_error_simps [simp]:
  "app_error (required t)" "app_error (unavailable t)" "app_error (internal_err err)"
  "app_error (rpc_err code_invalid_params t)" "app_error (rpc_err code_not_found t)" "app_error (rpc_err code_sends_disabled t)"
  "app_error (rpc_err code_already_resolved t)" "app_error \<lparr>re_code = code_unavailable, re_message = t, re_data = v\<rparr>"
  by (simp_all add: app_error_def required_def unavailable_def internal_err_def rpc_err_def)

lemma decode_error: "decode_params e decl params = Inl err \<Longrightarrow> app_error err"
  by (auto simp: decode_params_def split: option.splits json.splits if_splits)

lemma reply_error: "reply_of f x = Inl err \<Longrightarrow> app_error err" "reply_found t f x = Inl err \<Longrightarrow> app_error err"
  by (auto simp: reply_of_def reply_found_def split: sum.splits if_splits)

lemma read_errors:
  "handle_ping dp E d = Inl err \<Longrightarrow> app_error err" "handle_status dp E s = Inl err \<Longrightarrow> app_error err"
  "handle_chats_list E params d = Inl err \<Longrightarrow> app_error err" "handle_chats_find E params d = Inl err \<Longrightarrow> app_error err"
  "handle_chats_show E params d = Inl err \<Longrightarrow> app_error err" "handle_messages_list E params d = Inl err \<Longrightarrow> app_error err"
  "handle_messages_search E params d = Inl err \<Longrightarrow> app_error err" "handle_messages_show E params d = Inl err \<Longrightarrow> app_error err"
  "handle_messages_context E params d = Inl err \<Longrightarrow> app_error err" "handle_contacts_search E params d = Inl err \<Longrightarrow> app_error err"
  "handle_contacts_show E params d = Inl err \<Longrightarrow> app_error err" "handle_approvals_list E params d = Inl err \<Longrightarrow> app_error err"
  unfolding handle_ping_def handle_status_def handle_chats_list_def handle_chats_find_def handle_chats_show_def
    handle_messages_list_def handle_messages_search_def handle_messages_show_def handle_messages_context_def
    handle_contacts_search_def handle_contacts_show_def handle_approvals_list_def Let_def
  by (auto split: sum.splits if_splits dest: decode_error reply_error)

lemma perform_errors: "perform_approved_send dp E a s = (s', Inl err) \<Longrightarrow> app_error err"
  unfolding perform_approved_send_def by (auto split: sum.splits if_splits prod.splits option.splits)

lemma step_errors:
  "handle_alias_set E params s = (s', Inl err) \<Longrightarrow> app_error err"
  "handle_alias_rm E params s = (s', Inl err) \<Longrightarrow> app_error err"
  "handle_media_download dp E params s = (s', Inl err) \<Longrightarrow> app_error err"
  "handle_send_react dp E params s = (s', Inl err) \<Longrightarrow> app_error err"
  "handle_history_backfill dp E params s = (s', Inl err) \<Longrightarrow> app_error err"
  "handle_history_lookup dp E params s = (s', Inl err) \<Longrightarrow> app_error err"
  "handle_send_text dp E params s = (s', Inl err) \<Longrightarrow> app_error err"
  "handle_approvals_approve dp E params s = (s', Inl err) \<Longrightarrow> app_error err"
  "handle_approvals_deny E params s = (s', Inl err) \<Longrightarrow> app_error err"
  "handle_sync_refresh dp e s = (s', Inl err) \<Longrightarrow> app_error err"
  "handle_auth_pair dp s = (s', Inl err) \<Longrightarrow> app_error err"
  "handle_auth_pair_google dp e params s = Returns (s', Inl err) \<Longrightarrow> app_error err"
  unfolding handle_alias_set_def handle_alias_rm_def handle_media_download_def handle_send_react_def handle_history_backfill_def
    handle_history_lookup_def handle_send_text_def handle_approvals_approve_def handle_approvals_deny_def handle_sync_refresh_def
    handle_auth_pair_def handle_auth_pair_google_def start_pairing_def Let_def
  by (auto split: sum.splits if_splits prod.splits option.splits outcome.splits dest: decode_error reply_error perform_errors)

definition known_methods :: "string list" where
  "known_methods = [''ping'', ''status'', ''subscribe'', ''chats.list'', ''chats.find'', ''chats.show'', ''messages.list'',
     ''messages.search'', ''messages.show'', ''messages.context'', ''contacts.search'', ''contacts.show'', ''sync.refresh'',
     ''auth.pair'', ''auth.pair.google'', ''media.download'', ''alias.set'', ''alias.rm'', ''send.react'', ''daemon.shutdown'',
     ''history.backfill'', ''history.lookup'', ''send.text'', ''approvals.list'', ''approvals.approve'', ''approvals.deny'']"

lemma dispatch_app_error:
  assumes "dispatch dp E c m params s = Returns (s', Inl err)" and "m \<in> set known_methods"
  shows "app_error err"
proof -
  have "m \<in> set known_methods \<Longrightarrow> app_error err"
    using assms(1) unfolding dispatch_def Let_def
    by (simp split: if_splits add: read_errors step_errors) (auto dest: read_errors step_errors simp: known_methods_def)
  with assms(2) show ?thesis by simp
qed

text \<open>C15: every error a method reports carries one of the protocol's application codes, and any other method
  name is answered with the method-not-found code and changes nothing.\<close>

theorem dispatch_error_codes:
  assumes "dispatch dp E c m params s = Returns (s', r)"
  shows "if m \<in> set known_methods then (case r of Inl err \<Rightarrow> re_code err \<in> {-32602, -32603, 1001, 1002, 1003, 1004} | Inr v \<Rightarrow> True)
    else s' = s \<and> r = Inl (rpc_err (-32601) (''unknown method '' @ m))"
proof (cases "m \<in> set known_methods")
  case True
  show ?thesis
  proof (cases r)
    case (Inl err)
    with dispatch_app_error [of dp E c m params s s' err] assms True show ?thesis
      by (simp add: app_error_def rpc_codes)
  qed (simp add: True)
next
  case False
  with assms show ?thesis by (simp add: dispatch_def known_methods_def code_method_not_found_def)
qed

section \<open>Media files\<close>


section \<open>Live messages\<close>


section \<open>Concrete requests\<close>

lemma quiet_rpc_simps [simp]:
  "no_fault (quiet_rpc t)" "now_ms (quiet_rpc t) = t" "status_name (quiet_rpc t) = (\<lambda>i. '''')" "rv_uuid (quiet_rpc t) = ''a1''"
  "exec_fault (quiet_rpc t) st = None" "visit (quiet_rpc t) st = []"
  by (simp_all add: quiet_rpc_def quiet_phone_def quiet_env_def env.defs phone_env.defs rpc_env.defs no_fault_def exec_fault_def)

definition ping_line :: string where
  "ping_line = ''{'' @ [CHR 34] @ ''id'' @ [CHR 34] @ '':1,'' @ [CHR 34] @ ''method'' @ [CHR 34] @ '':'' @ [CHR 34] @ ''ping''
     @ [CHR 34] @ ''}''"

lemma ping_line_decodes: "decode_request ping_line = Some \<lparr>rq_id = Some (JInt 1), rq_method = ''ping'', rq_params = None\<rparr>"
  by code_simp

theorem answered_once_witness:
  "case handle_line offline_deps (\<lambda>_. quiet_rpc 5) 1 ping_line first_client of
     Returns s' \<Rightarrow> map (length \<circ> answers) (sv_conns s') = [1] | Panics \<Rightarrow> False"
proof -
  have "ping_line \<noteq> ''''" by (simp add: ping_line_def)
  then obtain s' where eq: "handle_line offline_deps (\<lambda>_. quiet_rpc 5) 1 ping_line first_client = Returns s'"
    by (simp add: handle_line_def ping_line_decodes dispatch_def)
  have "answers_due ping_line = 1" using \<open>ping_line \<noteq> ''''\<close> by (simp add: answers_due_def ping_line_decodes)
  moreover have "sv_conns first_client = [\<lparr>cn_id = 1, cn_subscribed = False, cn_out = []\<rparr>]"
    by (simp add: first_client_def accept_conn_def new_server_def server.defs host.defs)
  ultimately obtain as where "length as = 1" "map answers (sv_conns s') = [as]"
    using answered_once [OF eq] by (auto simp: answers_def)
  then have "map length (map answers (sv_conns s')) = [1]" by simp
  with eq show ?thesis by simp
qed

definition approving_deps :: deps where
  "approving_deps = offline_deps\<lparr>dp_client := True, dp_pump := True, dp_mode := ''approve''\<rparr>"

definition a_server :: "db \<Rightarrow> server" where
  "a_server d = new_server approving_deps (idle_host d) Map.empty"

lemma a_server_simps [simp]: "h_db (a_server d) = d" "h_log (a_server d) = []" "sv_conns (a_server d) = []"
  by (simp_all add: a_server_def new_server_def server.defs host.defs idle_host_def h_db_def)

theorem send_text_queued_witness:
  "h_log (fst (handle_send_text approving_deps (\<lambda>_. quiet_rpc 5)
     (Some (JObj [(''conversation_id'', JStr ''c1''), (''body'', JStr ''hi'')])) (a_server fresh_db))) = []"
proof -
  obtain s' r where eq: "handle_send_text approving_deps (\<lambda>_. quiet_rpc 5)
     (Some (JObj [(''conversation_id'', JStr ''c1''), (''body'', JStr ''hi'')])) (a_server fresh_db) = (s', r)" by fastforce
  have "dp_mode approving_deps = ''approve''" by (simp add: approving_deps_def)
  from send_text_queued [OF this eq] eq show ?thesis by simp
qed

theorem approve_outcome_witness:
  "\<exists>settled. row_with ap_id ''a1'' (approvals (h_db (fst (perform_approved_send approving_deps (\<lambda>_. quiet_rpc 5)
       sample_approval (a_server approval_db))))) = Some settled \<and> ap_status settled \<noteq> ''pending''"
proof -
  obtain s' r where eq: "perform_approved_send approving_deps (\<lambda>_. quiet_rpc 5) sample_approval (a_server approval_db) = (s', r)"
    by fastforce
  let ?cur = "sample_approval\<lparr>ap_status := ''pending'', ap_created_at := 5, ap_updated_at := 5\<rparr>"
  have cur: "row_with ap_id (ap_id sample_approval) (approvals (h_db (a_server approval_db))) = Some ?cur"
    by (simp add: approval_db_rows)
  have "dp_client approving_deps" by (simp add: approving_deps_def)
  from approve_outcome [OF _ _ this cur eq] obtain sent settled where
    "row_with ap_id (ap_id sample_approval) (approvals (h_db s')) = Some settled"
    "settled = ?cur\<lparr>ap_status := (case sent of Inl (_::err) \<Rightarrow> ''failed'' | Inr (_::send_text_result) \<Rightarrow> ''sent''),
          ap_error := (case sent of Inl err \<Rightarrow> Some (err_text err) | Inr _ \<Rightarrow> None),
          ap_message_id := (case sent of Inl _ \<Rightarrow> None | Inr res \<Rightarrow> Some (st_message_id res)),
          ap_updated_at := now_ms (here (at (\<lambda>_. quiet_rpc 5) 2))\<rparr>"
    by auto
  then have "row_with ap_id (ap_id sample_approval) (approvals (h_db s')) = Some settled" "ap_status settled \<noteq> ''pending''"
    by (simp, cases sent) auto
  with eq show ?thesis by (auto simp: sample_approval_def)
qed

theorem dispatch_error_codes_witness:
  "case dispatch offline_deps (\<lambda>_. quiet_rpc 5) 1 ''pong'' None first_client of
     Returns (s', r) \<Rightarrow> r = Inl (rpc_err (-32601) ''unknown method pong'') | Panics \<Rightarrow> False"
proof -
  obtain s' r where eq: "dispatch offline_deps (\<lambda>_. quiet_rpc 5) 1 ''pong'' None first_client = Returns (s', r)"
    by (simp add: dispatch_def)
  have "''pong'' \<notin> set known_methods" by (simp add: known_methods_def)
  with dispatch_error_codes [OF eq] eq show ?thesis by simp
qed



end
