(* ===== verification/Approval_Live.thy ===== *)
theory Approval_Live
  imports Rpc_Facts
begin

text \<open>
  The sending path under concurrency (\<open>internal/rpc/handlers.go\<close>): every request runs in a goroutine of
  its own, approvals are checked before and after taking \<open>liveMu\<close>, the phone call and the resolution
  happen under it, and a denial does not take it. The stages are the handler's, cut where another
  goroutine can come between.
\<close>

section \<open>Stages\<close>

datatype stage =
    Absent
  | Waiting approval
  | Locked approval
  | Sending approval
  | Sent approval "err + send_text_result"
  | Finished "rpc_error + json"

text \<open>The check of \<open>handleApprovalsApprove\<close>, before the lock is taken.\<close>

definition ask_stage :: "'z rpc_env_scheme \<Rightarrow> string \<Rightarrow> db \<Rightarrow> stage" where
  "ask_stage e aid d = (case get_approval e aid d of
     Inl err \<Rightarrow> Finished (reply_found (''approval not found: '' @ aid) approval_json (Inl err))
   | Inr a \<Rightarrow> if ap_status a \<noteq> approval_pending
       then Finished (Inl (rpc_err code_already_resolved (''approval is already '' @ ap_status a))) else Waiting a)"

text \<open>The second check, under the lock.\<close>

definition recheck_stage :: "deps \<Rightarrow> 'z rpc_env_scheme \<Rightarrow> approval \<Rightarrow> db \<Rightarrow> stage" where
  "recheck_stage dp e a d = (case get_approval e (ap_id a) d of
     Inl err \<Rightarrow> Finished (Inl (internal_err err))
   | Inr current \<Rightarrow>
       if ap_status current \<noteq> approval_pending
         then Finished (Inl (rpc_err code_already_resolved (''approval is already '' @ ap_status current)))
       else if \<not> dp_client dp then Finished (Inl (unavailable ''phone connection unavailable''))
       else Sending a)"

definition send_stage :: "'z rpc_env_scheme \<Rightarrow> approval \<Rightarrow> server \<Rightarrow> server \<times> stage" where
  "send_stage e a s = (case send_text e (ap_conv a) (ap_body a) (coalesce (ap_reply a) '''') s of
     (s1, sent) \<Rightarrow> (s1, Sent a sent))"

definition settle_stage :: "'z rpc_env_scheme \<Rightarrow> 'z rpc_env_scheme \<Rightarrow> approval \<Rightarrow> err + send_text_result \<Rightarrow> server
    \<Rightarrow> server \<times> (rpc_error + json)" where
  "settle_stage e f a sent s1 = (case resolve_approval e (ap_id a)
       (case sent of Inl _ \<Rightarrow> ''failed'' | Inr _ \<Rightarrow> ''sent'')
       (case sent of Inl err \<Rightarrow> Some (err_text err) | Inr _ \<Rightarrow> None)
       (case sent of Inl _ \<Rightarrow> None | Inr res \<Rightarrow> Some (st_message_id res)) (h_db s1) of
     (d, Some err) \<Rightarrow> (put_db d s1, Inl (internal_err err))
   | (d, None) \<Rightarrow> (case get_approval f (ap_id a) d of
       Inl err \<Rightarrow> (put_db d s1, Inl (internal_err err))
     | Inr resolved \<Rightarrow> (broadcast event_approval_resolved (approval_json resolved) (put_db d s1),
         case sent of
           Inl err \<Rightarrow> Inl \<lparr>re_code = code_unavailable, re_message = ''send failed: '' @ err_text err,
             re_data = Some (approval_json resolved)\<rparr>
         | Inr _ \<Rightarrow> Inr (approval_json resolved))))"

text \<open>Run without interruption the stages are the handler.\<close>

definition run_stages :: "deps \<Rightarrow> 'z rpc_calls \<Rightarrow> approval \<Rightarrow> server \<Rightarrow> server \<times> (rpc_error + json)" where
  "run_stages dp E a s = (case recheck_stage dp (here (at E 0)) a (h_db s) of
     Sending b \<Rightarrow> (case send_stage (here (at E 1)) b s of
         (s1, Sent c sent) \<Rightarrow> settle_stage (here (at E 2)) (here (at E 3)) c sent s1
       | (s1, _) \<Rightarrow> (s1, Inl (unavailable '''')))
   | Finished r \<Rightarrow> (s, r)
   | _ \<Rightarrow> (s, Inl (unavailable '''')))"

section \<open>Interleaving\<close>

record live =
  lv_server :: server
  lv_lock :: "nat option"
  lv_stage :: "nat \<Rightarrow> stage"
  lv_sent :: "approval list"

definition to_stage :: "nat \<Rightarrow> stage \<Rightarrow> live \<Rightarrow> live" where
  "to_stage i st v = v\<lparr>lv_stage := (lv_stage v)(i := st)\<rparr>"

text \<open>The steps of all goroutines; \<open>faults\<close> is whether resolving an approval may fail in the driver.
  \<open>lv_sent\<close> records the approvals handed to \<open>SendText\<close>.\<close>

inductive live_step :: "deps \<Rightarrow> bool \<Rightarrow> live \<Rightarrow> live \<Rightarrow> bool" for dp faults where
  approve: "lv_stage v i = Absent \<Longrightarrow>
    live_step dp faults v (to_stage i (ask_stage (e :: rpc_env) aid (h_db (lv_server v))) v)"
| propose: "create_approval (e :: rpc_env) a (h_db (lv_server v)) = (d, None) \<Longrightarrow>
    live_step dp faults v (v\<lparr>lv_server := put_db d (lv_server v)\<rparr>)"
| direct: "lv_stage v i = Absent \<Longrightarrow> get_approval (e :: rpc_env) aid (h_db (lv_server v)) = Inr a \<Longrightarrow>
    live_step dp faults v (to_stage i (Waiting a) v)"
| deny: "handle_approvals_deny (E :: unit rpc_calls) params (lv_server v) = (s', r) \<Longrightarrow>
    live_step dp faults v (v\<lparr>lv_server := s'\<rparr>)"
| lock: "lv_stage v i = Waiting a \<Longrightarrow> lv_lock v = None \<Longrightarrow>
    live_step dp faults v (to_stage i (Locked a) v\<lparr>lv_lock := Some i\<rparr>)"
| recheck: "lv_stage v i = Locked a \<Longrightarrow> recheck_stage dp (e :: rpc_env) a (h_db (lv_server v)) = Sending b \<Longrightarrow>
    live_step dp faults v (to_stage i (Sending b) v)"
| give_up: "lv_stage v i = Locked a \<Longrightarrow> recheck_stage dp (e :: rpc_env) a (h_db (lv_server v)) = Finished r \<Longrightarrow>
    live_step dp faults v (to_stage i (Finished r) v\<lparr>lv_lock := None\<rparr>)"
| send: "lv_stage v i = Sending a \<Longrightarrow> send_stage (e :: rpc_env) a (lv_server v) = (s', st) \<Longrightarrow>
    live_step dp faults v (to_stage i st v\<lparr>lv_server := s', lv_sent := lv_sent v @ [a]\<rparr>)"
| settle: "lv_stage v i = Sent a sent \<Longrightarrow> settle_stage (e :: rpc_env) f a sent (lv_server v) = (s', r) \<Longrightarrow>
    faults \<or> exec_fault e SResolveApproval = None \<Longrightarrow>
    live_step dp faults v (to_stage i (Finished r) v\<lparr>lv_server := s', lv_lock := None\<rparr>)"

text \<open>At the start nobody is on the way and nothing was sent.\<close>

inductive live_reach :: "deps \<Rightarrow> bool \<Rightarrow> live \<Rightarrow> bool" for dp faults where
  live_start: "db_ok (h_db s) \<Longrightarrow> sends (h_log s) = [] \<Longrightarrow> live_reach dp faults \<lparr>lv_server = s, lv_lock = None, lv_stage = (\<lambda>_. Absent), lv_sent = []\<rparr>"
| live_more: "live_reach dp faults v \<Longrightarrow> live_step dp faults v w \<Longrightarrow> live_reach dp faults w"

section \<open>The stages are the handler\<close>


section \<open>Rows only settle\<close>

definition same_text :: "approval \<Rightarrow> approval \<Rightarrow> bool" where
  "same_text a b \<longleftrightarrow> ap_id a = ap_id b \<and> ap_conv a = ap_conv b \<and> ap_body a = ap_body b \<and> ap_reply a = ap_reply b"

definition row_of :: "db \<Rightarrow> string \<Rightarrow> approval option" where
  "row_of d aid = row_with ap_id aid (approvals d)"

text \<open>Rows stay, their text stays, and a settled row stays settled.\<close>

definition settles :: "db \<Rightarrow> db \<Rightarrow> bool" where
  "settles d d' \<longleftrightarrow> (\<forall>aid cur. row_of d aid = Some cur \<longrightarrow> (\<exists>cur'. row_of d' aid = Some cur' \<and> same_text cur cur'
     \<and> (ap_status cur \<noteq> ''pending'' \<longrightarrow> ap_status cur' \<noteq> ''pending'')))"

lemma same_text_refl [simp]: "same_text a a"
  by (simp add: same_text_def)

lemma same_text_trans: "same_text a b \<Longrightarrow> same_text b c \<Longrightarrow> same_text a c"
  by (simp add: same_text_def)

lemma settles_refl [simp]: "settles d d"
  by (simp add: settles_def)

lemma settlesD:
  assumes "settles d d'" and "row_of d aid = Some cur"
  obtains cur' where "row_of d' aid = Some cur'" "same_text cur cur'" "ap_status cur \<noteq> ''pending'' \<Longrightarrow> ap_status cur' \<noteq> ''pending''"
  using assms by (auto simp: settles_def)

lemma row_with_snoc: "row_with key k (rs @ [x]) = (case row_with key k rs of None \<Rightarrow> row_with key k [x] | Some r \<Rightarrow> Some r)"
  by (induction rs) auto

lemma create_settles: "create_approval e a d = (d', r) \<Longrightarrow> settles d d'"
  by (auto simp: create_approval_def settles_def row_of_def row_with_snoc split: if_splits option.splits)

lemma resolve_settles:
  assumes "db_ok d" and "resolve_approval e aid s er mid d = (d', r)"
  shows "settles d d'"
proof -
  consider "approvals d' = approvals d"
    | "s \<in> set approval_terminal" "approvals d' = update_where (\<lambda>x. ap_id x = aid) (resolve_row (now_ms e) s er mid) (approvals d)"
    using resolve_effect [OF assms(1), of e aid s er mid] assms(2) by auto
  then show ?thesis
  proof cases
    case 2
    have "s \<noteq> ''pending''" using 2(1) by (auto simp: approval_terminal_def)
    then show ?thesis
      by (auto simp: settles_def row_of_def 2(2) row_with_update same_text_def resolve_row_def)
  qed (simp add: settles_def row_of_def)
qed

text \<open>A resolution the driver carries out leaves the row settled, by this call or an earlier one.\<close>

lemma resolve_not_pending:
  assumes "db_ok d" and "resolve_approval e aid s er mid d = (d', r)" and "exec_fault e SResolveApproval = None"
    and "s \<in> set approval_terminal" and "row_of d' aid = Some cur'"
  shows "ap_status cur' \<noteq> ''pending''"
proof -
  let ?hit = "\<lambda>a. ap_id a = aid \<and> ap_status a = ''pending''"
  have d': "approvals d' = update_where ?hit (resolve_row (now_ms e) s er mid) (approvals d)"
    using assms(2-4) by (auto simp: resolve_approval_def Let_def split: if_splits)
  have "s \<noteq> ''pending''" using assms(4) by (auto simp: approval_terminal_def)
  obtain cur where cur: "row_with ap_id aid (approvals d) = Some cur"
      "cur' = (if ?hit cur then resolve_row (now_ms e) s er mid cur else cur)"
    using assms(5) by (auto simp: row_of_def d' row_with_update resolve_row_def)
  then have "ap_id cur = aid" by (auto dest: row_with_Some)
  with cur(2) \<open>s \<noteq> ''pending''\<close> show ?thesis by (auto simp: resolve_row_def)
qed

section \<open>What the steps do\<close>

lemma deny_effect:
  assumes "handle_approvals_deny (E :: 'z rpc_calls) params s = (s', r)"
  shows "h_log s' = h_log s \<and> (h_db s' = h_db s \<or> (\<exists>(e :: 'z rpc_env_scheme) aid er d x. resolve_approval e aid ''denied'' er None (h_db s) = (d, x) \<and> h_db s' = d))"
proof (cases "decode_params (here E) [(''approval_id'', KString), (''reason'', KString)] params")
  case (Inl err)
  with assms show ?thesis by (simp add: handle_approvals_deny_def)
next
  case (Inr fs)
  let ?er = "if get_string fs ''reason'' \<noteq> '''' then Some (get_string fs ''reason'') else None"
  obtain d x where rs: "resolve_approval (here (at E 0)) (get_string fs ''approval_id'') ''denied'' ?er None (h_db s) = (d, x)"
    by fastforce
  have "h_log s' = h_log s \<and> (h_db s' = h_db s \<or> h_db s' = d)"
  proof (cases "get_string fs ''approval_id'' = ''''")
    case True
    with assms Inr show ?thesis by (simp add: handle_approvals_deny_def)
  next
    case False
    then show ?thesis
      using assms Inr rs by (cases x; cases "get_approval (here (at E 1)) (get_string fs ''approval_id'') d")
        (auto simp: handle_approvals_deny_def Let_def)
  qed
  with rs show ?thesis by blast
qed

lemma deny_settles: "handle_approvals_deny E params s = (s', r) \<Longrightarrow> db_ok (h_db s) \<Longrightarrow> settles (h_db s) (h_db s') \<and> db_ok (h_db s')"
proof -
  assume h: "handle_approvals_deny E params s = (s', r)" and ok: "db_ok (h_db s)"
  have "settles (h_db s) d \<and> db_ok d" if "resolve_approval e aid st er mid (h_db s) = (d, x)"
    for e :: "'a rpc_env_scheme" and aid st er mid d x
    using resolve_settles [OF ok that] resolve_approval_ok [OF ok, of e aid st er mid] that by simp
  with deny_effect [OF h] ok show ?thesis by (metis settles_refl)
qed

lemma settle_effect:
  assumes "settle_stage e f a sent s = (s', r)"
  shows "h_log s' = h_log s \<and> (\<exists>st er mid x. st \<in> set approval_terminal \<and> resolve_approval e (ap_id a) st er mid (h_db s) = (h_db s', x))"
proof -
  let ?st = "case sent of Inl _ \<Rightarrow> ''failed'' | Inr _ \<Rightarrow> ''sent''"
    and ?er = "case sent of Inl err \<Rightarrow> Some (err_text err) | Inr _ \<Rightarrow> None"
    and ?mid = "case sent of Inl _ \<Rightarrow> None | Inr res \<Rightarrow> Some (st_message_id res)"
  obtain d x where rs: "resolve_approval e (ap_id a) ?st ?er ?mid (h_db s) = (d, x)" by fastforce
  have "h_log s' = h_log s \<and> h_db s' = d"
    using assms rs by (cases x; cases "get_approval f (ap_id a) d") (auto simp: settle_stage_def)
  moreover have "?st \<in> set approval_terminal" by (simp add: approval_terminal_def split: sum.split)
  ultimately show ?thesis using rs by blast
qed

lemma send_stage_effect:
  assumes "send_stage e a s = (s', st)"
  shows "h_db s' = h_db s \<and> (\<exists>sent. st = Sent a sent) \<and> (\<exists>cs. h_log s' = h_log s @ cs
    \<and> (sends cs = [] \<or> (\<exists>req. sends cs = [req] \<and> sr_conv req = ap_conv a \<and> sr_body req = ap_body a)))"
proof -
  obtain s1 sent where st: "send_text e (ap_conv a) (ap_body a) (coalesce (ap_reply a) '''') s = (s1, sent)" by fastforce
  with assms have "s' = s1" "st = Sent a sent" by (simp_all add: send_stage_def)
  with send_text_effect [OF st] show ?thesis by auto
qed

section \<open>The invariant\<close>

fun stage_approval :: "stage \<Rightarrow> approval option" where
  "stage_approval (Waiting a) = Some a" | "stage_approval (Locked a) = Some a" | "stage_approval (Sending a) = Some a"
| "stage_approval (Sent a r) = Some a" | "stage_approval _ = None"

fun holds_lock :: "stage \<Rightarrow> bool" where
  "holds_lock (Locked a) = True" | "holds_lock (Sending a) = True" | "holds_lock (Sent a r) = True" | "holds_lock _ = False"

fun settling :: "stage \<Rightarrow> string \<Rightarrow> bool" where
  "settling (Sent a r) aid = (ap_id a = aid)" | "settling _ aid = False"

definition known :: "db \<Rightarrow> approval \<Rightarrow> bool" where
  "known d a \<longleftrightarrow> (\<exists>cur. row_of d (ap_id a) = Some cur \<and> same_text cur a)"

definition settled :: "db \<Rightarrow> string \<Rightarrow> bool" where
  "settled d aid \<longleftrightarrow> (\<exists>cur. row_of d aid = Some cur \<and> ap_status cur \<noteq> ''pending'')"

text \<open>The lock has one holder, goroutines and the log of sends speak of rows of the store, and without faults
  no id was sent twice, the id about to be sent was not sent, and what was sent is settled or about to be.\<close>

definition stages_inv :: "bool \<Rightarrow> db \<Rightarrow> nat option \<Rightarrow> (nat \<Rightarrow> stage) \<Rightarrow> approval list \<Rightarrow> bool" where
  "stages_inv faults d lock g sent \<longleftrightarrow> db_ok d
     \<and> (\<forall>i. holds_lock (g i) = (lock = Some i))
     \<and> (\<forall>i a. stage_approval (g i) = Some a \<longrightarrow> known d a)
     \<and> (\<forall>a \<in> set sent. known d a)
     \<and> (\<not> faults \<longrightarrow> distinct (map ap_id sent)
        \<and> (\<forall>i a. g i = Sending a \<longrightarrow> ap_id a \<notin> ap_id ` set sent)
        \<and> (\<forall>a \<in> set sent. settled d (ap_id a) \<or> (\<exists>i. settling (g i) (ap_id a))))"

definition live_inv :: "bool \<Rightarrow> live \<Rightarrow> bool" where
  "live_inv faults v \<longleftrightarrow> stages_inv faults (h_db (lv_server v)) (lv_lock v) (lv_stage v) (lv_sent v)"

lemma known_settles:
  assumes "known d a" and "settles d d'"
  shows "known d' a"
proof -
  obtain cur where cur: "row_of d (ap_id a) = Some cur" "same_text cur a" using assms(1) by (auto simp: known_def)
  from assms(2) cur(1) obtain cur' where "row_of d' (ap_id a) = Some cur'" "same_text cur cur'"
    by (rule settlesD)
  with cur(2) show ?thesis by (auto simp: known_def same_text_def)
qed

lemma settled_settles:
  assumes "settled d k" and "settles d d'"
  shows "settled d' k"
proof -
  obtain cur where cur: "row_of d k = Some cur" "ap_status cur \<noteq> ''pending''" using assms(1) by (auto simp: settled_def)
  with assms(2) show ?thesis by (auto simp: settled_def settles_def)
qed

text \<open>A change of the store alone.\<close>

lemma inv_db: "stages_inv faults d lock g sent \<Longrightarrow> settles d d' \<Longrightarrow> db_ok d' \<Longrightarrow> stages_inv faults d' lock g sent"
  unfolding stages_inv_def using known_settles settled_settles by blast

text \<open>A goroutine that does not hold the lock before or after.\<close>

lemma inv_outside:
  assumes "stages_inv faults d lock g sent" and "\<not> holds_lock (g i)" and "\<not> holds_lock st"
    and "\<And>a. stage_approval st = Some a \<Longrightarrow> known d a"
  shows "stages_inv faults d lock (g(i := st)) sent"
proof -
  have "\<not> settling (g i) k" for k using assms(2) by (cases "g i") auto
  moreover have "st \<noteq> Sending a" for a using assms(3) by auto
  ultimately show ?thesis using assms by (auto simp: stages_inv_def) metis
qed

lemma inv_lock:
  assumes "stages_inv faults d None g sent" and "g i = Waiting a"
  shows "stages_inv faults d (Some i) (g(i := Locked a)) sent"
proof -
  have free: "\<not> holds_lock (g j)" for j using assms(1) unfolding stages_inv_def by blast
  then have "\<not> settling (g j) k" "g j \<noteq> Sending b" for j k b by (cases "g j"; use free [of j] in simp)+
  moreover have "known d a" using assms stage_approval.simps(1) [of a] unfolding stages_inv_def by metis
  ultimately show ?thesis using assms(1) free unfolding stages_inv_def by auto
qed

text \<open>The holder of the lock is the only one sending or settling.\<close>

lemma holder_only:
  assumes "stages_inv faults d lock g sent" and "holds_lock (g i)"
  shows "lock = Some i" and "holds_lock (g j) \<Longrightarrow> j = i"
proof -
  show "lock = Some i" using assms unfolding stages_inv_def by blast
  then show "holds_lock (g j) \<Longrightarrow> j = i" using assms unfolding stages_inv_def by (metis option.inject)
qed

lemma inv_release:
  assumes inv: "stages_inv faults d lock g sent" and "holds_lock (g i)" and "\<not> faults \<longrightarrow> (\<forall>k. settling (g i) k \<longrightarrow> settled d k)"
  shows "stages_inv faults d None (g(i := Finished r)) sent"
proof -
  have others: "\<not> holds_lock (g j)" if "j \<noteq> i" for j using holder_only(2) [OF inv assms(2)] that by blast
  then have "\<not> settling (g j) k" "g j \<noteq> Sending a" if "j \<noteq> i" for j k a using that by (cases "g j"; fastforce)+
  with inv assms(3) others show ?thesis unfolding stages_inv_def by (auto; metis)
qed

lemma get_approval_row:
  assumes "db_ok d" and "get_approval e aid d = Inr a"
  shows "row_of d aid = Some a"
proof -
  have "\<exists>rs. filter (\<lambda>a. ap_id a = aid) (scan_rows (visit e SGetApproval) (approvals d)) = a # rs"
    using assms(2) query_row_Inr by (fastforce simp: get_approval_def not_found_def split: sum.splits if_splits)
  then show ?thesis
    by (auto simp: row_of_def filter_key_scan [OF db_okD(5) [OF assms(1)]] split: option.splits)
qed

text \<open>A pending row was not sent, as long as nobody else is settling.\<close>

lemma inv_recheck:
  assumes inv: "stages_inv faults d lock g sent" and "g i = Locked a"
    and row: "row_of d (ap_id a) = Some cur" "ap_status cur = ''pending''"
  shows "stages_inv faults d lock (g(i := Sending a)) sent"
proof -
  have "holds_lock (g i)" using assms(2) by simp
  then have others: "\<not> holds_lock (g j)" if "j \<noteq> i" for j using holder_only(2) [OF inv] that by blast
  then have none: "\<not> settling (g j) k" for j k using assms(2) others [of j] by (cases "j = i"; cases "g j") auto
  have ns: "g j \<noteq> Sending b" if "j \<noteq> i" for j b using others [OF that] by auto
  have "\<not> settled d (ap_id a)" using row by (simp add: settled_def)
  then have "\<not> faults \<Longrightarrow> ap_id a \<notin> ap_id ` set sent" using inv none unfolding stages_inv_def by (metis imageE)
  moreover have "known d a" using inv assms(2) stage_approval.simps(2) [of a] unfolding stages_inv_def by metis
  ultimately show ?thesis using inv none ns \<open>holds_lock (g i)\<close> unfolding stages_inv_def by auto
qed

lemma inv_send:
  assumes inv: "stages_inv faults d lock g sent" and "g i = Sending a"
  shows "stages_inv faults d lock (g(i := Sent a res)) (sent @ [a])"
proof -
  have "holds_lock (g i)" using assms(2) by simp
  then have others: "\<not> holds_lock (g j)" if "j \<noteq> i" for j using holder_only(2) [OF inv] that by blast
  then have none: "\<not> settling (g j) k" for j k using assms(2) others [of j] by (cases "j = i"; cases "g j") auto
  have ns: "g j \<noteq> Sending b" if "j \<noteq> i" for j b using others [OF that] by auto
  have "known d a" using inv assms(2) stage_approval.simps(3) [of a] unfolding stages_inv_def by metis
  then show ?thesis using inv none ns assms(2) \<open>holds_lock (g i)\<close> unfolding stages_inv_def by auto
qed

lemma to_stage_simps [simp]:
  "lv_server (to_stage i st v) = lv_server v" "lv_lock (to_stage i st v) = lv_lock v"
  "lv_stage (to_stage i st v) = (lv_stage v)(i := st)" "lv_sent (to_stage i st v) = lv_sent v"
  by (simp_all add: to_stage_def)

lemma to_stage_commute:
  "(to_stage i st v)\<lparr>lv_lock := l\<rparr> = to_stage i st (v\<lparr>lv_lock := l\<rparr>)"
  "(to_stage i st v)\<lparr>lv_server := s\<rparr> = to_stage i st (v\<lparr>lv_server := s\<rparr>)"
  "(to_stage i st v)\<lparr>lv_sent := as\<rparr> = to_stage i st (v\<lparr>lv_sent := as\<rparr>)"
  "to_stage i st (to_stage i st' v) = to_stage i st v"
  by (rule live.equality; simp)+

lemma recheck_stage_cases:
  assumes "recheck_stage dp e a d = st" and "db_ok d"
  shows "(\<exists>r. st = Finished r) \<or> (\<exists>cur. st = Sending a \<and> row_of d (ap_id a) = Some cur \<and> ap_status cur = ''pending'')"
  using assms get_approval_row [OF assms(2), of e "ap_id a"]
  by (auto simp: recheck_stage_def approval_pending_def split: sum.splits if_splits)

lemma ask_stage_cases:
  assumes "db_ok d"
  shows "(\<exists>r. ask_stage e aid d = Finished r) \<or> (\<exists>a. ask_stage e aid d = Waiting a \<and> row_of d aid = Some a)"
  using get_approval_row [OF assms, of e aid] by (auto simp: ask_stage_def split: sum.split)

lemma row_of_known: "row_of d aid = Some a \<Longrightarrow> known d a"
  using row_with_Some [of ap_id aid "approvals d" a] by (auto simp: known_def row_of_def)

text \<open>A settlement the driver carries out settles the row.\<close>

lemma settle_settles:
  assumes "settle_stage e f a sent s = (s', r)" and "db_ok (h_db s)" and "known (h_db s) a"
  shows "settles (h_db s) (h_db s')" and "db_ok (h_db s')"
    and "exec_fault e SResolveApproval = None \<Longrightarrow> settled (h_db s') (ap_id a)"
proof -
  obtain st er mid x where st: "st \<in> set approval_terminal"
      and rs: "resolve_approval e (ap_id a) st er mid (h_db s) = (h_db s', x)"
    using settle_effect [OF assms(1)] by blast
  show kept: "settles (h_db s) (h_db s')" by (rule resolve_settles [OF assms(2) rs])
  show "db_ok (h_db s')" using resolve_approval_ok [OF assms(2), of e "ap_id a" st er mid] rs by simp
  assume ok: "exec_fault e SResolveApproval = None"
  obtain cur where "row_of (h_db s') (ap_id a) = Some cur"
    using known_settles [OF assms(3) kept] by (auto simp: known_def)
  with resolve_not_pending [OF assms(2) rs ok st] show "settled (h_db s') (ap_id a)"
    by (auto simp: settled_def)
qed

lemma stages_invD:
  assumes "stages_inv faults d lock g sent"
  shows "db_ok d" and "holds_lock (g i) = (lock = Some i)" and "stage_approval (g i) = Some a \<Longrightarrow> known d a"
    and "a \<in> set sent \<Longrightarrow> known d a"
    and "\<not> faults \<Longrightarrow> distinct (map ap_id sent)"
  using assms unfolding stages_inv_def by blast+

lemma live_step_inv: "live_step dp faults v w \<Longrightarrow> live_inv faults v \<Longrightarrow> live_inv faults w"
proof (induction rule: live_step.induct)
  case (approve v i e aid)
  note inv = approve.prems [unfolded live_inv_def]
  have "stages_inv faults (h_db (lv_server v)) (lv_lock v) ((lv_stage v)(i := ask_stage e aid (h_db (lv_server v)))) (lv_sent v)"
    using approve.hyps inv ask_stage_cases [OF stages_invD(1) [OF inv], of e aid]
    by (intro inv_outside) (auto dest: row_of_known)
  then show ?case by (simp add: live_inv_def)
next
  case (propose e a v d)
  note inv = propose.prems [unfolded live_inv_def]
  then show ?case
    using inv_db [OF inv create_settles [OF propose.hyps]]
      create_approval_ok [OF stages_invD(1) [OF inv], of e a] propose.hyps by (simp add: live_inv_def)
next
  case (direct v i e aid a)
  note inv = direct.prems [unfolded live_inv_def]
  have "stages_inv faults (h_db (lv_server v)) (lv_lock v) ((lv_stage v)(i := Waiting a)) (lv_sent v)"
    using direct.hyps inv row_of_known [OF get_approval_row [OF stages_invD(1) [OF inv] direct.hyps(2)]]
    by (intro inv_outside) auto
  then show ?case by (simp add: live_inv_def)
next
  case (deny E params v s' r)
  note inv = deny.prems [unfolded live_inv_def]
  then show ?case
    using inv_db [OF inv] deny_settles [OF deny.hyps stages_invD(1) [OF inv]] by (simp add: live_inv_def)
next
  case (lock v i a)
  note inv = lock.prems [unfolded live_inv_def]
  have "stages_inv faults (h_db (lv_server v)) (Some i) ((lv_stage v)(i := Locked a)) (lv_sent v)"
    by (rule inv_lock [OF inv [unfolded lock.hyps(2)] lock.hyps(1)])
  then show ?case by (simp add: live_inv_def)
next
  case (recheck v i a e b)
  note inv = recheck.prems [unfolded live_inv_def]
  have "\<exists>cur. b = a \<and> row_of (h_db (lv_server v)) (ap_id a) = Some cur \<and> ap_status cur = ''pending''"
    using recheck_stage_cases [OF recheck.hyps(2) stages_invD(1) [OF inv]] by simp
  then show ?case using inv_recheck [OF inv recheck.hyps(1)] by (auto simp: live_inv_def)
next
  case (give_up v i a e r)
  note inv = give_up.prems [unfolded live_inv_def]
  have "holds_lock (lv_stage v i)" using give_up.hyps by simp
  then show ?case using inv_release [OF inv] give_up.hyps by (simp add: live_inv_def)
next
  case (send v i a e s' st)
  note inv = send.prems [unfolded live_inv_def]
  obtain res where "h_db s' = h_db (lv_server v)" "st = Sent a res" using send_stage_effect [OF send.hyps(2)] by blast
  then show ?case using inv_send [OF inv send.hyps(1)] by (simp add: live_inv_def)
next
  case (settle v i a sent e f s' r)
  note inv = settle.prems [unfolded live_inv_def]
  note st = settle_settles [OF settle.hyps(2) stages_invD(1) [OF inv] stages_invD(3) [OF inv, of i a]]
  have held: "holds_lock (lv_stage v i)" "stage_approval (lv_stage v i) = Some a" using settle.hyps(1) by simp_all
  have "stages_inv faults (h_db s') (lv_lock v) (lv_stage v) (lv_sent v)"
    by (rule inv_db [OF inv st(1,2)]) (simp_all add: held)
  from inv_release [OF this held(1)] settle.hyps st(3) held show ?case by (auto simp: live_inv_def)
qed

lemma live_reach_inv: "live_reach dp faults v \<Longrightarrow> live_inv faults v"
proof (induction rule: live_reach.induct)
  case (live_start s)
  then show ?case by (simp add: live_inv_def stages_inv_def)
qed (rule live_step_inv)

section \<open>The messages on the phone\<close>

definition carries :: "send_request \<Rightarrow> approval \<Rightarrow> bool" where
  "carries req a \<longleftrightarrow> sr_conv req = ap_conv a \<and> sr_body req = ap_body a"

text \<open>The messages sent are those of the approvals handed to \<open>SendText\<close>, in order, some perhaps not reached.\<close>

definition log_inv :: "live \<Rightarrow> bool" where
  "log_inv v \<longleftrightarrow> (\<exists>part. subseq part (lv_sent v) \<and> list_all2 carries (sends (h_log (lv_server v))) part)"

lemma log_inv_sent:
  assumes "log_inv v" and "send_stage e a (lv_server v) = (s', st)"
  shows "log_inv (to_stage i st v\<lparr>lv_server := s', lv_sent := lv_sent v @ [a]\<rparr>)"
proof -
  obtain part where part: "subseq part (lv_sent v)" "list_all2 carries (sends (h_log (lv_server v))) part"
    using assms(1) by (auto simp: log_inv_def)
  obtain cs where cs: "h_log s' = h_log (lv_server v) @ cs"
      "sends cs = [] \<or> (\<exists>req. sends cs = [req] \<and> carries req a)"
    using send_stage_effect [OF assms(2)] by (auto simp: carries_def)
  have log: "sends (h_log s') = sends (h_log (lv_server v)) @ sends cs" by (simp add: cs(1))
  from cs(2) show ?thesis
  proof
    assume "sends cs = []"
    moreover have "subseq part (lv_sent v @ [a])" using list_emb_append_mono [OF part(1), of "[]" "[a]"] by simp
    ultimately show ?thesis using part log by (auto simp: log_inv_def)
  next
    assume "\<exists>req. sends cs = [req] \<and> carries req a"
    moreover have "subseq (part @ [a]) (lv_sent v @ [a])" using part(1) by (simp add: list_emb_append_mono)
    ultimately show ?thesis using part log by (auto simp: log_inv_def list_all2_appendI intro!: exI [of _ "part @ [a]"])
  qed
qed

lemma live_step_log: "live_step dp faults v w \<Longrightarrow> log_inv v \<Longrightarrow> log_inv w"
proof (induction rule: live_step.induct)
  case (send v i a e s' st)
  then show ?case using log_inv_sent by blast
next
  case (deny E params v s' r)
  then show ?case using deny_effect [OF deny.hyps] by (simp add: log_inv_def)
next
  case (settle v i a sent e f s' r)
  then show ?case using settle_effect [OF settle.hyps(2)] by (simp add: log_inv_def)
qed (simp_all add: log_inv_def to_stage_def)

lemma live_reach_log: "live_reach dp faults v \<Longrightarrow> log_inv v"
proof (induction rule: live_reach.induct)
  case (live_start s)
  then show ?case by (simp add: log_inv_def)
qed (rule live_step_log)


section \<open>Rounds of one goroutine\<close>

lemma row_is_read: "db_ok d \<Longrightarrow> no_fault e \<Longrightarrow> row_of d aid = Some a \<Longrightarrow> get_approval e aid d = Inr a"
  by (simp add: get_approval_eq row_of_def)

lemma row_of_id: "row_of d aid = Some a \<Longrightarrow> ap_id a = aid"
  using row_with_Some [of ap_id aid "approvals d" a] by (simp add: row_of_def)

text \<open>An approving goroutine that nothing disturbs comes to the point of sending.\<close>

lemma round_to_sending:
  assumes "live_reach dp faults v" and "lv_stage v i = Absent" and "lv_lock v = None"
    and row: "row_of (h_db (lv_server v)) aid = Some a" "ap_status a = ''pending''"
    and "dp_client dp" and "no_fault (e :: rpc_env)"
  shows "live_reach dp faults (to_stage i (Sending a) (v\<lparr>lv_lock := Some i\<rparr>))"
proof -
  let ?d = "h_db (lv_server v)"
  have ok: "db_ok ?d" using live_reach_inv [OF assms(1)] by (simp add: live_inv_def stages_inv_def)
  have get: "get_approval e aid ?d = Inr a" "get_approval e (ap_id a) ?d = Inr a"
    using row_is_read [OF ok assms(7) row(1)] row_of_id [OF row(1)] by simp_all
  have "live_step dp faults v (to_stage i (ask_stage e aid ?d) v)" by (rule live_step.approve [OF assms(2)])
  moreover have "ask_stage e aid ?d = Waiting a" using get row(2) by (simp add: ask_stage_def approval_pending_def)
  ultimately have r1: "live_reach dp faults (to_stage i (Waiting a) v)" using live_more [OF assms(1)] by simp
  have "live_step dp faults (to_stage i (Waiting a) v) (to_stage i (Locked a) (to_stage i (Waiting a) v)\<lparr>lv_lock := Some i\<rparr>)"
    by (rule live_step.lock) (simp_all add: assms(3))
  from live_more [OF r1 this] have r2: "live_reach dp faults (to_stage i (Locked a) (v\<lparr>lv_lock := Some i\<rparr>))"
    by (simp only: to_stage_commute)
  have "recheck_stage dp e a ?d = Sending a" using get row(2) assms(6) by (simp add: recheck_stage_def approval_pending_def)
  then have "live_step dp faults (to_stage i (Locked a) (v\<lparr>lv_lock := Some i\<rparr>))
      (to_stage i (Sending a) (to_stage i (Locked a) (v\<lparr>lv_lock := Some i\<rparr>)))"
    by (intro live_step.recheck [where e = e and a = a]) simp_all
  from live_more [OF r2 this] show ?thesis by (simp only: to_stage_commute)
qed

lemma round_send:
  assumes "live_reach dp faults (to_stage i (Sending a) v)" and "send_stage (e :: rpc_env) a (lv_server v) = (s', st)"
  shows "live_reach dp faults (to_stage i st (v\<lparr>lv_server := s', lv_sent := lv_sent v @ [a]\<rparr>))"
proof -
  have "live_step dp faults (to_stage i (Sending a) v)
      (to_stage i st (to_stage i (Sending a) v)\<lparr>lv_server := s', lv_sent := lv_sent (to_stage i (Sending a) v) @ [a]\<rparr>)"
    by (rule live_step.send [where e = e]) (use assms(2) in simp_all)
  from live_more [OF assms(1) this] show ?thesis by (simp only: to_stage_commute to_stage_simps)
qed

lemma reason_not_id: "ascii_fold ''approval_id'' \<noteq> ascii_fold ''reason''"
  by code_simp


text \<open>The send is made and the store fails to record it: the row stays pending and the lock is free.\<close>

lemma round_lost:
  assumes "live_reach dp True v" and "lv_stage v i = Absent" and "lv_lock v = None"
    and row: "row_of (h_db (lv_server v)) aid = Some a" "ap_status a = ''pending''"
    and "dp_client dp" and "no_fault (e :: rpc_env)" and fault: "exec_fault (f :: rpc_env) SResolveApproval = Some t"
  shows "\<exists>w. live_reach dp True w \<and> lv_sent w = lv_sent v @ [a] \<and> lv_lock w = None
     \<and> (\<forall>j. j \<noteq> i \<longrightarrow> lv_stage w j = lv_stage v j) \<and> h_db (lv_server w) = h_db (lv_server v)"
proof -
  obtain s' st where send: "send_stage e a (lv_server v) = (s', st)" by fastforce
  then obtain sent where st: "st = Sent a sent" "h_db s' = h_db (lv_server v)" using send_stage_effect [OF send] by auto
  let ?v = "v\<lparr>lv_lock := Some i\<rparr>\<lparr>lv_server := s', lv_sent := lv_sent (v\<lparr>lv_lock := Some i\<rparr>) @ [a]\<rparr>"
  have "live_reach dp True (to_stage i st ?v)"
    by (rule round_send [OF round_to_sending [OF assms(1-7)]]) (use send in simp)
  then have r: "live_reach dp True (to_stage i (Sent a sent) ?v)" by (simp only: st(1))
  have "\<exists>r. settle_stage f e a sent s' = (put_db (h_db s') s', r)"
    using fault by (cases sent) (auto simp: settle_stage_def resolve_approval_def approval_terminal_def)
  then obtain r where "settle_stage f e a sent s' = (put_db (h_db s') s', r)" ..
  then have "live_step dp True (to_stage i (Sent a sent) ?v)
      (to_stage i (Finished r) (to_stage i (Sent a sent) ?v)\<lparr>lv_server := put_db (h_db s') s', lv_lock := None\<rparr>)"
    by (intro live_step.settle [where e = f and f = e]) simp_all
  from live_more [OF r this] st(2) show ?thesis
    by (intro exI [of _ "to_stage i (Finished r) (to_stage i (Sent a sent) ?v)\<lparr>lv_server := put_db (h_db s') s', lv_lock := None\<rparr>"]) simp
qed


section \<open>Concrete runs\<close>

definition pending_sample :: approval where
  "pending_sample = sample_approval\<lparr>ap_status := ''pending'', ap_created_at := 5, ap_updated_at := 5\<rparr>"

definition at_rest :: live where
  "at_rest = \<lparr>lv_server = a_server approval_db, lv_lock = None, lv_stage = (\<lambda>_. Absent), lv_sent = []\<rparr>"

lemma pending_sample_simps [simp]: "ap_status pending_sample = ''pending''" "ap_id pending_sample = ''a1''"
  "row_of approval_db ''a1'' = Some pending_sample"
  by (simp_all add: pending_sample_def row_of_def approval_db_rows sample_approval_def)

lemma approving_client [simp]: "dp_client approving_deps"
  by (simp add: approving_deps_def)

lemma at_rest_reached: "live_reach approving_deps faults at_rest"
  unfolding at_rest_def by (rule live_start) simp_all

lemma about_to_send: "live_reach approving_deps faults (to_stage 0 (Sending pending_sample) (at_rest\<lparr>lv_lock := Some 0\<rparr>))"
  by (rule round_to_sending [OF at_rest_reached, of _ "''a1''" _ "quiet_rpc 5"]) (simp_all add: at_rest_def)




end
