(* ===== verification/Store_Open.thy ===== *)
theory Store_Open
  imports Store_Schema
begin

text \<open>
  \<open>Open\<close> of \<open>internal/store/store.go\<close>: the data source name it hands to the SQLite driver, and the store as it leaves it.
  The database is the content of the file the driver opens under that name.
\<close>

section \<open>The data source name\<close>

text \<open>\<open>url.Values.Encode\<close> for the one key that is used, in the order its values were added.\<close>

definition query_plain :: "char \<Rightarrow> bool" where
  "query_plain c \<longleftrightarrow> (let b = byte_of c in (97 \<le> b \<and> b \<le> 122) \<or> (65 \<le> b \<and> b \<le> 90) \<or> (48 \<le> b \<and> b \<le> 57) \<or> c \<in> set ''-_.~'')"

definition query_escape :: "string \<Rightarrow> string" where
  "query_escape s = concat (map (\<lambda>c. if query_plain c then [c] else if c = CHR '' '' then ''+''
     else [CHR ''%'', ''0123456789ABCDEF'' ! (byte_of c div 16), ''0123456789ABCDEF'' ! (byte_of c mod 16)]) s)"

definition pragmas :: "string list" where
  "pragmas = [''journal_mode(WAL)'', ''synchronous(NORMAL)'', ''foreign_keys(ON)'', ''busy_timeout(5000)'']"

definition build_dsn :: "string \<Rightarrow> string" where
  "build_dsn path = ''file:'' @ path @ ''?'' @ join_with ''&'' (map (\<lambda>p. query_escape ''_pragma'' @ ''='' @ query_escape p) pragmas)"

section \<open>Opening\<close>

text \<open>What \<open>sql.Open\<close> and \<open>PingContext\<close> report for a data source name.\<close>

record open_env = env +
  oe_sql_open :: "string \<Rightarrow> string option"
  oe_ping :: "string \<Rightarrow> string option"

definition store_open :: "'z open_env_scheme \<Rightarrow> string \<Rightarrow> db \<Rightarrow> db \<times> err option" where
  "store_open e path d = (let dsn = build_dsn path in
     case oe_sql_open e dsn of
       Some t \<Rightarrow> (d, Some (Wrap (''open sqlite '' @ path) (Driver t)))
     | None \<Rightarrow> (case oe_ping e dsn of
         Some t \<Rightarrow> (d, Some (Wrap (''ping sqlite '' @ path) (Driver t)))
       | None \<Rightarrow> (case migrate e d of
           (d', Some err) \<Rightarrow> (d', Some (Wrap ''migrate'' err))
         | (d', None) \<Rightarrow> (d', None))))"

definition store_schema_version :: "'z env_scheme \<Rightarrow> db \<Rightarrow> err + nat" where
  "store_schema_version e d = current_version e d"

section \<open>What opening guarantees\<close>

lemma migrate_from_current:
  assumes "schema_at 3 d" and "migs = drop i migrations"
  shows "fst (migrate_from e c i migs d) = d"
  using assms(2)
proof (induction migs arbitrary: i)
  case (Cons m migs)
  then have i: "i < 3" and m: "m = migrations ! i" and rest: "migs = drop (i + 1) migrations"
    by (auto simp: migrations_def Cons_eq_append_conv drop_Cons nth_Cons split: nat.splits)
  have "\<exists>err. migrate_one e (i + 1) m d = (d, Some err)"
    using migrate_one_cases [OF assms(1), of i e] i unfolding m by auto
  then show ?case using Cons.IH [OF rest] by auto
qed simp

lemma migrate_current:
  assumes "schema_at 3 d"
  shows "fst (migrate e d) = d"
  using migrate_from_current [OF assms, of migrations 0] by (auto simp: migrate_def split: sum.splits)

lemma store_open_current:
  assumes "schema_at 3 d"
  shows "fst (store_open e path d) = d"
  using migrate_current [OF assms, of e] by (auto simp: store_open_def Let_def split: option.splits prod.splits)

text \<open>C19: opening a store that holds the first \<open>k\<close> migrations leaves it holding the first \<open>j\<close>, for some \<open>j\<close> between
  \<open>k\<close> and the current version, whatever the driver does: no migration is half applied, no row is touched and the
  invariant stays. It succeeds when nothing fails, and then the version it reads back is the current one and opening the
  store again, under whatever faults, changes nothing. An error tells which of the three steps failed.\<close>

theorem store_open_schema:
  assumes "schema_at k d" and "k \<le> 3"
  shows "let (d', r) = store_open e path d in
       (\<exists>j. k \<le> j \<and> j \<le> 3 \<and> schema_at j d' \<and> (r = None \<longrightarrow> j = schema_version)) \<and> same_rows d d' \<and> (db_ok d \<longrightarrow> db_ok d')
     \<and> (no_fault e \<and> oe_sql_open e (build_dsn path) = None \<and> oe_ping e (build_dsn path) = None \<longrightarrow> r = None)
     \<and> (r = None \<longrightarrow> (\<forall>e' :: env. no_fault e' \<longrightarrow> store_schema_version e' d' = Inr schema_version))
     \<and> (r = None \<longrightarrow> fst (store_open again path d') = d')
     \<and> (\<forall>err. r = Some err \<longrightarrow> (\<exists>cause. err = Wrap (''open sqlite '' @ path) cause \<or> err = Wrap (''ping sqlite '' @ path) cause
          \<or> err = Wrap ''migrate'' cause))"
proof -
  obtain d' r where o: "store_open e path d = (d', r)" by fastforce
  obtain j where j: "k \<le> j" "j \<le> 3" "schema_at j (fst (migrate e d))" "same_rows d (fst (migrate e d))"
      "snd (migrate e d) = None \<Longrightarrow> j = schema_version" "no_fault e \<Longrightarrow> snd (migrate e d) = None"
    using migrate_reaches [OF assms, of e] by auto
  have err: "\<forall>err. r = Some err \<longrightarrow> (\<exists>cause. err = Wrap (''open sqlite '' @ path) cause \<or> err = Wrap (''ping sqlite '' @ path) cause
          \<or> err = Wrap ''migrate'' cause)"
    using o by (auto simp: store_open_def Let_def split: option.splits prod.splits)
  have left: "d' = d \<and> r \<noteq> None \<or> d' = fst (migrate e d) \<and> (r = None \<longleftrightarrow> snd (migrate e d) = None)"
    using o by (auto simp: store_open_def Let_def split: option.splits prod.splits)
  have reached: "\<exists>j. k \<le> j \<and> j \<le> 3 \<and> schema_at j d' \<and> (r = None \<longrightarrow> j = schema_version)"
    using left assms j by auto
  have rows: "same_rows d d'" using left j(4) by auto
  have good: "no_fault e \<and> oe_sql_open e (build_dsn path) = None \<and> oe_ping e (build_dsn path) = None \<longrightarrow> r = None"
    using o j(6) by (auto simp: store_open_def Let_def split: prod.splits option.splits)
  have at3: "schema_at 3 d'" if "r = None" using reached that by (auto simp: schema_version_def)
  have version: "store_schema_version e' d' = Inr schema_version" if "r = None" "no_fault e'" for e' :: env
    using current_version_schema [OF at3 [OF that(1)] order_refl] that(2)
    by (fastforce simp: store_schema_version_def schema_version_def)
  show ?thesis
    using reached rows same_rows_ok [OF rows] good version err store_open_current [OF at3, of again path] unfolding o by simp
qed

definition calm_open :: open_env where
  "calm_open = env.extend (quiet_env 5) (open_env.fields (\<lambda>f. None) (\<lambda>f. None))"

theorem store_open_schema_witness:
  "let (d', r) = store_open calm_open ''/s/gmcli.db'' empty_db in r = None \<and> schema_at 3 d'
     \<and> fst (store_open calm_open ''/s/gmcli.db'' d') = d'"
proof -
  have start: "schema_at 0 empty_db" by (simp add: schema_at_def empty_db_def)
  have "no_fault calm_open \<and> oe_sql_open calm_open f = None \<and> oe_ping calm_open f = None" for f
    by (simp add: calm_open_def no_fault_def env.defs open_env.defs quiet_env_def)
  then show ?thesis using store_open_schema [OF start, of calm_open "''/s/gmcli.db''" calm_open] by (auto simp: Let_def schema_version_def)
qed

text \<open>The path is put into the name as it is: a reader that looks for the first question mark finds the file and the
  four settings when the path has none, and otherwise cuts the path short.\<close>

lemma build_dsn_text:
  "build_dsn path = ''file:'' @ path @ ''?_pragma=journal_mode%28WAL%29&_pragma=synchronous%28NORMAL%29&_pragma=foreign_keys%28ON%29&_pragma=busy_timeout%285000%29''"
  by (simp add: build_dsn_def pragmas_def query_escape_def query_plain_def byte_of_def Let_def)

lemma dsn_cuts_path:
  "(\<exists>q. cut_char (CHR ''?'') (build_dsn path) = Some (''file:'' @ path, q)) \<longleftrightarrow> CHR ''?'' \<notin> set path"
proof -
  let ?P = "\<lambda>c. c \<noteq> CHR ''?''"
  have marked: "CHR ''?'' \<in> set (build_dsn path)" by (simp add: build_dsn_text)
  have "takeWhile ?P (build_dsn path) = ''file:'' @ path \<longleftrightarrow> CHR ''?'' \<notin> set path"
  proof
    assume "takeWhile ?P (build_dsn path) = ''file:'' @ path"
    then have "set path \<subseteq> set (takeWhile ?P (build_dsn path))" by auto
    then show "CHR ''?'' \<notin> set path" using set_takeWhileD by fastforce
  next
    assume "CHR ''?'' \<notin> set path"
    then have "\<And>c. c \<in> set (''file:'' @ path) \<Longrightarrow> ?P c" by auto
    then show "takeWhile ?P (build_dsn path) = ''file:'' @ path"
      using takeWhile_append2 [of "''file:'' @ path" ?P] unfolding build_dsn_text by simp
  qed
  with marked show ?thesis by (simp add: cut_char_def)
qed

end
