(* ===== verification/Cli_Output.thy ===== *)
theory Cli_Output
  imports Rpc_Protocol Json_Wire Go_Path
begin

text \<open>
  \<open>internal/output/output.go\<close>, \<open>internal/notify/notify.go\<close> and what else the commands of
  \<open>internal/cmd\<close> share: tables, times, truncation, the global flags, and desktop notifications.
\<close>

section \<open>Tables and cells\<close>

definition newline :: char where
  "newline = CHR 0x0A"

definition tab :: char where
  "tab = CHR 0x09"

definition ellipsis :: string where
  "ellipsis = [CHR 0xE2, CHR 0x80, CHR 0xA6]"

definition long_dash :: string where
  "long_dash = [CHR 0xE2, CHR 0x80, CHR 0x94]"

definition return_arrow :: string where
  "return_arrow = CHR '' '' # [CHR 0xE2, CHR 0x86, CHR 0xB5] @ '' ''"

definition shorten :: "string \<Rightarrow> int \<Rightarrow> string" where
  "shorten s0 n = (let s = replace_char newline return_arrow s0 in
     if int (rune_count s) \<le> n then s
     else if n \<le> 1 then ellipsis
     else string_of_runes (take (nat (n - 1)) (runes s)) @ ellipsis)"

text \<open>The text handed to \<open>text/tabwriter\<close>, which pads the cells that tabs end.\<close>

definition table_lines :: "'u unicode_scheme \<Rightarrow> string list \<Rightarrow> string list list \<Rightarrow> string list" where
  "table_lines u headers rows = join_with [tab] (map (to_upper u) headers) # map (join_with [tab]) rows"

definition table_text :: "'u unicode_scheme \<Rightarrow> string list \<Rightarrow> string list list \<Rightarrow> string" where
  "table_text u headers rows = concat (map (\<lambda>l. l @ [newline]) (table_lines u headers rows))"

text \<open>What a command writes; the layout of tables and of indented JSON is the library's.\<close>

datatype out =
    OutTable "string list" "string list list"
  | OutJson json
  | OutLine string
  | ErrLine string

text \<open>The flags every command shares, and the clock's formats.\<close>

record globals =
  gf_store :: string
  gf_log_level :: string
  gf_json :: bool
  gf_read_only :: bool
  gf_full :: bool
  gf_stamp :: "int \<Rightarrow> string"
  gf_minute :: "int \<Rightarrow> string"
  gf_json_time :: "int \<Rightarrow> string"

definition truncated :: "'g globals_scheme \<Rightarrow> string \<Rightarrow> int \<Rightarrow> string" where
  "truncated g s n = (if gf_full g then s else shorten s n)"

definition format_time :: "'g globals_scheme \<Rightarrow> int \<Rightarrow> string" where
  "format_time g ms = (if ms \<le> 0 then long_dash else gf_stamp g ms)"

definition err_read_only :: err where
  "err_read_only = Msg ''read-only mode: this command sends through the phone. Re-run with --read-only=false to allow it.''"

definition require_writable :: "'g globals_scheme \<Rightarrow> err option" where
  "require_writable g = (if gf_read_only g then Some err_read_only else None)"

fun join_args_from :: "string \<Rightarrow> string list \<Rightarrow> string" where
  "join_args_from acc [] = acc"
| "join_args_from acc (a # as) = join_args_from (acc @ '' '' @ a) as"

definition join_args :: "string list \<Rightarrow> string" where
  "join_args as = (case as of [] \<Rightarrow> '''' | a # as' \<Rightarrow> join_args_from a as')"

lemma join_args_eq: "join_args as = join_with '' '' as"
proof -
  have "join_args_from acc as = join_with '' '' (acc # as)" for acc as
  proof (induction as arbitrary: acc)
    case (Cons a as)
    from Cons [of "acc @ '' '' @ a"] show ?case by (cases as) simp_all
  qed simp
  then show ?thesis by (simp add: join_args_def split: list.split)
qed

section \<open>Desktop notifications\<close>

definition apple_script_string :: "string \<Rightarrow> string" where
  "apple_script_string s = [CHR 34] @ replace_char (CHR 34) [backslash, CHR 34] (replace_char backslash [backslash, backslash] s) @ [CHR 34]"

definition notify_command :: "string \<Rightarrow> bool \<Rightarrow> string \<Rightarrow> string \<Rightarrow> string + string list" where
  "notify_command goos installed title body =
     (if goos = ''darwin'' then Inr [''osascript'', ''-e'',
        ''display notification '' @ apple_script_string body @ '' with title '' @ apple_script_string title]
      else if goos = ''linux'' then (if \<not> installed then Inl ''notify-send not installed''
        else Inr [''notify-send'', ''--app-name=gmkit'', title, body])
      else Inl (''desktop notifications unsupported on '' @ goos))"

text \<open>\<open>makeDesktopNotifier\<close>: the title and the body shown for an event, if any.\<close>

definition note_title :: "'z calls \<Rightarrow> message \<Rightarrow> db \<Rightarrow> string" where
  "note_title E row d = (let name = (case get_contact (here (at E 0)) (msg_sender row) d of
         Inl _ \<Rightarrow> msg_sender row
       | Inr c \<Rightarrow> if con_display c \<noteq> '''' then con_display c else if con_e164 c \<noteq> '''' then con_e164 c else msg_sender row) in
     (case get_conversation (here (at E 1)) (msg_conv row) d of
        Inl _ \<Rightarrow> name
      | Inr conv \<Rightarrow> if conv_is_group conv then name @ '' '' @ long_dash @ '' '' @ conversation_display_name conv else name))"

definition note_body :: "message \<Rightarrow> string" where
  "note_body row = (case msg_body row of
     None \<Rightarrow> ''[media]''
   | Some b \<Rightarrow> if b = '''' then ''[media]'' else if 140 < length b then take 140 b @ ellipsis else b)"

definition desktop_note :: "'z calls \<Rightarrow> (int \<Rightarrow> string) \<Rightarrow> gm_event \<Rightarrow> db \<Rightarrow> (string \<times> string) option" where
  "desktop_note E nm ev d = (case ev of
     EvMessage w \<Rightarrow> if w_old w then None
       else (case message_row nm w ''gm'' of
           None \<Rightarrow> None
         | Some row \<Rightarrow> if msg_from_me row then None else Some (note_title E row d, note_body row))
   | _ \<Rightarrow> None)"

section \<open>Cells\<close>

lemma runes_valid: "list_all valid_rune (runes s)"
  by (auto simp: runes_def list_all_iff dest!: chunks_good intro: good_chunk_rune)

lemma rune_count_encoded: "list_all valid_rune rs \<Longrightarrow> rune_count (string_of_runes rs @ t) = length rs + rune_count t"
  by (induction rs) (simp_all add: string_of_runes_def rune_count_def chunks_encode_append)

lemma ellipsis_count: "rune_count ellipsis = 1"
  by (simp add: rune_count_def ellipsis_def chunks.simps decode_rune_def second_ok_def is_cont_def byte_of_def)

lemma shorten_count: "int (rune_count (shorten s n)) \<le> max 1 n"
proof -
  let ?s = "replace_char newline return_arrow s"
  have "rune_count (string_of_runes (take k (runes ?s)) @ ellipsis) = min k (rune_count ?s) + 1" for k
  proof -
    have "list_all valid_rune (take k (runes ?s))" using runes_valid [of ?s] set_take_subset by (fastforce simp: list_all_iff)
    from rune_count_encoded [OF this, of ellipsis] show ?thesis
      by (simp add: ellipsis_count) (simp add: runes_def rune_count_def)
  qed
  then show ?thesis by (auto simp: shorten_def Let_def ellipsis_count)
qed

lemma newline_of: "newline = char_of b \<longleftrightarrow> b mod 256 = (10::nat)"
  by (auto simp: newline_def char_of_eq_iff eq_commute [of _ "char_of b"] take_bit_eq_mod)

lemma newline_byte: "encode_rune r = w \<Longrightarrow> newline \<in> set w \<Longrightarrow> r = 10"
proof -
  assume w: "encode_rune r = w" "newline \<in> set w"
  have big: "newline \<noteq> char_of b" if "128 \<le> b" "b < 256" for b :: nat
    using that by (simp add: newline_of)
  show "r = 10"
  proof (cases "r < 128")
    case True
    then show ?thesis using w by (auto simp: encode_ascii newline_of)
  next
    case False
    then show ?thesis using w big by (auto simp: encode_rune_def valid_rune_def rune_error_def Let_def split: if_splits)
  qed
qed

lemma newline_replaced: "newline \<notin> set (replace_char newline return_arrow s)"
  by (auto simp: replace_char_def return_arrow_def newline_def)

lemma newline_chunk: "newline \<notin> set s \<Longrightarrow> c \<in> set (chunks s) \<Longrightarrow> chunk_rune c \<noteq> 10"
proof
  assume a: "newline \<notin> set s" "c \<in> set (chunks s)" "chunk_rune c = 10"
  from chunks_good [OF a(2)] a(3) have "c = encode_rune 10"
    by (auto simp: good_chunk_def lone_byte rune_error_def)
  then have "newline \<in> set c" by (simp add: encode_ascii newline_of)
  moreover have "set c \<subseteq> set (concat (chunks s))" using a(2) by (auto simp del: concat_chunks)
  then have "set c \<subseteq> set s" by simp
  ultimately show False using a(1) by blast
qed

lemma shorten_no_newline: "newline \<notin> set (shorten s n)"
proof -
  have "newline \<notin> set (string_of_runes (take k (runes (replace_char newline return_arrow s))))" for k
    using newline_chunk [OF newline_replaced] newline_byte
    by (fastforce simp: string_of_runes_def runes_def dest: in_set_takeD)
  moreover have "newline \<notin> set ellipsis" by (auto simp: ellipsis_def newline_def)
  ultimately show ?thesis using newline_replaced by (simp add: shorten_def Let_def)
qed

section \<open>Reading a table back\<close>

lemma split_joined: "cells \<noteq> [] \<Longrightarrow> \<forall>x \<in> set cells. c \<notin> set x \<Longrightarrow> split_char c (join_with [c] cells) = cells"
proof (induction cells)
  case (Cons x cells)
  then show ?case by (cases cells) (simp_all add: split_no_sep split_char_append)
qed simp

lemma split_lines_nl: "\<forall>l \<in> set ls. c \<notin> set l \<Longrightarrow> split_char c (concat (map (\<lambda>l. l @ [c]) ls)) = ls @ [[]]"
  by (induction ls) (simp_all add: split_char_append)

lemma join_with_set: "set (join_with sep xs) \<subseteq> set sep \<union> \<Union> (set (map set xs))"
proof (induction xs)
  case (Cons x xs)
  then show ?case by (cases xs) auto
qed simp

definition plain_cell :: "string \<Rightarrow> bool" where
  "plain_cell s \<longleftrightarrow> tab \<notin> set s \<and> newline \<notin> set s"

text \<open>A table prints one line per row, and its cells read back, when no cell holds a tab or a newline; a text
  cut to a cell's width never breaks its line and has at most that many characters, unless \<open>--full\<close> is
  given.\<close>

theorem table_reads_back:
  assumes "headers \<noteq> []" and "\<forall>r \<in> set rows. r \<noteq> [] \<and> list_all plain_cell r" and "list_all plain_cell (map (to_upper u) headers)"
  shows "map (split_char tab) (split_char newline (table_text u headers rows)) = map (to_upper u) headers # rows @ [[[]]]
    \<and> (\<not> gf_full g \<longrightarrow> newline \<notin> set (truncated g s n) \<and> int (rune_count (truncated g s n)) \<le> max 1 n)"
proof -
  let ?rows = "map (to_upper u) headers # rows"
  have lines: "table_lines u headers rows = map (join_with [tab]) ?rows" by (simp add: table_lines_def)
  have rows: "\<forall>r \<in> set ?rows. r \<noteq> [] \<and> list_all plain_cell r" using assms by auto
  have "newline \<notin> set l" if "l \<in> set (table_lines u headers rows)" for l
  proof -
    from that lines obtain r where r: "r \<in> set ?rows" "l = join_with [tab] r" by auto
    have "newline \<noteq> tab" by (simp add: newline_def tab_def)
    moreover have "\<forall>x \<in> set r. newline \<notin> set x" using rows r(1) by (auto simp: list_all_iff plain_cell_def)
    ultimately show ?thesis using r(2) join_with_set [of "[tab]" r] by auto
  qed
  then have "split_char newline (table_text u headers rows) = map (join_with [tab]) ?rows @ [[]]"
    unfolding table_text_def using split_lines_nl [of "table_lines u headers rows" newline] lines by auto
  moreover have "map (split_char tab) (map (join_with [tab]) ?rows) = ?rows"
  proof -
    have "split_char tab (join_with [tab] r) = r" if "r \<in> set ?rows" for r
      using rows that by (intro split_joined) (auto simp: list_all_iff plain_cell_def)
    then show ?thesis unfolding map_map by (intro map_idI) simp
  qed
  ultimately have "map (split_char tab) (split_char newline (table_text u headers rows)) = ?rows @ [[[]]]"
    by (simp only: map_append) simp
  then show ?thesis using shorten_count shorten_no_newline by (simp add: truncated_def)
qed

section \<open>Notifications\<close>

text \<open>AppleScript's reading of a string literal after its opening quote, and what follows.\<close>

fun read_apple :: "string \<Rightarrow> (string \<times> string) option" where
  "read_apple [] = None"
| "read_apple [c] = (if c = CHR 34 then Some ([], []) else None)"
| "read_apple (c # d # s) = (if c = CHR 34 then Some ([], d # s)
     else if c = backslash then map_option (\<lambda>(t, r). (d # t, r)) (read_apple s)
     else map_option (\<lambda>(t, r). (c # t, r)) (read_apple (d # s)))"

definition apple_body :: "string \<Rightarrow> string" where
  "apple_body s = concat (map (\<lambda>c. if c = backslash then [backslash, backslash] else if c = CHR 34 then [backslash, CHR 34] else [c]) s)"

lemma apple_script_body: "apple_script_string s = [CHR 34] @ apple_body s @ [CHR 34]"
proof -
  have q: "backslash \<noteq> CHR 34" by (simp add: backslash_def)
  have "replace_char (CHR 34) [backslash, CHR 34] (replace_char backslash [backslash, backslash] s) = apple_body s"
    using q by (induction s) (auto simp: replace_char_def apple_body_def)
  then show ?thesis by (simp add: apple_script_string_def)
qed

lemma read_apple_body: "read_apple (apple_body s @ CHR 34 # rest) = Some (s, rest)"
proof (induction s)
  case Nil
  show ?case by (cases rest) (simp_all add: apple_body_def)
next
  case (Cons c s)
  have q: "backslash \<noteq> CHR 34" by (simp add: backslash_def)
  obtain d t where d: "apple_body s @ CHR 34 # rest = d # t" by (cases "apple_body s") auto
  have "apple_body (c # s) = (if c = backslash then [backslash, backslash] else if c = CHR 34 then [backslash, CHR 34] else [c]) @ apple_body s"
    by (simp add: apple_body_def)
  with Cons q d show ?case by auto
qed

text \<open>C40: a desktop notification on macOS carries its texts unharmed and nothing else: the script is the two
  literals at their places, each of which reads back as the text it was given, whatever quotes and
  backslashes a message holds; notifications are shown for live messages of others only, and their body is
  bounded.\<close>

theorem notification_quoted:
  "(\<exists>script s1 s2. notify_command ''darwin'' installed title body = Inr [''osascript'', ''-e'', script]
      \<and> script = ''display notification '' @ [CHR 34] @ s1 \<and> read_apple s1 = Some (body, '' with title '' @ [CHR 34] @ s2)
      \<and> read_apple s2 = Some (title, ''''))
   \<and> (case desktop_note E nm ev d of None \<Rightarrow> True | Some (t, b) \<Rightarrow> length b \<le> 143
      \<and> (\<exists>w row. ev = EvMessage w \<and> \<not> w_old w \<and> message_row nm w ''gm'' = Some row \<and> \<not> msg_from_me row))"
proof
  show "\<exists>script s1 s2. notify_command ''darwin'' installed title body = Inr [''osascript'', ''-e'', script]
      \<and> script = ''display notification '' @ [CHR 34] @ s1 \<and> read_apple s1 = Some (body, '' with title '' @ [CHR 34] @ s2)
      \<and> read_apple s2 = Some (title, '''')"
    using read_apple_body [of body "'' with title '' @ apple_script_string title"] read_apple_body [of title "''''"]
    by (auto simp: notify_command_def apple_script_body)
  have "length (note_body row) \<le> 143" for row by (auto simp: note_body_def ellipsis_def split: option.split)
  then show "case desktop_note E nm ev d of None \<Rightarrow> True | Some (t, b) \<Rightarrow> length b \<le> 143
      \<and> (\<exists>w row. ev = EvMessage w \<and> \<not> w_old w \<and> message_row nm w ''gm'' = Some row \<and> \<not> msg_from_me row)"
    by (auto simp: desktop_note_def split: gm_event.split option.split)
qed

text \<open>The body is cut at a byte, which may lie inside a character: the notification then holds a broken one.\<close>

lemma note_cuts_rune:
  "\<exists>row. msg_body row = Some (replicate 139 (CHR ''a'') @ [CHR 0xC3, CHR 0xA9]) \<and> list_all (\<lambda>c. chunk_rune c \<noteq> rune_error) (chunks (the (msg_body row)))
    \<and> \<not> list_all (\<lambda>c. chunk_rune c \<noteq> rune_error) (chunks (note_body row))"
proof -
  let ?row = "(sample_msg ''m1'' 7)\<lparr>msg_body := Some (replicate 139 (CHR ''a'') @ [CHR 0xC3, CHR 0xA9])\<rparr>"
  have a: "chunks (replicate n (CHR ''a'') @ t) = replicate n [CHR ''a''] @ chunks t" for n t
    by (induction n) (simp_all add: chunks_ascii_Cons byte_of_def)
  have "chunk_rune [CHR ''a''] \<noteq> rune_error" by (simp add: chunk_rune_def decode_rune_def byte_of_def rune_error_def)
  moreover have "chunks [CHR 0xC3, CHR 0xA9] = [[CHR 0xC3, CHR 0xA9]]" "chunk_rune [CHR 0xC3, CHR 0xA9] = 233"
    by (simp_all add: chunks.simps decode_rune_def chunk_rune_def second_ok_def is_cont_def byte_of_def)
  moreover have "chunks (CHR 0xC3 # ellipsis) = [CHR 0xC3] # chunks ellipsis" "chunk_rune [CHR 0xC3] = rune_error"
    by (subst chunks.simps, simp add: decode_rune_def second_ok_def is_cont_def byte_of_def ellipsis_def,
        simp add: decode_rune_def chunk_rune_def byte_of_def)
  moreover have "note_body ?row = replicate 139 (CHR ''a'') @ CHR 0xC3 # ellipsis" by (simp add: note_body_def)
  ultimately show ?thesis by (intro exI [of _ ?row]) (simp add: a rune_error_def list_all_iff)
qed

theorem table_reads_back_witness:
  "split_char newline (table_text (quiet_env 5) [''a'', ''b''] [[''x'', ''y'']])
    \<noteq> [] \<and> map (split_char tab) (split_char newline (table_text (quiet_env 5) [''a'', ''b''] [[''x'', ''y'']]))
      = [[''A'', ''B''], [''x'', ''y''], [[]]]"
proof -
  have up: "to_upper (quiet_env 5) ''a'' = ''A''" "to_upper (quiet_env 5) ''b'' = ''B''" by code_simp+
  have "map (split_char tab) (split_char newline (table_text (quiet_env 5) [''a'', ''b''] [[''x'', ''y'']]))
      = [[''A'', ''B''], [''x'', ''y''], [[]]]"
  proof -
    have "list_all plain_cell (map (to_upper (quiet_env 5)) [''a'', ''b''])" "list_all plain_cell [''x'', ''y'']"
      using up by (simp_all add: plain_cell_def newline_def tab_def)
    then show ?thesis using conjunct1 [OF table_reads_back [of "[''a'', ''b'']" "[[''x'', ''y'']]" "quiet_env 5"]] up by simp
  qed
  then show ?thesis by auto
qed

end
