(* ===== verification/Paths.thy ===== *)
theory Paths
  imports Go_Path Store_Schema
begin

text \<open>\<open>internal/paths/paths.go\<close>: where the program keeps its files, under a store directory given by flag,
  by \<open>XDG_STATE_HOME\<close> or in the home directory.\<close>

record layout =
  ly_root :: string
  ly_session :: string
  ly_database :: string
  ly_media :: string
  ly_socket :: string

text \<open>The process environment: \<open>Getenv\<close>, \<open>UserHomeDir\<close>, \<open>Getwd\<close> and \<open>MkdirAll\<close>.\<close>

record path_env =
  pe_xdg :: string
  pe_home :: "string + string"
  pe_cwd :: "string + string"
  pe_mkdir :: "string \<Rightarrow> string option"

definition default_root :: "'p path_env_scheme \<Rightarrow> err + string" where
  "default_root v = (if pe_xdg v \<noteq> '''' then Inr (path_join [pe_xdg v, ''gmcli''])
     else (case pe_home v of
         Inl t \<Rightarrow> Inl (Wrap ''determine home dir'' (Driver t))
       | Inr home \<Rightarrow> Inr (path_join [home, ''.local'', ''state'', ''gmcli''])))"

text \<open>\<open>filepath.Abs\<close>.\<close>

definition path_abs :: "'p path_env_scheme \<Rightarrow> string \<Rightarrow> string + string" where
  "path_abs v p = (if is_rooted p then Inr (path_clean p)
     else (case pe_cwd v of Inl t \<Rightarrow> Inl t | Inr wd \<Rightarrow> Inr (path_join [wd, p])))"

definition layout_at :: "string \<Rightarrow> layout" where
  "layout_at root = \<lparr>ly_root = root, ly_session = path_join [root, ''session.json''], ly_database = path_join [root, ''gmcli.db''],
     ly_media = path_join [root, ''media''], ly_socket = path_join [root, ''gmcli.sock'']\<rparr>"

definition resolve :: "'p path_env_scheme \<Rightarrow> string \<Rightarrow> err + layout" where
  "resolve v override = (case (if override = '''' then default_root v else Inr override) of
     Inl err \<Rightarrow> Inl err
   | Inr root \<Rightarrow> (case path_abs v root of
       Inl t \<Rightarrow> Inl (Wrap ''resolve store path'' (Driver t))
     | Inr p \<Rightarrow> Inr (layout_at p)))"

definition daemon_log :: "layout \<Rightarrow> string" where
  "daemon_log l = path_join [ly_root l, ''daemon.log'']"

text \<open>The directories made, and the error that stopped it.\<close>

definition ensure_dirs :: "'p path_env_scheme \<Rightarrow> layout \<Rightarrow> string list \<times> err option" where
  "ensure_dirs v l = (case pe_mkdir v (ly_root l) of
     Some t \<Rightarrow> ([], Some (Wrap (''create store dir '' @ ly_root l) (Driver t)))
   | None \<Rightarrow> (case pe_mkdir v (ly_media l) of
       Some t \<Rightarrow> ([ly_root l], Some (Wrap (''create media dir '' @ ly_media l) (Driver t)))
     | None \<Rightarrow> ([ly_root l, ly_media l], None)))"

section \<open>Everything lies under the root\<close>

lemma clean_onto_plain:
  "list_all plain_name st \<Longrightarrow> list_all (\<lambda>n. CHR ''/'' \<notin> set n) ps \<Longrightarrow> list_all plain_name (clean_onto True st ps)"
proof (induction ps arbitrary: st)
  case (Cons p ps)
  have "list_all plain_name (case st of [] \<Rightarrow> [] | q # qs \<Rightarrow> if q = ''..'' then ''..'' # q # qs else qs)"
    using Cons.prems(1) by (cases st) (simp_all add: plain_name_def [of "''..''"], auto simp: plain_name_def)
  note Cons.IH [OF this]
  moreover have "p \<noteq> '''' \<Longrightarrow> p \<noteq> ''.'' \<Longrightarrow> p \<noteq> ''..'' \<Longrightarrow> plain_name p"
    using Cons.prems(2) by (simp add: plain_name_def)
  ultimately show ?case using Cons.prems Cons.IH [of st] Cons.IH [of "p # st"] by auto
qed simp

lemma split_no_slash: "list_all (\<lambda>n. c \<notin> set n) (split_char c s)"
  by (induction s) (auto split: list.splits)

lemma clean_rooted:
  assumes "is_rooted p"
  shows "path_clean p = ''/'' \<or> (\<exists>names. clean_root (path_clean p) names)"
proof -
  have "list_all plain_name (path_elems p)"
    using clean_onto_plain [of "[]", OF _ split_no_slash [of "CHR ''/''" p]] assms by (simp add: path_elems_def list_all_rev)
  then show ?thesis using assms by (cases "path_elems p") (auto simp: path_clean_def clean_root_def Let_def)
qed

lemma clean_join_rooted: "is_rooted wd \<Longrightarrow> path_join [wd, p] = ''/'' \<or> (\<exists>names. clean_root (path_join [wd, p]) names)"
  using clean_rooted [of "join_with ''/'' [wd, p]"] by (cases wd) (auto simp: is_rooted_def has_prefix_def)

lemma clean_root_sub: "clean_root p names \<Longrightarrow> plain_name n \<Longrightarrow> clean_root (p @ ''/'' @ n) (names @ [n])"
  by (simp add: clean_root_def join_with_snoc)

lemma plain_files [simp]:
  "plain_name ''session.json''" "plain_name ''gmcli.db''" "plain_name ''media''" "plain_name ''gmcli.sock''" "plain_name ''daemon.log''"
  by (simp_all add: plain_name_def)

text \<open>Whatever the flag, the environment and the working directory, the store directory is a clean
  absolute path and every file of the layout is a file directly in it (unless it is the file system's root);
  its directories are made before anything is opened.\<close>

theorem layout_inside:
  assumes "resolve v override = Inr l" and "\<And>wd. pe_cwd v = Inr wd \<Longrightarrow> is_rooted wd" and "ly_root l \<noteq> ''/''"
  shows "\<exists>names. clean_root (ly_root l) names \<and> clean_root (ly_media l) (names @ [''media''])
    \<and> map (\<lambda>f. f l) [ly_session, ly_database, ly_media, ly_socket, daemon_log]
      = map (\<lambda>n. ly_root l @ ''/'' @ n) [''session.json'', ''gmcli.db'', ''media'', ''gmcli.sock'', ''daemon.log'']
    \<and> (snd (ensure_dirs v l) = None \<longrightarrow> fst (ensure_dirs v l) = [ly_root l, ly_media l])"
proof -
  obtain root p where p: "path_abs v root = Inr p" "l = layout_at p"
    using assms(1) by (auto simp: resolve_def split: sum.splits if_splits)
  have "p = ''/'' \<or> (\<exists>names. clean_root p names)"
    using p(1) clean_rooted [of root] clean_join_rooted assms(2) by (auto simp: path_abs_def simp del: path_join.simps split: if_splits sum.splits)
  then obtain names where names: "clean_root p names" using assms(3) p(2) by (auto simp: layout_at_def)
  note join = path_join_plain [OF names]
  have "snd (ensure_dirs v l) = None \<longrightarrow> fst (ensure_dirs v l) = [ly_root l, ly_media l]"
    by (simp add: ensure_dirs_def split: option.split)
  then show ?thesis using names clean_root_sub [OF names]
    by (intro exI [of _ names]) (simp add: p(2) layout_at_def daemon_log_def join del: path_join.simps)
qed

theorem layout_inside_witness:
  "\<exists>l. resolve \<lparr>pe_xdg = '''', pe_home = Inr ''/home/me'', pe_cwd = Inr ''/'', pe_mkdir = (\<lambda>d. None)\<rparr> '''' = Inr l
    \<and> ly_session l = ''/home/me/.local/state/gmcli/session.json''"
proof -
  let ?v = "\<lparr>pe_xdg = '''', pe_home = Inr ''/home/me'', pe_cwd = Inr ''/'', pe_mkdir = (\<lambda>d. None)\<rparr>"
  have r: "resolve ?v '''' = Inr (layout_at ''/home/me/.local/state/gmcli'')"
    by (simp add: resolve_def default_root_def path_abs_def is_rooted_def has_prefix_def path_clean_def path_elems_def Let_def)
  from layout_inside [OF r] show ?thesis using r by (auto simp: layout_at_def is_rooted_def has_prefix_def simp del: path_join.simps)
qed

end
