(* ===== verification/Cli_Query.thy ===== *)
theory Cli_Query
  imports Cli_Output Paths
begin

text \<open>
  The commands of \<open>internal/cmd\<close> that read the archive, \<open>messages\<close>, \<open>chats\<close> and \<open>contacts\<close>, and the
  aliases they keep, as functions of their flags, the store and what they meet outside; each gives what it
  prints and its error.
\<close>

section \<open>Opening the store\<close>

record cli_env = path_env +
  ce_open :: "string \<Rightarrow> err option"
  ce_local_date :: "string \<Rightarrow> int option"
  ce_rfc3339 :: "string \<Rightarrow> int option"

definition resolve_layout :: "'p path_env_scheme \<Rightarrow> 'g globals_scheme \<Rightarrow> err + layout" where
  "resolve_layout v g = (case resolve v (gf_store g) of
     Inl err \<Rightarrow> Inl err
   | Inr l \<Rightarrow> (case snd (ensure_dirs v l) of Some err \<Rightarrow> Inl err | None \<Rightarrow> Inr l))"

definition open_store :: "'p cli_env_scheme \<Rightarrow> 'g globals_scheme \<Rightarrow> err option" where
  "open_store v g = (case resolve_layout v g of Inl err \<Rightarrow> Some err | Inr l \<Rightarrow> ce_open v (ly_database l))"

type_synonym printed = "out list \<times> err option"

definition with_store :: "'p cli_env_scheme \<Rightarrow> 'g globals_scheme \<Rightarrow> printed \<Rightarrow> printed" where
  "with_store v g run = (case open_store v g of Some err \<Rightarrow> ([], Some err) | None \<Rightarrow> run)"

text \<open>A time flag in milliseconds; the parsers of the two layouts are the environment's.\<close>

definition parse_flag_time :: "'u unicode_scheme \<Rightarrow> 'p cli_env_scheme \<Rightarrow> string \<Rightarrow> err + int" where
  "parse_flag_time u v s = (if s = '''' then Inr zero_time_ms
     else (case ce_local_date v s of
         Some t \<Rightarrow> Inr t
       | None \<Rightarrow> (case ce_rfc3339 v s of
           Some t \<Rightarrow> Inr t
         | None \<Rightarrow> Inl (Msg (''unrecognized time '' @ go_quote u s @ '' (try YYYY-MM-DD or RFC3339)'')))))"

definition flag_range :: "'u unicode_scheme \<Rightarrow> 'p cli_env_scheme \<Rightarrow> string \<Rightarrow> string \<Rightarrow> err + int \<times> int" where
  "flag_range u v since until = (case parse_flag_time u v since of
     Inl err \<Rightarrow> Inl (Wrap ''--since'' err)
   | Inr a \<Rightarrow> (case parse_flag_time u v until of
       Inl err \<Rightarrow> Inl (Wrap ''--until'' err)
     | Inr b \<Rightarrow> Inr (a, b)))"

text \<open>What the listings do with the rows of a successful query.\<close>

definition show_rows :: "'g globals_scheme \<Rightarrow> ('a \<Rightarrow> json) \<Rightarrow> string \<Rightarrow> string list \<Rightarrow> ('a \<Rightarrow> string list) \<Rightarrow> err + 'a list \<Rightarrow> printed" where
  "show_rows g to_json none headers row r = (case r of
     Inl err \<Rightarrow> ([], Some err)
   | Inr xs \<Rightarrow> if gf_json g then ([OutJson (JArr (map to_json xs))], None)
       else if xs = [] then ([ErrLine none], None)
       else ([OutTable headers (map row xs)], None))"

section \<open>Messages\<close>

definition message_cells :: "'g globals_scheme \<Rightarrow> message \<Rightarrow> string list" where
  "message_cells g m = [format_time g (msg_ts m), if msg_from_me m then ''->'' else ''<-'', msg_sender m, msg_id m,
     truncated g (case msg_body m of Some b \<Rightarrow> b
       | None \<Rightarrow> (case msg_mime m of Some t \<Rightarrow> ''['' @ t @ '']'' | None \<Rightarrow> '''')) 80]"

definition render_messages :: "'g globals_scheme \<Rightarrow> message list \<Rightarrow> printed" where
  "render_messages g ms =
     show_rows g message_json ''(no messages)'' [''time'', ''dir'', ''sender'', ''msg_id'', ''body''] (message_cells g) (Inr ms)"

definition go_bool :: "bool \<Rightarrow> string" where
  "go_bool b = (if b then ''true'' else ''false'')"

definition opt_line :: "string \<Rightarrow> string option \<Rightarrow> out list" where
  "opt_line label v = (case v of None \<Rightarrow> [] | Some t \<Rightarrow> [OutLine (label @ t)])"

definition message_detail :: "'g globals_scheme \<Rightarrow> message \<Rightarrow> out list" where
  "message_detail g m =
     [OutLine (''message_id:      '' @ msg_id m), OutLine (''conversation_id: '' @ msg_conv m),
      OutLine (''sender:          '' @ msg_sender m), OutLine (''from_me:         '' @ go_bool (msg_from_me m)),
      OutLine (''timestamp:       '' @ format_time g (msg_ts m)), OutLine (''status:          '' @ itoa (msg_status m))]
     @ opt_line ''reply_to:        '' (msg_reply m)
     @ (case msg_media m of None \<Rightarrow> [] | Some t \<Rightarrow> OutLine (''media_id:        '' @ t) # opt_line ''mime_type:       '' (msg_mime m))
     @ opt_line ''reactions:       '' (msg_reactions m)
     @ [OutLine '''', OutLine (case msg_body m of Some b \<Rightarrow> b | None \<Rightarrow> ''(no text body)'')]"

definition messages_list :: "'p cli_env_scheme \<Rightarrow> 'g globals_scheme \<Rightarrow> 'z calls \<Rightarrow> string \<Rightarrow> string \<Rightarrow> string \<Rightarrow> string \<Rightarrow> int \<Rightarrow> string \<Rightarrow> db
    \<Rightarrow> printed" where
  "messages_list v g E conv sender since until limit order d = (case flag_range (here E) v since until of
     Inl err \<Rightarrow> ([], Some err)
   | Inr (a, b) \<Rightarrow> with_store v g (case list_messages (here (at E 0)) \<lparr>lm_conv = conv, lm_sender = sender, lm_since = a, lm_until = b,
         lm_limit = limit, lm_order = order\<rparr> d of
       Inl err \<Rightarrow> ([], Some err)
     | Inr ms \<Rightarrow> render_messages g ms))"

definition hit_cells :: "'g globals_scheme \<Rightarrow> rich_hit \<Rightarrow> string list" where
  "hit_cells g h = [format_time g (rh_ts h), truncated g (rh_sender h) 18, truncated g (rh_conv_name h) 24, rh_id h,
     truncated g (rh_snippet h) 70]"

definition messages_search :: "'p cli_env_scheme \<Rightarrow> 'g globals_scheme \<Rightarrow> 'z calls \<Rightarrow> string list \<Rightarrow> string \<Rightarrow> string \<Rightarrow> string \<Rightarrow> int \<Rightarrow> db
    \<Rightarrow> printed" where
  "messages_search v g E args conv since until limit d = (case flag_range (here E) v since until of
     Inl err \<Rightarrow> ([], Some err)
   | Inr (a, b) \<Rightarrow> with_store v g (show_rows g rich_hit_json ''(no matches)'' [''time'', ''from'', ''conversation'', ''msg_id'', ''snippet'']
       (hit_cells g) (search_messages_rich (at E 0)
         \<lparr>so_query = join_args args, so_conv = conv, so_since = a, so_until = b, so_limit = limit\<rparr> d)))"

definition no_message :: "string \<Rightarrow> err \<Rightarrow> err" where
  "no_message mid err = (if err_is err ErrNotFound then Msg (''no message with id '' @ mid) else err)"

definition messages_show :: "'p cli_env_scheme \<Rightarrow> 'g globals_scheme \<Rightarrow> 'z calls \<Rightarrow> string \<Rightarrow> db \<Rightarrow> printed" where
  "messages_show v g E mid d = with_store v g (case get_message (here (at E 0)) mid d of
     Inl err \<Rightarrow> ([], Some (no_message mid err))
   | Inr m \<Rightarrow> (if gf_json g then [OutJson (message_json m)] else message_detail g m, None))"

definition messages_context :: "'p cli_env_scheme \<Rightarrow> 'g globals_scheme \<Rightarrow> 'z calls \<Rightarrow> string \<Rightarrow> int \<Rightarrow> int \<Rightarrow> db \<Rightarrow> printed" where
  "messages_context v g E mid before after d = with_store v g (case get_message_context (here (at E 0)) mid before after d of
     Inl err \<Rightarrow> ([], Some (no_message mid err))
   | Inr ms \<Rightarrow> render_messages g ms)"

section \<open>Chats\<close>

definition bool_mark :: "bool \<Rightarrow> string \<Rightarrow> string" where
  "bool_mark b mark = (if b then mark else '''')"

text \<open>A value of a JSON object decoded into a map: the last one of that very name.\<close>

definition map_field :: "(string \<times> json) list \<Rightarrow> string \<Rightarrow> json option" where
  "map_field fs k = map_of (rev fs) k"

definition field_text :: "(string \<times> json) list \<Rightarrow> string \<Rightarrow> string" where
  "field_text fs k = (case map_field fs k of Some (JStr s) \<Rightarrow> s | _ \<Rightarrow> '''')"

definition part_label :: "(string \<times> json) list \<Rightarrow> string list" where
  "part_label fs = (if map_field fs ''is_me'' = Some (JBool True) then []
     else if field_text fs ''name'' \<noteq> '''' then [field_text fs ''name'']
     else if field_text fs ''formatted_number'' \<noteq> '''' then [field_text fs ''formatted_number'']
     else if field_text fs ''e164'' \<noteq> '''' then [field_text fs ''e164'']
     else [])"

definition part_fields :: "json \<Rightarrow> (string \<times> json) list option" where
  "part_fields v = (case v of JNull \<Rightarrow> Some [] | JObj fs \<Rightarrow> Some fs | _ \<Rightarrow> None)"

definition participant_summary_text :: "'g globals_scheme \<Rightarrow> string \<Rightarrow> string" where
  "participant_summary_text g js = (if js = '''' \<or> js = ''[]'' then ''''
     else (case (case parse_json js of
           Some JNull \<Rightarrow> Some []
         | Some (JArr vs) \<Rightarrow> if list_all (\<lambda>v. part_fields v \<noteq> None) vs then Some (map (the \<circ> part_fields) vs) else None
         | _ \<Rightarrow> None) of
       None \<Rightarrow> ''?''
     | Some parts \<Rightarrow> (let names = concat (map part_label parts) in
         if names = [] then '''' else truncated g (join_with '', '' names) 40)))"

definition chat_kind :: "conversation \<Rightarrow> string" where
  "chat_kind c = (if conv_is_group c then ''grp'' else ''1:1'')"

definition chats_list :: "'p cli_env_scheme \<Rightarrow> 'g globals_scheme \<Rightarrow> 'z calls \<Rightarrow> int \<Rightarrow> bool \<Rightarrow> bool \<Rightarrow> db \<Rightarrow> printed" where
  "chats_list v g E limit unread_only pinned d = with_store v g (show_rows g (conversation_json (gf_json_time g)) ''(no conversations)''
     [''last_msg'', ''kind'', ''unread'', ''pin'', ''participants'', ''name'', ''conv_id'']
     (\<lambda>c. [format_time g (conv_last_ms c), chat_kind c, bool_mark (conv_unread c) ''*'', bool_mark (conv_pinned c) ''P'',
       participant_summary_text g (conv_participants c), truncated g (conv_name c) 40, conv_id c])
     (list_conversations (here (at E 0)) \<lparr>lc_limit = limit, lc_unread_only = unread_only, lc_pinned = pinned\<rparr> d))"

definition chats_find :: "'p cli_env_scheme \<Rightarrow> 'g globals_scheme \<Rightarrow> 'z calls \<Rightarrow> string list \<Rightarrow> int \<Rightarrow> db \<Rightarrow> printed" where
  "chats_find v g E args limit d = with_store v g (show_rows g (conversation_json (gf_json_time g)) ''(no matching conversations)''
     [''last_msg'', ''kind'', ''name'', ''conv_id'']
     (\<lambda>c. [format_time g (conv_last_ms c), chat_kind c, truncated g (conversation_display_name c) 40, conv_id c])
     (find_conversations (at E 0) (join_args args) limit d))"

definition chat_detail :: "'g globals_scheme \<Rightarrow> conversation \<Rightarrow> message list \<Rightarrow> out list" where
  "chat_detail g c ms =
     [OutLine (''conversation_id: '' @ conv_id c), OutLine (''name:            '' @ conv_name c),
      OutLine (''group:           '' @ go_bool (conv_is_group c)), OutLine (''unread:          '' @ go_bool (conv_unread c)),
      OutLine (''pinned:          '' @ go_bool (conv_pinned c)), OutLine (''last_message:    '' @ format_time g (conv_last_ms c)),
      OutLine (''participants:    '' @ participant_summary_text g (conv_participants c)), OutLine '''']
     @ (if ms = [] then [ErrLine ''(no messages)''] else fst (render_messages g ms))"

definition chats_show :: "'p cli_env_scheme \<Rightarrow> 'g globals_scheme \<Rightarrow> 'z calls \<Rightarrow> string \<Rightarrow> int \<Rightarrow> db \<Rightarrow> printed" where
  "chats_show v g E cid limit d = with_store v g (case get_conversation (here (at E 0)) cid d of
     Inl err \<Rightarrow> ([], Some (if err_is err ErrNotFound \<or> err_text err = ''sql: no rows in result set''
         then Msg (''no conversation with id '' @ cid) else err))
   | Inr conv \<Rightarrow> (case list_messages (here (at E 1)) \<lparr>lm_conv = cid, lm_sender = '''', lm_since = zero_time_ms,
         lm_until = zero_time_ms, lm_limit = limit, lm_order = ''desc''\<rparr> d of
       Inl err \<Rightarrow> ([], Some err)
     | Inr page \<Rightarrow> (let ms = rev page in
         (if gf_json g then [OutJson (JObj [(''conversation'', conversation_json (gf_json_time g) conv),
             (''messages'', JArr (map message_json ms))])]
          else chat_detail g conv ms, None))))"

section \<open>Contacts\<close>

definition contacts_search :: "'p cli_env_scheme \<Rightarrow> 'g globals_scheme \<Rightarrow> 'z calls \<Rightarrow> string list \<Rightarrow> int \<Rightarrow> db \<Rightarrow> printed" where
  "contacts_search v g E args limit d = with_store v g (show_rows g contact_json ''(no matches)''
     [''name'', ''number'', ''e164'', ''participant_id'']
     (\<lambda>c. [if con_alias c \<noteq> '''' \<and> con_alias c \<noteq> con_name c then con_alias c @ '' ('' @ con_name c @ '')'' else con_display c,
       con_formatted c, con_e164 c, con_id c])
     (search_contacts (here (at E 0)) (join_args args) limit d))"

definition non_empty_line :: "string \<Rightarrow> string \<Rightarrow> out list" where
  "non_empty_line label t = (if t \<noteq> '''' then [OutLine (label @ t)] else [])"

definition contact_detail :: "contact \<Rightarrow> out list" where
  "contact_detail c = [OutLine (''name:             '' @ con_name c)] @ non_empty_line ''alias:            '' (con_alias c)
     @ [OutLine (''participant_id:   '' @ con_id c)] @ non_empty_line ''contact_id:       '' (con_contact_id c)
     @ non_empty_line ''e164:             '' (con_e164 c) @ non_empty_line ''formatted_number: '' (con_formatted c)
     @ non_empty_line ''avatar_color:     '' (con_color c) @ (if con_is_me c then [OutLine ''self:             true''] else [])"

definition contacts_show :: "'p cli_env_scheme \<Rightarrow> 'g globals_scheme \<Rightarrow> 'z calls \<Rightarrow> string \<Rightarrow> db \<Rightarrow> printed" where
  "contacts_show v g E key d = with_store v g (case (case get_contact (here (at E 0)) key d of
       Inl err \<Rightarrow> if err_is err ErrNotFound then get_contact_by_number (here (at E 1)) key d else Inl err
     | Inr c \<Rightarrow> Inr c) of
     Inl err \<Rightarrow> ([], Some (if err_is err ErrNotFound then Msg (''no contact matching '' @ go_quote (here E) key) else err))
   | Inr c \<Rightarrow> (if gf_json g then [OutJson (contact_json c)] else contact_detail c, None))"

text \<open>The commands that change aliases also return the store.\<close>

definition alias_set :: "'p cli_env_scheme \<Rightarrow> 'g globals_scheme \<Rightarrow> 'z calls \<Rightarrow> string \<Rightarrow> string \<Rightarrow> db \<Rightarrow> db \<times> printed" where
  "alias_set v g E pid alias d =
     (if pid = '''' \<or> alias = '''' then (d, [], Some (Msg ''--id and --alias are required''))
      else (case open_store v g of
          Some err \<Rightarrow> (d, [], Some err)
        | None \<Rightarrow> (case set_alias (here (at E 0)) alias_contact pid alias d of
            (d', Some err) \<Rightarrow> (d', [], Some err)
          | (d', None) \<Rightarrow> (d', [ErrLine (''Set alias '' @ go_quote (here E) alias @ '' for '' @ pid)], None))))"

definition alias_rm :: "'p cli_env_scheme \<Rightarrow> 'g globals_scheme \<Rightarrow> 'z calls \<Rightarrow> string \<Rightarrow> db \<Rightarrow> db \<times> printed" where
  "alias_rm v g E pid d =
     (if pid = '''' then (d, [], Some (Msg ''--id is required''))
      else (case open_store v g of
          Some err \<Rightarrow> (d, [], Some err)
        | None \<Rightarrow> (case remove_alias (here (at E 0)) alias_contact pid d of
            (d', Some err) \<Rightarrow> (d', [], Some (if err_is err ErrNotFound then Msg (''no alias set for '' @ pid) else err))
          | (d', None) \<Rightarrow> (d', [ErrLine (''Removed alias for '' @ pid)], None))))"

definition alias_json :: "'g globals_scheme \<Rightarrow> alias_entry \<Rightarrow> json" where
  "alias_json g a = JObj [(''target_type'', JStr (ali_type a)), (''target_id'', JStr (ali_id a)), (''alias'', JStr (ali_alias a)),
     (''updated_at'', JStr (gf_json_time g (ali_updated a)))]"

definition alias_list :: "'p cli_env_scheme \<Rightarrow> 'g globals_scheme \<Rightarrow> 'z calls \<Rightarrow> db \<Rightarrow> printed" where
  "alias_list v g E d = with_store v g (show_rows g (alias_json g) ''(no aliases set)'' [''alias'', ''participant_id'', ''updated'']
     (\<lambda>a. [ali_alias a, ali_id a, format_time g (ali_updated a)])
     (case list_aliases (here (at E 0)) d of Inl err \<Rightarrow> Inl err | Inr as \<Rightarrow> Inr (filter (\<lambda>a. ali_type a = alias_contact) as)))"

end
