(* ===== verification/Rpc_Client.thy ===== *)
theory Rpc_Client
  imports Daemon Json_Wire
begin

text \<open>
  \<open>internal/rpc/client.go\<close>: calls that wait for the response with their id, the read loop that hands
  responses out and queues events, and the end of the connection. A pending call's key is the text of its
  number, which only that number has.
\<close>

section \<open>Messages\<close>

text \<open>\<open>Request\<close> as the client fills it in.\<close>

definition request_json :: "int \<Rightarrow> string \<Rightarrow> json option \<Rightarrow> json" where
  "request_json i m params = JObj ([(''jsonrpc'', JStr ''2.0''), (''id'', JInt i), (''method'', JStr m)] @ opt_field ''params'' params)"

text \<open>A value decoded into an \<open>any\<close> and written again: numbers are \<open>float64\<close>, exact up to \<open>2 ^ 53\<close>
  (\<open>num\<close> gives the others), objects become maps, whose keys are unique and sorted.\<close>

definition any_object :: "(string \<times> json) list \<Rightarrow> json" where
  "any_object fs = JObj (map (\<lambda>k. (k, the (map_of (rev fs) k))) (sort (remdups (map fst fs))))"

fun through_any :: "(json \<Rightarrow> json) \<Rightarrow> json \<Rightarrow> json" where
  "through_any num (JInt i) = (if - (2 ^ 53) \<le> i \<and> i \<le> 2 ^ 53 then JInt i else num (JInt i))"
| "through_any num (JLit t) = num (JLit t)"
| "through_any num (JArr vs) = JArr (map (through_any num) vs)"
| "through_any num (JObj fs) = any_object (map (\<lambda>kv. (fst kv, through_any num (snd kv))) fs)"
| "through_any num v = v"

definition any_field :: "(json \<Rightarrow> json) \<Rightarrow> json option \<Rightarrow> (string \<times> json) list \<Rightarrow> string \<Rightarrow> json option" where
  "any_field num acc fs name = foldl (\<lambda>_ v. if v = JNull then None else Some (through_any num v)) acc (obj_values name fs)"

record response =
  rs_result :: "json option"
  rs_error :: "rpc_error option"

record event =
  ev_type :: string
  ev_data :: "json option"

text \<open>An error object decoded into the pointer it had so far; \<open>None\<close> when the types do not fit.\<close>

definition read_error :: "(json \<Rightarrow> json) \<Rightarrow> rpc_error option \<Rightarrow> json \<Rightarrow> rpc_error option option" where
  "read_error num acc v = (case v of
     JNull \<Rightarrow> Some None
   | JObj fs \<Rightarrow> if fields_ok [(''code'', KInt), (''message'', KString)] fs
       then (let old = (case acc of None \<Rightarrow> \<lparr>re_code = 0, re_message = '''', re_data = None\<rparr> | Some e \<Rightarrow> e) in
         Some (Some \<lparr>re_code = (if obj_values ''code'' fs = [] then re_code old else get_int fs ''code''),
           re_message = (if obj_values ''message'' fs = [] then re_message old else get_string fs ''message''),
           re_data = any_field num (re_data old) fs ''data''\<rparr>))
       else None
   | _ \<Rightarrow> None)"

definition decode_response :: "(json \<Rightarrow> json) \<Rightarrow> string \<Rightarrow> response option" where
  "decode_response num line = (case parse_json line of
     Some JNull \<Rightarrow> Some \<lparr>rs_result = None, rs_error = None\<rparr>
   | Some (JObj fs) \<Rightarrow> if fields_ok [(''jsonrpc'', KString)] fs
       then map_option (\<lambda>err. \<lparr>rs_result = any_field num None fs ''result'', rs_error = err\<rparr>)
         (foldl (\<lambda>acc v. Option.bind acc (\<lambda>a. read_error num a v)) (Some None) (obj_values ''error'' fs))
       else None
   | _ \<Rightarrow> None)"

definition decode_event :: "(json \<Rightarrow> json) \<Rightarrow> string \<Rightarrow> event option" where
  "decode_event num line = (case parse_json line of
     Some (JObj fs) \<Rightarrow> if fields_ok [(''jsonrpc'', KString), (''method'', KString)] fs
       then foldl (\<lambda>acc v. Option.bind acc (\<lambda>ev. case v of
           JNull \<Rightarrow> Some ev
         | JObj efs \<Rightarrow> if fields_ok [(''type'', KString)] efs
             then Some \<lparr>ev_type = (if obj_values ''type'' efs = [] then ev_type ev else get_string efs ''type''),
               ev_data = any_field num (ev_data ev) efs ''data''\<rparr>
             else None
         | _ \<Rightarrow> None)) (Some \<lparr>ev_type = '''', ev_data = None\<rparr>) (obj_values ''params'' fs)
       else None
   | _ \<Rightarrow> None)"

text \<open>What the read loop looks at first: the id and the method.\<close>

definition decode_probe :: "string \<Rightarrow> (json option \<times> string) option" where
  "decode_probe line = (case parse_json line of
     Some JNull \<Rightarrow> Some (None, '''')
   | Some (JObj fs) \<Rightarrow> if fields_ok [(''method'', KString)] fs then Some (raw_field fs ''id'', get_string fs ''method'') else None
   | _ \<Rightarrow> None)"

section \<open>The client\<close>

datatype call_err = CtxDone string | ConnectionClosed string | ClientClosed | WriteFailed string | ServerError rpc_error

text \<open>A call waits on a channel with room for one response, which the read loop may close.\<close>

datatype call_state =
    Waiting string "response option" bool
  | Returned "call_err + json"

record rclient =
  rc_next :: int
  rc_pending :: "int list"
  rc_calls :: "int \<Rightarrow> call_state option"
  rc_closed :: bool
  rc_reading :: bool
  rc_stuck :: "int option"
  rc_events :: "event list"
  rc_lines :: "string list"

definition dialled :: rclient where
  "dialled = \<lparr>rc_next = 0, rc_pending = [], rc_calls = Map.empty, rc_closed = False, rc_reading = True, rc_stuck = None,
     rc_events = [], rc_lines = []\<rparr>"

definition event_buffer :: nat where
  "event_buffer = 256"

text \<open>\<open>Call\<close> up to the write: the next id, and an entry in the table unless the client is closed.\<close>

definition start_call :: "string \<Rightarrow> rclient \<Rightarrow> rclient" where
  "start_call m q = (let i = rc_next q + 1 in
     if rc_closed q then q\<lparr>rc_next := i, rc_calls := (rc_calls q)(i \<mapsto> Returned (Inl ClientClosed))\<rparr>
     else q\<lparr>rc_next := i, rc_pending := i # rc_pending q, rc_calls := (rc_calls q)(i \<mapsto> Waiting m None False)\<rparr>)"

definition leave_call :: "int \<Rightarrow> call_err + json \<Rightarrow> rclient \<Rightarrow> rclient" where
  "leave_call i out q = q\<lparr>rc_pending := removeAll i (rc_pending q), rc_calls := (rc_calls q)(i \<mapsto> Returned out)\<rparr>"

definition outcome_of :: "response \<Rightarrow> call_err + json" where
  "outcome_of r = (case rs_error r of Some e \<Rightarrow> Inl (ServerError e)
     | None \<Rightarrow> Inr (case rs_result r of None \<Rightarrow> JNull | Some v \<Rightarrow> v))"

text \<open>The channel receive; taking the buffered response also frees a read loop blocked on this channel.\<close>

definition take_response :: "int \<Rightarrow> rclient \<Rightarrow> rclient option" where
  "take_response i q = (case rc_calls q i of
     Some (Waiting m (Some r) cl) \<Rightarrow> Some ((leave_call i (outcome_of r) q)
       \<lparr>rc_stuck := (if rc_stuck q = Some i then None else rc_stuck q)\<rparr>)
   | Some (Waiting m None True) \<Rightarrow> Some (leave_call i (Inl (ConnectionClosed m)) q)
   | _ \<Rightarrow> None)"

text \<open>One line in the read loop.\<close>

definition deliver :: "int \<Rightarrow> response \<Rightarrow> rclient \<Rightarrow> rclient" where
  "deliver i r q = (case rc_calls q i of
     Some (Waiting m None cl) \<Rightarrow> q\<lparr>rc_calls := (rc_calls q)(i \<mapsto> Waiting m (Some r) cl)\<rparr>
   | _ \<Rightarrow> q\<lparr>rc_stuck := Some i\<rparr>)"

definition read_line :: "(json \<Rightarrow> json) \<Rightarrow> string \<Rightarrow> rclient \<Rightarrow> rclient" where
  "read_line num line q0 = (let q = q0\<lparr>rc_lines := rc_lines q0 @ [line]\<rparr> in
     if line = '''' then q
     else (case decode_probe line of
         None \<Rightarrow> q
       | Some (pid, m) \<Rightarrow>
           if m = ''event'' then (case decode_event num line of
               None \<Rightarrow> q
             | Some ev \<Rightarrow> if length (rc_events q) < event_buffer then q\<lparr>rc_events := rc_events q @ [ev]\<rparr> else q)
           else (case pid of
               None \<Rightarrow> q
             | Some v \<Rightarrow> (case decode_response num line of
                 None \<Rightarrow> q
               | Some r \<Rightarrow> (case v of
                   JInt i \<Rightarrow> if i \<in> set (rc_pending q) then deliver i r q else q
                 | _ \<Rightarrow> q)))))"

text \<open>The reader's end fails every pending call and closes the events.\<close>

definition end_reading :: "rclient \<Rightarrow> rclient" where
  "end_reading q = q\<lparr>rc_closed := True, rc_reading := False, rc_pending := [],
     rc_calls := (\<lambda>i. case rc_calls q i of
         Some (Waiting m b cl) \<Rightarrow> Some (Waiting m b (cl \<or> i \<in> set (rc_pending q)))
       | st \<Rightarrow> st)\<rparr>"

text \<open>The goroutines of one client: callers, the read loop, and whoever consumes events or closes it.\<close>

inductive client_step :: "(json \<Rightarrow> json) \<Rightarrow> rclient \<Rightarrow> rclient \<Rightarrow> bool" for num where
  starts: "client_step num q (start_call m q)"
| write_fails: "rc_calls q i = Some (Waiting m b cl) \<Longrightarrow> client_step num q (leave_call i (Inl (WriteFailed t)) q)"
| gives_up: "rc_calls q i = Some (Waiting m b cl) \<Longrightarrow> client_step num q (leave_call i (Inl (CtxDone t)) q)"
| takes: "take_response i q = Some q' \<Longrightarrow> client_step num q q'"
| reads: "rc_reading q \<Longrightarrow> rc_stuck q = None \<Longrightarrow> client_step num q (read_line num line q)"
| ends: "rc_reading q \<Longrightarrow> rc_stuck q = None \<Longrightarrow> client_step num q (end_reading q)"
| closes: "client_step num q (q\<lparr>rc_closed := True\<rparr>)"
| consumes: "rc_events q = ev # evs \<Longrightarrow> client_step num q (q\<lparr>rc_events := evs\<rparr>)"

inductive client_reach :: "(json \<Rightarrow> json) \<Rightarrow> rclient \<Rightarrow> bool" for num where
  dial: "client_reach num dialled"
| more: "client_reach num q \<Longrightarrow> client_step num q q' \<Longrightarrow> client_reach num q'"

end
