(* ===== verification/Go_Duration.thy ===== *)
theory Go_Duration
  imports Json_Wire
begin

text \<open>
  Go's \<open>time.Duration\<close> in nanoseconds: \<open>String\<close> and \<open>ParseDuration\<close>, which the commands hand durations
  through as flags. The one floating-point product of the parser, the part of a unit that a decimal fraction
  makes, is a parameter; \<open>exact_fractions\<close> says it is exact where \<open>float64\<close> is.
\<close>

section \<open>Printing\<close>

text \<open>\<open>fmtFrac\<close>: the decimals of a value without trailing zeros, and the value above them.\<close>

fun fmt_frac :: "nat \<Rightarrow> nat \<Rightarrow> string \<Rightarrow> string \<times> nat" where
  "fmt_frac 0 v acc = (if acc = [] then [] else CHR ''.'' # acc, v)"
| "fmt_frac (Suc n) v acc =
     fmt_frac n (v div 10) (if acc \<noteq> [] \<or> v mod 10 \<noteq> 0 then char_of (48 + v mod 10) # acc else [])"

definition with_frac :: "nat \<Rightarrow> nat \<Rightarrow> (nat \<Rightarrow> string) \<Rightarrow> string \<Rightarrow> string" where
  "with_frac prec v whole unit = (case fmt_frac prec v [] of (frac, w) \<Rightarrow> whole w @ frac @ unit)"

definition micro :: string where
  "micro = [CHR 0xC2, CHR 0xB5, CHR ''s'']"

definition hms_prefix :: "nat \<Rightarrow> string" where
  "hms_prefix secs = (let m = secs div 60; h = m div 60 in
     (if h > 0 then dec_nat h @ ''h'' else '''') @ (if m > 0 then dec_nat (m mod 60) @ ''m'' else ''''))"

definition duration_nat :: "nat \<Rightarrow> string" where
  "duration_nat u = (if u = 0 then ''0s''
     else if u < 1000 then dec_nat u @ ''ns''
     else if u < 1000000 then with_frac 3 u dec_nat micro
     else if u < 1000000000 then with_frac 6 u dec_nat ''ms''
     else hms_prefix (u div 1000000000) @ with_frac 9 u (\<lambda>w. dec_nat (w mod 60)) ''s'')"

definition duration_string :: "int \<Rightarrow> string" where
  "duration_string d = (if d < 0 then CHR ''-'' # duration_nat (nat (- d)) else duration_nat (nat d))"

section \<open>Parsing\<close>

definition frac_step :: "char \<Rightarrow> nat \<times> nat \<times> bool \<Rightarrow> nat \<times> nat \<times> bool" where
  "frac_step c st = (case st of (x, scale, over) \<Rightarrow>
     if over \<or> x > (2 ^ 63 - 1) div 10 then (x, scale, True)
     else (let y = x * 10 + (byte_of c - 48) in if y > 2 ^ 63 then (x, scale, True) else (y, scale * 10, False)))"

definition leading_fraction :: "string \<Rightarrow> nat \<times> nat" where
  "leading_fraction ds = (case fold frac_step ds (0, 1, False) of (x, scale, over) \<Rightarrow> (x, scale))"

definition unit_map :: "string \<Rightarrow> nat option" where
  "unit_map = map_of [(''ns'', 1), (micro, 1000), ([CHR 0xCE, CHR 0xBC, CHR ''s''], 1000), (''ms'', 1000000),
     (''s'', 1000000000), (''m'', 60000000000), (''h'', 3600000000000)]"

type_synonym fractions = "nat \<Rightarrow> nat \<Rightarrow> nat \<Rightarrow> nat"

text \<open>A number, its fraction and its unit, up to the next digit or point.\<close>

definition term_value :: "fractions \<Rightarrow> nat \<Rightarrow> string \<Rightarrow> string \<Rightarrow> nat option" where
  "term_value fr v fp u = (case unit_map u of
     None \<Rightarrow> None
   | Some un \<Rightarrow> if v > 2 ^ 63 div un then None
       else (case leading_fraction fp of (f, scale) \<Rightarrow>
         if f > 0 then (let w = v * un + fr f un scale in if w > 2 ^ 63 then None else Some w) else Some (v * un)))"

definition parse_term :: "fractions \<Rightarrow> string \<Rightarrow> (nat \<times> string) option" where
  "parse_term fr s = (let ip = takeWhile is_json_digit s; s1 = dropWhile is_json_digit s; v = nat_of_digits 0 ip;
       point = (take 1 s1 = ''.'');
       fp = (if point then takeWhile is_json_digit (drop 1 s1) else '''');
       s2 = (if point then dropWhile is_json_digit (drop 1 s1) else s1);
       u = takeWhile (\<lambda>c. c \<noteq> CHR ''.'' \<and> \<not> is_json_digit c) s2; rest = drop (length u) s2 in
     if v > 2 ^ 63 \<or> ip = [] \<and> fp = [] \<or> u = [] then None
     else map_option (\<lambda>w. (w, rest)) (term_value fr v fp u))"

lemma drop_len_takeWhile: "drop (length (takeWhile P s)) s = dropWhile P s"
  by (induction s) auto

lemma parse_term_shrinks: "parse_term fr s = Some (w, rest) \<Longrightarrow> length rest < length s"
proof -
  assume a: "parse_term fr s = Some (w, rest)"
  define s1 where "s1 = dropWhile is_json_digit s"
  define s2 where "s2 = (if take 1 s1 = ''.'' then dropWhile is_json_digit (drop 1 s1) else s1)"
  define u where "u = takeWhile (\<lambda>c. c \<noteq> CHR ''.'' \<and> \<not> is_json_digit c) s2"
  have "u \<noteq> [] \<and> rest = drop (length u) s2"
    using a unfolding parse_term_def Let_def s1_def [symmetric] s2_def [symmetric] u_def [symmetric]
    by (simp del: split_paired_Ex split: if_split_asm) 
  moreover have "length s2 \<le> length s"
    unfolding s2_def s1_def using length_dropWhile_le [of is_json_digit s]
      length_dropWhile_le [of is_json_digit "drop 1 (dropWhile is_json_digit s)"] by (auto simp del: length_dropWhile_le)
  moreover have "length u \<le> length s2" unfolding u_def by (rule length_takeWhile_le)
  ultimately show "length rest < length s" by (cases u) auto
qed

function parse_terms :: "fractions \<Rightarrow> nat \<Rightarrow> string \<Rightarrow> nat option" where
  "parse_terms fr d s = (if s = [] then Some d
     else (case parse_term fr s of
         None \<Rightarrow> None
       | Some (v, rest) \<Rightarrow> (let d' = (d + v) mod 2 ^ 64 in if d' > 2 ^ 63 then None else parse_terms fr d' rest)))"
  by pat_completeness auto
termination by (relation "measure (\<lambda>(fr, d, s). length s)") (auto dest: parse_term_shrinks)

declare parse_terms.simps [simp del]

definition parse_duration :: "fractions \<Rightarrow> string \<Rightarrow> int option" where
  "parse_duration fr s0 = (let signed = (s0 \<noteq> [] \<and> hd s0 \<in> {CHR ''-'', CHR ''+''}); neg = (take 1 s0 = ''-'');
       s = (if signed then tl s0 else s0) in
     if s = ''0'' then Some 0
     else if s = [] then None
     else (case parse_terms fr 0 s of
         None \<Rightarrow> None
       | Some d \<Rightarrow> if neg then Some (- int d) else if d > 2 ^ 63 - 1 then None else Some (int d)))"

definition exact_fractions :: "fractions \<Rightarrow> bool" where
  "exact_fractions fr \<longleftrightarrow> (\<forall>f un scale. scale dvd un \<longrightarrow> f < scale \<longrightarrow> scale \<le> 10 ^ 9 \<longrightarrow> fr f un scale = f * (un div scale))"

section \<open>What is printed reads back\<close>

lemma nat_of_digits_acc: "nat_of_digits acc s = acc * 10 ^ length s + nat_of_digits 0 s"
proof (induction s arbitrary: acc)
  case (Cons c s)
  show ?case using Cons [of "acc * 10 + (byte_of c - 48)"] Cons [of "byte_of c - 48"] by (simp add: algebra_simps)
qed simp

lemma digit_small: "is_json_digit c \<Longrightarrow> byte_of c - 48 \<le> 9"
  by (auto simp: is_json_digit_def)

lemma digits_bound: "list_all is_json_digit ds \<Longrightarrow> nat_of_digits 0 ds < 10 ^ length ds"
proof (induction ds rule: rev_induct)
  case (snoc c ds)
  then have "byte_of c - 48 \<le> 9" by (simp add: digit_small)
  with snoc show ?case by (simp add: nat_of_digits_append)
qed simp

lemma digit_char: "n < 10 \<Longrightarrow> is_json_digit (char_of (48 + n))" "n < 10 \<Longrightarrow> byte_of (char_of (48 + n)) - 48 = n"
  by (simp_all add: is_json_digit_def byte_of_def)

lemma fmt_frac_open:
  assumes "acc \<noteq> []" and "list_all is_json_digit acc"
  shows "\<exists>ds. fmt_frac n v acc = (CHR ''.'' # ds, v div 10 ^ n) \<and> list_all is_json_digit ds \<and> length ds = n + length acc
    \<and> nat_of_digits 0 ds = v mod 10 ^ n * 10 ^ length acc + nat_of_digits 0 acc"
  using assms
proof (induction n arbitrary: v acc)
  case (Suc n)
  let ?c = "char_of (48 + v mod 10) :: char"
  have d: "is_json_digit ?c" "byte_of ?c - 48 = v mod 10" using digit_char [of "v mod 10"] by auto
  have "nat_of_digits 0 (?c # acc) = v mod 10 * 10 ^ length acc + nat_of_digits 0 acc"
    using d(2) nat_of_digits_acc [of "v mod 10" acc] by simp
  moreover obtain ds where ds: "fmt_frac n (v div 10) (?c # acc) = (CHR ''.'' # ds, v div 10 div 10 ^ n)" "list_all is_json_digit ds"
    "length ds = Suc (n + length acc)" "nat_of_digits 0 ds = v div 10 mod 10 ^ n * 10 ^ Suc (length acc) + nat_of_digits 0 (?c # acc)"
    using Suc.IH [of "?c # acc" "v div 10"] Suc.prems(2) d(1) by auto
  moreover have "v mod 10 ^ Suc n = v div 10 mod 10 ^ n * 10 + v mod 10"
    using mod_mult2_eq [of v 10 "10 ^ n"] by simp
  ultimately have "nat_of_digits 0 ds = v mod 10 ^ Suc n * 10 ^ length acc + nat_of_digits 0 acc"
    by (simp add: algebra_simps)
  with ds Suc.prems show ?case by (auto simp: div_mult2_eq)
qed simp

lemma fmt_frac_spec:
  "\<exists>ds. fmt_frac n v [] = (if ds = [] then [] else CHR ''.'' # ds, v div 10 ^ n) \<and> list_all is_json_digit ds \<and> length ds \<le> n
    \<and> nat_of_digits 0 ds * 10 ^ (n - length ds) = v mod 10 ^ n"
proof (induction n arbitrary: v)
  case 0
  show ?case by (intro exI [of _ "[]"]) simp
next
  case (Suc n)
  have m: "v mod 10 ^ Suc n = v div 10 mod 10 ^ n * 10 + v mod 10" using mod_mult2_eq [of v 10 "10 ^ n"] by simp
  show ?case
  proof (cases "v mod 10 = 0")
    case True
    then obtain ds where ds: "fmt_frac n (v div 10) [] = (if ds = [] then [] else CHR ''.'' # ds, v div 10 div 10 ^ n)"
      "list_all is_json_digit ds" "length ds \<le> n" "nat_of_digits 0 ds * 10 ^ (n - length ds) = v div 10 mod 10 ^ n"
      using Suc.IH [of "v div 10"] by blast
    have "nat_of_digits 0 ds * 10 ^ (Suc n - length ds) = v div 10 mod 10 ^ n * 10"
      using ds(3) by (simp add: Suc_diff_le flip: ds(4))
    with True ds m show ?thesis by (intro exI [of _ ds]) (simp add: div_mult2_eq)
  next
    case False
    let ?c = "char_of (48 + v mod 10) :: char"
    have d: "is_json_digit ?c" "byte_of ?c - 48 = v mod 10" using digit_char [of "v mod 10"] by auto
    then obtain ds where ds: "fmt_frac n (v div 10) [?c] = (CHR ''.'' # ds, v div 10 div 10 ^ n)" "list_all is_json_digit ds"
      "length ds = Suc n" "nat_of_digits 0 ds = v div 10 mod 10 ^ n * 10 + (byte_of ?c - 48)"
      using fmt_frac_open [of "[?c]" n "v div 10"] by auto
    then show ?thesis using False m d by (intro exI [of _ ds]) (auto simp: div_mult2_eq)
  qed
qed

lemma leading_fraction_short:
  assumes "length ds \<le> 9" "list_all is_json_digit ds"
  shows "leading_fraction ds = (nat_of_digits 0 ds, 10 ^ length ds)"
proof -
  have "fold frac_step ds (0, 1, False) = (nat_of_digits 0 ds, 10 ^ length ds, False)"
    using assms
  proof (induction ds rule: rev_induct)
    case (snoc c ds)
    have "nat_of_digits 0 ds < 10 ^ 8 * 10"
      using snoc.prems digits_bound [of ds] power_increasing [of "length ds" 8 "10 :: nat"] by simp
    moreover have "byte_of c - 48 < 10" using snoc.prems digit_small [of c] by simp
    ultimately show ?case using snoc by (simp add: frac_step_def Let_def nat_of_digits_append)
  qed simp
  then show ?thesis by (simp add: leading_fraction_def)
qed

definition unit_name :: "string \<Rightarrow> bool" where
  "unit_name u \<longleftrightarrow> u \<noteq> [] \<and> list_all (\<lambda>c. c \<noteq> CHR ''.'' \<and> \<not> is_json_digit c) u"

lemma unit_names [simp]: "unit_name ''ns''" "unit_name micro" "unit_name ''ms''" "unit_name ''s''" "unit_name ''m''" "unit_name ''h''"
  by (simp_all add: unit_name_def micro_def is_json_digit_def byte_of_def)

lemma unit_values [simp]: "unit_map ''ns'' = Some 1" "unit_map micro = Some 1000" "unit_map ''ms'' = Some 1000000"
  "unit_map ''s'' = Some 1000000000" "unit_map ''m'' = Some 60000000000" "unit_map ''h'' = Some 3600000000000"
  by (simp_all add: unit_map_def micro_def)

lemma takeWhile_split: "list_all P a \<Longrightarrow> b = [] \<or> \<not> P (hd b) \<Longrightarrow> takeWhile P (a @ b) = a \<and> dropWhile P (a @ b) = b"
  by (induction a) (auto simp: takeWhile_eq_Nil_iff, (cases b; simp)+)

lemma parse_term_printed:
  assumes "unit_name u" and "rest = [] \<or> is_json_digit (hd rest)" and "list_all is_json_digit ds" and "w \<le> 2 ^ 63"
  shows "parse_term fr (dec_nat w @ (if ds = [] then [] else CHR ''.'' # ds) @ u @ rest)
    = map_option (\<lambda>x. (x, rest)) (term_value fr w ds u)"
proof -
  let ?tail = "(if ds = [] then [] else CHR ''.'' # ds) @ u @ rest"
  note dn = dec_nat_digits [of w]
  have dot: "\<not> is_json_digit (CHR ''.'')" by (simp add: is_json_digit_def byte_of_def)
  obtain c cs where u: "u = c # cs" "c \<noteq> CHR ''.''" "\<not> is_json_digit c" using assms(1) by (cases u) (auto simp: unit_name_def)
  have a: "takeWhile is_json_digit (dec_nat w @ ?tail) = dec_nat w \<and> dropWhile is_json_digit (dec_nat w @ ?tail) = ?tail"
    using dn dot u by (intro takeWhile_split) auto
  have b: "takeWhile is_json_digit (ds @ u @ rest) = ds \<and> dropWhile is_json_digit (ds @ u @ rest) = u @ rest"
    using assms(3) u by (intro takeWhile_split) auto
  have c: "takeWhile (\<lambda>c. c \<noteq> CHR ''.'' \<and> \<not> is_json_digit c) (u @ rest) = u"
    using takeWhile_split [of "\<lambda>c. c \<noteq> CHR ''.'' \<and> \<not> is_json_digit c" u rest] assms(1,2) by (auto simp: unit_name_def)
  show ?thesis
  proof (cases "ds = []")
    case True
    then show ?thesis using a c u dn assms(4) nat_of_dec_nat [of w] by (simp add: parse_term_def Let_def)
  next
    case False
    then show ?thesis using a b c u dn assms(4) nat_of_dec_nat [of w] by (simp add: parse_term_def Let_def)
  qed
qed

lemma term_value_exact:
  assumes "exact_fractions fr" "unit_map u = Some un" "10 ^ length ds dvd un" "length ds \<le> 9" "list_all is_json_digit ds"
    "w * un + nat_of_digits 0 ds * (un div 10 ^ length ds) \<le> 2 ^ 63" "0 < un"
  shows "term_value fr w ds u = Some (w * un + nat_of_digits 0 ds * (un div 10 ^ length ds))"
proof -
  have "w * un \<le> 2 ^ 63" using assms(6) by linarith
  then have "w \<le> 2 ^ 63 div un" using assms(7) by (simp add: less_eq_div_iff_mult_less_eq)
  moreover have "fr (nat_of_digits 0 ds) un (10 ^ length ds) = nat_of_digits 0 ds * (un div 10 ^ length ds)"
    using assms(1,3,4) digits_bound [OF assms(5)] power_increasing [OF assms(4), of "10 :: nat"] by (simp add: exact_fractions_def)
  ultimately show ?thesis using assms(2,6) leading_fraction_short [OF assms(4,5)] by (auto simp: term_value_def Let_def)
qed

lemma parse_terms_printed:
  assumes "unit_name u" and "rest = [] \<or> is_json_digit (hd rest)" and "list_all is_json_digit ds" and "w \<le> 2 ^ 63"
    and "term_value fr w ds u = Some x" and "d + x \<le> 2 ^ 63"
  shows "parse_terms fr d (dec_nat w @ (if ds = [] then [] else CHR ''.'' # ds) @ u @ rest) = parse_terms fr (d + x) rest"
proof -
  have "dec_nat w \<noteq> []" using dec_nat_digits by blast
  moreover have "(d + x) mod 2 ^ 64 = d + x" using assms(6) by simp
  ultimately show ?thesis using parse_term_printed [OF assms(1-4), of fr] assms(5,6)
    by (subst parse_terms.simps) (simp add: Let_def)
qed

lemma parse_terms_whole:
  assumes "exact_fractions fr" "unit_name u" "unit_map u = Some un" "0 < un" "rest = [] \<or> is_json_digit (hd rest)"
    "d + w * un \<le> 2 ^ 63"
  shows "parse_terms fr d (dec_nat w @ u @ rest) = parse_terms fr (d + w * un) rest"
proof -
  have "w * 1 \<le> w * un" using assms(4) by (intro mult_le_mono) auto
  then have "w \<le> 2 ^ 63" using assms(6) by linarith
  moreover have "term_value fr w [] u = Some (w * un)"
    using term_value_exact [of fr u un "[]" w] assms by simp
  ultimately show ?thesis using parse_terms_printed [of u rest "[]" w fr "w * un" d] assms by simp
qed

lemma parse_with_frac:
  assumes "exact_fractions fr" "unit_name u" "unit_map u = Some (10 ^ p)" "p \<le> 9"
    "d + g (v div 10 ^ p) * 10 ^ p + v mod 10 ^ p \<le> 2 ^ 63"
  shows "parse_terms fr d (with_frac p v (\<lambda>w. dec_nat (g w)) u) = Some (d + g (v div 10 ^ p) * 10 ^ p + v mod 10 ^ p)"
proof -
  let ?w = "g (v div 10 ^ p)"
  obtain ds where ds: "fmt_frac p v [] = (if ds = [] then [] else CHR ''.'' # ds, v div 10 ^ p)" "list_all is_json_digit ds"
    "length ds \<le> p" "nat_of_digits 0 ds * 10 ^ (p - length ds) = v mod 10 ^ p"
    using fmt_frac_spec [of p v] by blast
  have un: "10 ^ p div 10 ^ length ds = (10 ^ (p - length ds) :: nat)" "10 ^ length ds dvd (10 ^ p :: nat)"
    using ds(3) by (simp_all add: power_diff le_imp_power_dvd)
  have "?w * 1 \<le> ?w * 10 ^ p" by (intro mult_le_mono) auto
  then have "?w \<le> 2 ^ 63" using assms(5) by linarith
  moreover have "term_value fr ?w ds u = Some (?w * 10 ^ p + v mod 10 ^ p)"
    using term_value_exact [OF assms(1,3), of ds ?w] un ds assms(4,5) by simp
  ultimately have "parse_terms fr d (dec_nat ?w @ (if ds = [] then [] else CHR ''.'' # ds) @ u @ []) = parse_terms fr (d + (?w * 10 ^ p + v mod 10 ^ p)) []"
    using parse_terms_printed [of u "[]" ds ?w fr "?w * 10 ^ p + v mod 10 ^ p" d] ds assms by simp
  then show ?thesis using ds(1) by (simp add: with_frac_def parse_terms.simps [of fr _ "[]"] add.assoc)
qed

lemma dec_nat_cons: "is_json_digit (hd (dec_nat n @ t))" "dec_nat n @ t \<noteq> []"
  using dec_nat_digits [of n] by (cases "dec_nat n"; simp)+

lemma with_frac_head: "is_json_digit (hd (with_frac p v (\<lambda>w. dec_nat (g w)) u)) \<and> with_frac p v (\<lambda>w. dec_nat (g w)) u \<noteq> []"
  using dec_nat_cons by (simp add: with_frac_def split: prod.split)

lemma hms_value:
  fixes u :: nat
  defines "secs \<equiv> u div 1000000000"
  shows "secs div 60 div 60 * 3600000000000 + secs div 60 mod 60 * 60000000000 + secs mod 60 * 1000000000 + u mod 1000000000 = u"
proof -
  have a: "secs div 60 = 60 * (secs div 60 div 60) + secs div 60 mod 60" by simp
  have b: "secs = 60 * (secs div 60) + secs mod 60" by simp
  have c: "u = 1000000000 * secs + u mod 1000000000" by (simp add: secs_def)
  show ?thesis using a b c by linarith
qed

lemma duration_nat_parses:
  assumes "exact_fractions fr" "u \<le> 2 ^ 63"
  shows "parse_terms fr 0 (duration_nat u) = Some u \<and> is_json_digit (hd (duration_nat u)) \<and> duration_nat u \<noteq> []"
proof -
  consider "u = 0" | "0 < u" "u < 1000" | "1000 \<le> u" "u < 1000000" | "1000000 \<le> u" "u < 1000000000" | "1000000000 \<le> u" by linarith
  then show ?thesis
  proof cases
    case 1
    have "dec_nat 0 @ ''s'' = ''0s''" by (simp add: dec_nat.simps, code_simp)
    then show ?thesis using 1 parse_terms_whole [OF assms(1), of "''s''" 1000000000 "[]" 0 0] dec_nat_cons [of 0 "''s''"]
      by (simp add: duration_nat_def parse_terms.simps [of fr 0 "[]"])
  next
    case 2
    then show ?thesis using parse_terms_whole [OF assms(1), of "''ns''" 1 "[]" 0 u] assms(2) dec_nat_cons [of u "''ns''"]
      by (simp add: duration_nat_def parse_terms.simps [of fr u "[]"])
  next
    case 3
    have "duration_nat u = with_frac 3 u (\<lambda>w. dec_nat w) micro" using 3 by (simp add: duration_nat_def)
    then show ?thesis using parse_with_frac [OF assms(1), of micro 3 0 "\<lambda>w. w" u] assms(2) with_frac_head [of 3 u "\<lambda>w. w" micro]
      by simp
  next
    case 4
    have "duration_nat u = with_frac 6 u (\<lambda>w. dec_nat w) ''ms''" using 4 by (simp add: duration_nat_def)
    then show ?thesis using parse_with_frac [OF assms(1), of "''ms''" 6 0 "\<lambda>w. w" u] assms(2) with_frac_head [of 6 u "\<lambda>w. w" "''ms''"]
      by simp
  next
    case 5
    define secs where "secs = u div 1000000000"
    let ?tail = "with_frac 9 u (\<lambda>w. dec_nat (w mod 60)) ''s''"
    have eq: "duration_nat u = hms_prefix secs @ ?tail" using 5 by (simp add: duration_nat_def secs_def)
    have val: "secs div 60 div 60 * 3600000000000 + secs div 60 mod 60 * 60000000000 + secs mod 60 * 1000000000 + u mod 1000000000 = u"
      unfolding secs_def by (rule hms_value)
    have tail: "parse_terms fr d ?tail = Some (d + secs mod 60 * 1000000000 + u mod 1000000000)"
      if "d + secs mod 60 * 1000000000 + u mod 1000000000 \<le> 2 ^ 63" for d
      using parse_with_frac [OF assms(1), of "''s''" 9 d "\<lambda>w. w mod 60" u] that by (simp add: secs_def)
    note head = with_frac_head [of 9 u "\<lambda>w. w mod 60" "''s''"]
    let ?h = "secs div 60 div 60" and ?m = "secs div 60"
    have mins: "parse_terms fr d (dec_nat (?m mod 60) @ ''m'' @ ?tail) = Some u" if "d = ?h * 3600000000000" for d
      using parse_terms_whole [OF assms(1), of "''m''" 60000000000 ?tail d "?m mod 60"] tail [of "d + ?m mod 60 * 60000000000"]
        head val assms(2) that by simp
    show ?thesis
    proof (cases "?h > 0")
      case True
      then have m: "?m > 0" by (cases "?m = 0") auto
      have "parse_terms fr 0 (dec_nat ?h @ ''h'' @ dec_nat (?m mod 60) @ ''m'' @ ?tail) = Some u"
        using parse_terms_whole [OF assms(1), of "''h''" 3600000000000 "dec_nat (?m mod 60) @ ''m'' @ ?tail" 0 ?h] mins
          dec_nat_cons [of "?m mod 60" "''m'' @ ?tail"] val assms(2) by simp
      then show ?thesis using True m dec_nat_cons [of ?h "''h'' @ dec_nat (?m mod 60) @ ''m'' @ ?tail"]
        by (simp add: eq hms_prefix_def Let_def)
    next
      case False
      then show ?thesis using mins [of 0] tail [of 0] head val assms(2) dec_nat_cons [of "?m mod 60" "''m'' @ ?tail"]
        by (cases "?m > 0") (simp_all add: eq hms_prefix_def Let_def)
    qed
  qed
qed

lemma duration_roundtrip:
  assumes "exact_fractions fr" "- (2 ^ 63) \<le> d" "d < 2 ^ 63"
  shows "parse_duration fr (duration_string d) = Some d"
proof -
  have zero: "parse_terms fr 0 ''0'' = None"
    by (simp add: parse_terms.simps [of fr 0 "''0''"] parse_term_def is_json_digit_def byte_of_def)
  have no_sign: "c \<noteq> CHR ''-'' \<and> c \<noteq> CHR ''+''" if "is_json_digit c" for c using that by (auto simp: is_json_digit_def byte_of_def)
  note read = duration_nat_parses [OF assms(1)]
  show ?thesis
  proof (cases "d < 0")
    case True
    then have u: "nat (- d) \<le> 2 ^ 63" using assms(2) by (simp add: nat_le_iff)
    have "duration_nat (nat (- d)) \<noteq> ''0''" using zero read [OF u] by auto
    then show ?thesis using read [OF u] True by (simp add: duration_string_def parse_duration_def)
  next
    case False
    then have u: "nat d < 2 ^ 63" using assms(3) by (simp add: nat_less_iff)
    then have v: "nat d \<le> 2 ^ 63" by simp
    have "duration_nat (nat d) \<noteq> ''0''" using zero read [OF v] by auto
    moreover have "hd (duration_nat (nat d)) \<noteq> CHR ''-'' \<and> hd (duration_nat (nat d)) \<noteq> CHR ''+''" using no_sign read [OF v] by blast
    ultimately show ?thesis using read [OF v] u False
      by (cases "duration_nat (nat d)") (auto simp: duration_string_def parse_duration_def Let_def)
  qed
qed

end
