(* ===== verification/Daemon_Control.thy ===== *)
theory Daemon_Control
  imports Paths Rpc_Client Go_Duration
begin

text \<open>
  \<open>internal/daemonctl/daemonctl.go\<close>: starting the daemon on demand. Times are nanoseconds. What the process
  meets is a record: the clock as it is read, whether the context is done, what answers on the socket and
  whether the child was reaped, each at its \<open>k\<close>-th look.
\<close>

record start_opts =
  so_log_level :: string
  so_offline :: bool
  so_timeout :: int
  so_idle_exit :: int

text \<open>A probe of the socket: \<open>Dial\<close> fails, or a ping is answered.\<close>

record start_env = path_env +
  se_probe :: "nat \<Rightarrow> string + (call_err + json)"
  se_stat :: "string \<Rightarrow> string option"
  se_exe :: "string + string"
  se_open_log :: "string \<Rightarrow> string option"
  se_start :: "string \<Rightarrow> string list \<Rightarrow> string option"
  se_now :: "nat \<Rightarrow> int"
  se_ctx :: "nat \<Rightarrow> string option"
  se_exited :: "nat \<Rightarrow> bool"

section \<open>Is it alive\<close>

text \<open>The answer decoded into a struct with the field \<open>pong\<close>.\<close>

definition pong_of :: "json \<Rightarrow> bool" where
  "pong_of v = (case v of JObj fs \<Rightarrow> fields_ok [(''pong'', KBool)] fs \<and> get_bool fs ''pong'' | _ \<Rightarrow> False)"

definition alive :: "string + (call_err + json) \<Rightarrow> bool" where
  "alive probe = (case probe of Inr (Inr v) \<Rightarrow> pong_of v | _ \<Rightarrow> False)"

section \<open>Starting it\<close>

definition start_timeout :: "start_opts \<Rightarrow> int" where
  "start_timeout o1 = (if so_timeout o1 = 0 then 30 * 1000000000 else so_timeout o1)"

definition start_offline :: "'p start_env_scheme \<Rightarrow> layout \<Rightarrow> start_opts \<Rightarrow> bool" where
  "start_offline v l o1 = (so_offline o1 \<or> se_stat v (ly_session l) \<noteq> None)"

definition daemon_args :: "'p start_env_scheme \<Rightarrow> layout \<Rightarrow> start_opts \<Rightarrow> string list" where
  "daemon_args v l o1 =
     [''--store'', ly_root l, ''--log-level'', if so_log_level o1 = '''' then ''info'' else so_log_level o1, ''serve'', ''--auto'']
     @ (if start_offline v l o1 then [''--offline''] else [])
     @ (if so_idle_exit o1 > 0 then [''--idle-exit'', duration_string (so_idle_exit o1)] else [])"

text \<open>The polling loop at its \<open>k\<close>-th turn: \<open>None\<close> is out of fuel, otherwise the error it ends with, if any.\<close>

definition poll_interval :: int where
  "poll_interval = 150 * 1000000"

fun wait_ready :: "'p start_env_scheme \<Rightarrow> layout \<Rightarrow> start_opts \<Rightarrow> int \<Rightarrow> nat \<Rightarrow> nat \<Rightarrow> err option option" where
  "wait_ready v l o1 deadline 0 k = None"
| "wait_ready v l o1 deadline (Suc fuel) k =
     (if \<not> se_now v (Suc k) < deadline
        then Some (Some (Msg (''gmcli daemon did not come up within '' @ duration_string (start_timeout o1) @ ''; see '' @ daemon_log l)))
      else (case se_ctx v k of
          Some t \<Rightarrow> Some (Some (Driver t))
        | None \<Rightarrow>
            if alive (se_probe v (Suc k)) then Some None
            else if se_exited v k then Some (Some (Msg (''gmcli daemon exited during startup; see '' @ daemon_log l)))
            else wait_ready v l o1 deadline fuel (Suc k)))"

text \<open>What was started, and the outcome.\<close>

definition ensure_running :: "'p start_env_scheme \<Rightarrow> layout \<Rightarrow> start_opts \<Rightarrow> nat
    \<Rightarrow> ((string \<times> string list) option \<times> err option) option" where
  "ensure_running v l o1 fuel = (if alive (se_probe v 0) then Some (None, None)
     else (case se_exe v of
         Inl t \<Rightarrow> Some (None, Some (Wrap ''locate gmcli binary'' (Driver t)))
       | Inr exe \<Rightarrow> (case snd (ensure_dirs v l) of
           Some err \<Rightarrow> Some (None, Some err)
         | None \<Rightarrow> (case se_open_log v (daemon_log l) of
             Some t \<Rightarrow> Some (None, Some (Wrap ''open daemon log'' (Driver t)))
           | None \<Rightarrow> (case se_start v exe (daemon_args v l o1) of
               Some t \<Rightarrow> Some (None, Some (Wrap ''start gmcli daemon'' (Driver t)))
             | None \<Rightarrow> map_option (\<lambda>r. (Some (exe, daemon_args v l o1), r))
                 (wait_ready v l o1 (se_now v 0 + start_timeout o1) fuel 0))))))"

section \<open>The loop ends\<close>

text \<open>The clock does not go back, and \<open>Sleep\<close> takes at least the time asked for.\<close>

definition clock_ok :: "'p start_env_scheme \<Rightarrow> bool" where
  "clock_ok v \<longleftrightarrow> se_now v 0 \<le> se_now v 1 \<and> (\<forall>k. se_now v (Suc k) + poll_interval \<le> se_now v (Suc (Suc k)))"

definition poll_fuel :: "start_opts \<Rightarrow> nat" where
  "poll_fuel o1 = Suc (nat (start_timeout o1 div poll_interval + 1))"

interpretation ready: polling "wait_ready v l o1 deadline" "\<lambda>k. \<not> se_now v (Suc k) < deadline"
  for v :: "'p start_env_scheme" and l :: layout and o1 :: start_opts and deadline :: int
proof
  have "wait_ready v l o1 deadline fuel k = Some r \<Longrightarrow> wait_ready v l o1 deadline (fuel + n) k = Some r" for fuel k n r
  proof (induction fuel arbitrary: k)
    case (Suc fuel)
    then show ?case by (auto split: if_splits option.splits)
  qed simp
  from this [of _ _ _ 1] show "wait_ready v l o1 deadline fuel k = Some r \<Longrightarrow> wait_ready v l o1 deadline (Suc fuel) k = Some r" for fuel k r
    by simp
qed (auto split: if_splits option.splits)

lemma wait_ready_alive: "wait_ready v l o1 deadline fuel k = Some None \<Longrightarrow> \<exists>j \<ge> k. alive (se_probe v (Suc j))"
proof (induction fuel arbitrary: k)
  case (Suc fuel)
  then show ?case by (auto split: if_splits option.splits dest: Suc_leD)
qed simp

lemma ensure_returns:
  assumes "clock_ok v"
  shows "\<exists>r. \<forall>n. ensure_running v l o1 (poll_fuel o1 + n) = Some r"
proof -
  let ?dl = "se_now v 0 + start_timeout o1" and ?n = "nat (start_timeout o1 div poll_interval + 1)"
  have "start_timeout o1 \<le> (start_timeout o1 div poll_interval + 1) * poll_interval"
    using div_mult_mod_eq [of "start_timeout o1" poll_interval] pos_mod_bound [of poll_interval "start_timeout o1"]
    by (simp add: poll_interval_def algebra_simps)
  also have "\<dots> \<le> int ?n * poll_interval" by (intro mult_right_mono) (simp_all add: poll_interval_def)
  finally have "?dl - se_now v (Suc 0) \<le> int ?n * poll_interval" using assms by (simp add: clock_ok_def)
  then have "\<not> se_now v (Suc ?n) < ?dl" using assms by (intro ticking_late [where pause = poll_interval]) (auto simp: clock_ok_def)
  from ready.settles [OF this] obtain r where r: "\<And>n. wait_ready v l o1 ?dl (poll_fuel o1 + n) 0 = Some r"
    unfolding poll_fuel_def by blast
  show ?thesis unfolding ensure_running_def r by (simp split: sum.split option.split)
qed

text \<open>C30: \<open>EnsureRunning\<close> always returns: whatever the socket, the context and the child do, the loop takes at
  most one turn per 150 milliseconds of the start timeout, so that this fuel gives a result, and more gives
  the same.\<close>

theorem ensure_running_returns:
  assumes "clock_ok v"
  shows "\<exists>r. \<forall>n. ensure_running v l o1 (poll_fuel o1 + n) = Some r"
  by (rule ensure_returns [OF assms])

text \<open>C32: \<open>EnsureRunning\<close> reports success only when a daemon answered a ping; a daemon it started was started
  on this store, in automatic mode, so that its sends are queued for approval, offline when asked to or when
  no session is stored, and with the idle time asked for, as the daemon reads it back.\<close>

theorem ensure_running_starts:
  assumes "ensure_running v l o1 fuel = Some (started, None)"
  shows "(\<exists>k. alive (se_probe v k)) \<and> (started = None \<longleftrightarrow> alive (se_probe v 0))
    \<and> (\<forall>exe args. started = Some (exe, args) \<longrightarrow> se_exe v = Inr exe \<and> args = daemon_args v l o1
        \<and> take 2 args = [''--store'', ly_root l] \<and> (take 1 (drop 6 args) = [''--offline''] \<longleftrightarrow> so_offline o1 \<or> se_stat v (ly_session l) \<noteq> None)
        \<and> serve_mode u (serve_read_only (''--auto'' \<in> set (drop 4 args)) None) ''approve'' = Inr send_approve
        \<and> (exact_fractions fr \<longrightarrow> 0 < so_idle_exit o1 \<longrightarrow> so_idle_exit o1 < 2 ^ 63
            \<longrightarrow> (\<exists>t. drop (length args - 2) args = [''--idle-exit'', t] \<and> parse_duration fr t = Some (so_idle_exit o1))))"
proof (cases "alive (se_probe v 0)")
  case True
  then show ?thesis using assms by (auto simp: ensure_running_def)
next
  case False
  then obtain exe where e: "se_exe v = Inr exe" "started = Some (exe, daemon_args v l o1)"
    and w: "wait_ready v l o1 (se_now v 0 + start_timeout o1) fuel 0 = Some None"
    using assms by (auto simp: ensure_running_def split: sum.splits option.splits)
  have "parse_duration fr (duration_string (so_idle_exit o1)) = Some (so_idle_exit o1)"
    if "exact_fractions fr" "0 < so_idle_exit o1" "so_idle_exit o1 < 2 ^ 63"
    using that by (intro duration_roundtrip) auto
  then show ?thesis using wait_ready_alive [OF w] e False
    by (auto simp: daemon_args_def start_offline_def serve_mode_def serve_read_only_def)
qed

section \<open>Concrete runs\<close>

text \<open>A daemon that answers at the third look.\<close>

definition slow_start :: start_env where
  "slow_start = \<lparr>pe_xdg = '''', pe_home = Inr ''/home/me'', pe_cwd = Inr ''/'', pe_mkdir = (\<lambda>d. None),
     se_probe = (\<lambda>k. if k < 2 then Inl ''connection refused'' else Inr (Inr (JObj [(''pong'', JBool True)]))),
     se_stat = (\<lambda>f. None), se_exe = Inr ''/bin/gmcli'', se_open_log = (\<lambda>f. None), se_start = (\<lambda>x args. None),
     se_now = (\<lambda>k. int k * poll_interval), se_ctx = (\<lambda>k. None), se_exited = (\<lambda>k. False)\<rparr>"

definition idle_opts :: start_opts where
  "idle_opts = \<lparr>so_log_level = ''warn'', so_offline = False, so_timeout = 0, so_idle_exit = 90 * 1000000000\<rparr>"

lemma slow_start_alive: "alive (se_probe slow_start k) \<longleftrightarrow> 2 \<le> k"
  by (auto simp: slow_start_def alive_def pong_of_def fields_ok_def get_bool_def obj_values_def)

lemma slow_start_fields: "se_exe slow_start = Inr ''/bin/gmcli''" "se_open_log slow_start f = None" "se_start slow_start x args = None"
  "se_now slow_start k = int k * poll_interval" "se_ctx slow_start k = None" "\<not> se_exited slow_start k" "pe_mkdir slow_start p = None"
  by (simp_all add: slow_start_def)

lemma slow_start_run:
  "ensure_running slow_start (layout_at ''/s'') idle_opts 2
    = Some (Some (''/bin/gmcli'', daemon_args slow_start (layout_at ''/s'') idle_opts), None)"
proof -
  have "wait_ready slow_start (layout_at ''/s'') idle_opts 30000000000 2 0 = Some None"
    by (simp add: numeral_2_eq_2 slow_start_alive slow_start_fields poll_interval_def)
  moreover have "start_timeout idle_opts = 30000000000" by (simp add: idle_opts_def start_timeout_def)
  ultimately show ?thesis by (simp add: ensure_running_def ensure_dirs_def slow_start_alive slow_start_fields)
qed

theorem ensure_running_returns_witness:
  "\<exists>r. \<forall>n. ensure_running slow_start (layout_at ''/s'') idle_opts (poll_fuel idle_opts + n) = Some r"
  by (rule ensure_running_returns) (simp add: clock_ok_def slow_start_def algebra_simps poll_interval_def)

theorem ensure_running_starts_witness:
  "(\<exists>k. alive (se_probe slow_start k)) \<and> take 2 (daemon_args slow_start (layout_at ''/s'') idle_opts) = [''--store'', ''/s'']"
proof -
  have "ly_root (layout_at ''/s'') = ''/s''" by (simp add: layout_at_def)
  then show ?thesis using ensure_running_starts [OF slow_start_run] by metis
qed

end
