(* ===== verification/Rpc_Client_Facts.thy ===== *)
theory Rpc_Client_Facts
  imports Rpc_Client Rpc_Facts
begin

text \<open>
  What a client of the daemon can rely on: calls get their own answers, nobody waits for ever once the
  connection is gone, and a call against the daemon's server returns what \<open>dispatch\<close> returned.
\<close>

section \<open>The client's invariant\<close>

text \<open>A line that answers call \<open>i\<close> with response \<open>r\<close>.\<close>

definition answers_call :: "(json \<Rightarrow> json) \<Rightarrow> int \<Rightarrow> string \<Rightarrow> bool" where
  "answers_call num i line \<longleftrightarrow> (\<exists>m. decode_probe line = Some (Some (JInt i), m) \<and> m \<noteq> ''event'')"

definition came_for :: "(json \<Rightarrow> json) \<Rightarrow> string list \<Rightarrow> int \<Rightarrow> response \<Rightarrow> bool" where
  "came_for num lines i r \<longleftrightarrow> (\<exists>line \<in> set lines. answers_call num i line \<and> decode_response num line = Some r)"

fun call_ok :: "(json \<Rightarrow> json) \<Rightarrow> string list \<Rightarrow> int \<Rightarrow> call_state \<Rightarrow> bool" where
  "call_ok num lines i (Waiting m b cl) = (\<forall>r. b = Some r \<longrightarrow> came_for num lines i r)"
| "call_ok num lines i (Returned (Inr v)) = (\<exists>r. came_for num lines i r \<and> rs_error r = None \<and> v = (case rs_result r of None \<Rightarrow> JNull | Some x \<Rightarrow> x))"
| "call_ok num lines i (Returned (Inl (ServerError e))) = (\<exists>r. came_for num lines i r \<and> rs_error r = Some e)"
| "call_ok num lines i (Returned (Inl e)) = True"

definition client_inv :: "(json \<Rightarrow> json) \<Rightarrow> rclient \<Rightarrow> bool" where
  "client_inv num q \<longleftrightarrow> 0 \<le> rc_next q
     \<and> (\<forall>i st. rc_calls q i = Some st \<longrightarrow> 1 \<le> i \<and> i \<le> rc_next q \<and> call_ok num (rc_lines q) i st)
     \<and> (\<forall>i. i \<in> set (rc_pending q) \<longleftrightarrow> (\<exists>m b. rc_calls q i = Some (Waiting m b False)))
     \<and> (\<not> rc_reading q \<longrightarrow> rc_closed q \<and> rc_pending q = [])
     \<and> (\<forall>i. rc_stuck q = Some i \<longrightarrow> 2 \<le> length (filter (answers_call num i) (rc_lines q)))"

lemma came_for_more: "came_for num lines i r \<Longrightarrow> came_for num (lines @ [l]) i r"
  by (auto simp: came_for_def)

lemma call_ok_more: "call_ok num lines i st \<Longrightarrow> call_ok num (lines @ [l]) i st"
  by (cases "(num, lines, i, st)" rule: call_ok.cases) (auto dest: came_for_more)

lemma leave_inv:
  assumes "client_inv num q" and "rc_calls q i = Some st" and "call_ok num (rc_lines q) i (Returned out)"
  shows "client_inv num (leave_call i out q)"
  using assms unfolding client_inv_def leave_call_def by auto

lemma start_inv: "client_inv num q \<Longrightarrow> client_inv num (start_call m q)"
proof -
  assume inv: "client_inv num q"
  have "rc_calls q (rc_next q + 1) = None" using inv unfolding client_inv_def by (cases "rc_calls q (rc_next q + 1)") force+
  then show ?thesis using inv unfolding client_inv_def start_call_def Let_def by (auto; fastforce)
qed

lemma pending_waits: "client_inv num q \<Longrightarrow> i \<in> set (rc_pending q) \<Longrightarrow> \<exists>m b. rc_calls q i = Some (Waiting m b False)"
  unfolding client_inv_def by blast

lemma take_inv:
  assumes inv: "client_inv num q" and "take_response i q = Some q'"
  shows "client_inv num q'"
proof -
  from assms(2) consider m r cl where "rc_calls q i = Some (Waiting m (Some r) cl)"
      "q' = (leave_call i (outcome_of r) q)\<lparr>rc_stuck := (if rc_stuck q = Some i then None else rc_stuck q)\<rparr>"
    | m where "rc_calls q i = Some (Waiting m None True)" "q' = leave_call i (Inl (ConnectionClosed m)) q"
    by (auto simp: take_response_def split: option.splits call_state.splits bool.splits)
  then show ?thesis
  proof cases
    case 1
    have "call_ok num (rc_lines q) i (Waiting m (Some r) cl)" using inv 1(1) unfolding client_inv_def by blast
    then have "call_ok num (rc_lines q) i (Returned (outcome_of r))" by (auto simp: outcome_of_def split: option.split)
    from leave_inv [OF inv 1(1) this] show ?thesis unfolding 1(2) client_inv_def by (auto simp: leave_call_def)
  next
    case 2
    then show ?thesis using leave_inv [OF inv 2(1)] by simp
  qed
qed

lemma deliver_inv:
  assumes inv: "client_inv num q" and pend: "i \<in> set (rc_pending q)"
    and line: "answers_call num i line" "decode_response num line = Some r"
  shows "client_inv num (deliver i r (q\<lparr>rc_lines := rc_lines q @ [line]\<rparr>))"
proof -
  let ?q = "q\<lparr>rc_lines := rc_lines q @ [line]\<rparr>"
  obtain m b where st: "rc_calls q i = Some (Waiting m b False)" using pending_waits [OF inv pend] by blast
  have new: "came_for num (rc_lines q @ [line]) i r" using line by (auto simp: came_for_def)
  show ?thesis
  proof (cases b)
    case None
    then have d: "deliver i r ?q = ?q\<lparr>rc_calls := (rc_calls q)(i \<mapsto> Waiting m (Some r) False)\<rparr>"
      using st by (simp add: deliver_def)
    show ?thesis using inv new st pend call_ok_more [of num "rc_lines q" _ _ line] unfolding d client_inv_def by (auto; fastforce)
  next
    case (Some r0)
    then have d: "deliver i r ?q = ?q\<lparr>rc_stuck := Some i\<rparr>" using st by (simp add: deliver_def)
    have "call_ok num (rc_lines q) i (Waiting m (Some r0) False)" using inv st Some unfolding client_inv_def by blast
    then obtain l0 where "l0 \<in> set (rc_lines q)" "answers_call num i l0" by (auto simp: came_for_def)
    then have "filter (answers_call num i) (rc_lines q) \<noteq> []" by (auto simp: filter_empty_conv)
    then have "2 \<le> length (filter (answers_call num i) (rc_lines q @ [line]))" using line(1) by (cases "filter (answers_call num i) (rc_lines q)") auto
    then show ?thesis using inv call_ok_more [of num "rc_lines q" _ _ line] unfolding d client_inv_def by auto
  qed
qed

lemma heard_inv: "client_inv num q \<Longrightarrow> client_inv num (q\<lparr>rc_lines := rc_lines q @ [line]\<rparr>)"
  using call_ok_more [of num "rc_lines q" _ _ line] unfolding client_inv_def by (auto; fastforce)

lemma events_inv [simp]: "client_inv num (q\<lparr>rc_events := evs\<rparr>) = client_inv num q"
  by (simp add: client_inv_def)

lemma read_inv:
  assumes "client_inv num q"
  shows "client_inv num (read_line num line q)"
proof (cases "\<exists>i m r. decode_probe line = Some (Some (JInt i), m) \<and> m \<noteq> ''event'' \<and> decode_response num line = Some r \<and> i \<in> set (rc_pending q) \<and> line \<noteq> ''''")
  case True
  then show ?thesis using deliver_inv [OF assms, of _ line]
    by (auto simp: read_line_def Let_def answers_call_def)
next
  case False
  then show ?thesis using heard_inv [OF assms, of line]
    by (auto simp: read_line_def Let_def split: option.split prod.split json.split)
qed

lemma end_inv: "client_inv num q \<Longrightarrow> rc_stuck q = None \<Longrightarrow> client_inv num (end_reading q)"
proof -
  assume inv: "client_inv num q" and "rc_stuck q = None"
  have st: "\<exists>st0. rc_calls q i = Some st0 \<and> call_ok num (rc_lines q) i st = call_ok num (rc_lines q) i st0 \<and> (\<forall>m b. st \<noteq> Waiting m b False)"
    if "rc_calls (end_reading q) i = Some st" for i st
  proof (cases "\<exists>m b cl. rc_calls q i = Some (Waiting m b cl)")
    case True
    then obtain m b cl where w: "rc_calls q i = Some (Waiting m b cl)" by blast
    moreover have "\<not> cl \<Longrightarrow> i \<in> set (rc_pending q)" using inv w unfolding client_inv_def by auto
    ultimately show ?thesis using that by (auto simp: end_reading_def)
  next
    case False
    then show ?thesis using that by (auto simp: end_reading_def split: option.splits call_state.splits)
  qed
  have "rc_next (end_reading q) = rc_next q" "rc_lines (end_reading q) = rc_lines q" "rc_pending (end_reading q) = []"
    "rc_closed (end_reading q)" "rc_stuck (end_reading q) = None"
    using \<open>rc_stuck q = None\<close> by (simp_all add: end_reading_def)
  then show ?thesis using inv st unfolding client_inv_def by (metis empty_iff list.set(1) option.distinct(1))
qed

lemma client_step_inv: "client_step num q q' \<Longrightarrow> client_inv num q \<Longrightarrow> client_inv num q'"
proof (induction rule: client_step.induct)
  case (starts q m)
  then show ?case by (rule start_inv)
next
  case (write_fails q i m b cl t)
  then show ?case by (auto intro: leave_inv)
next
  case (gives_up q i m b cl t)
  then show ?case by (auto intro: leave_inv)
next
  case (takes i q q')
  then show ?case using take_inv by blast
next
  case (reads q line)
  then show ?case by (simp add: read_inv)
next
  case (ends q)
  then show ?case by (simp add: end_inv)
next
  case (closes q)
  then show ?case by (simp add: client_inv_def)
next
  case (consumes q ev evs)
  then show ?case by simp
qed

lemma client_reach_inv: "client_reach num q \<Longrightarrow> client_inv num q"
proof (induction rule: client_reach.induct)
  case dial
  show ?case by (simp add: client_inv_def dialled_def)
qed (rule client_step_inv)

text \<open>A call that returned a result returned the one of a line the daemon sent with that call's id, never
  another call's.\<close>

theorem client_correlates:
  assumes "client_reach num q" and "rc_calls q i = Some (Returned (Inr v))"
  shows "\<exists>line m r. line \<in> set (rc_lines q) \<and> decode_probe line = Some (Some (JInt i), m) \<and> m \<noteq> ''event''
    \<and> decode_response num line = Some r \<and> rs_error r = None \<and> v = (case rs_result r of None \<Rightarrow> JNull | Some x \<Rightarrow> x)"
proof -
  have "call_ok num (rc_lines q) i (Returned (Inr v))"
    using client_reach_inv [OF assms(1)] assms(2) unfolding client_inv_def by blast
  then show ?thesis by (auto simp: came_for_def answers_call_def)
qed

text \<open>Once the connection has ended every call that still waits can return, and as long as the daemon
  answers no id twice the read loop never blocks.\<close>

theorem client_never_hangs:
  assumes "client_reach num q"
  shows "(\<not> rc_reading q \<longrightarrow> rc_calls q i = Some (Waiting m b cl) \<longrightarrow> take_response i q \<noteq> None)
    \<and> ((\<forall>j. length (filter (\<lambda>l. \<exists>m. decode_probe l = Some (Some (JInt j), m) \<and> m \<noteq> ''event'') (rc_lines q)) \<le> 1)
        \<longrightarrow> rc_stuck q = None)"
proof -
  note inv = client_reach_inv [OF assms, unfolded client_inv_def]
  have "take_response i q \<noteq> None" if "\<not> rc_reading q" "rc_calls q i = Some (Waiting m b cl)"
  proof -
    have "i \<notin> set (rc_pending q)" using inv that(1) by simp
    then have "cl" using inv that(2) by (cases cl) auto
    with that(2) show ?thesis by (cases b) (simp_all add: take_response_def)
  qed
  moreover have "rc_stuck q = None"
    if "\<forall>j. length (filter (\<lambda>l. \<exists>m. decode_probe l = Some (Some (JInt j), m) \<and> m \<noteq> ''event'') (rc_lines q)) \<le> 1"
  proof (cases "rc_stuck q")
    case (Some j)
    with inv have "2 \<le> length (filter (answers_call num j) (rc_lines q))" by blast
    moreover have "answers_call num j = (\<lambda>l. \<exists>m. decode_probe l = Some (Some (JInt j), m) \<and> m \<noteq> ''event'')"
      by (simp add: fun_eq_iff answers_call_def)
    ultimately show ?thesis using that [rule_format, of j] by simp
  qed simp
  ultimately show ?thesis by blast
qed

section \<open>A call against the server\<close>

lemma clean_ascii: "list_all (\<lambda>c. byte_of c < 128) s \<Longrightarrow> clean_text s = s"
  by (simp add: clean_valid valid_text_ascii)

lemma clean_names [simp]:
  "clean_text ''jsonrpc'' = ''jsonrpc''" "clean_text ''id'' = ''id''" "clean_text ''method'' = ''method''"
  "clean_text ''params'' = ''params''" "clean_text ''result'' = ''result''" "clean_text ''error'' = ''error''"
  "clean_text ''code'' = ''code''" "clean_text ''message'' = ''message''" "clean_text ''data'' = ''data''"
  "clean_text ''2.0'' = ''2.0''" "clean_text ''event'' = ''event''" "clean_text ''type'' = ''type''"
  by (rule clean_ascii; simp add: byte_of_def)+

lemma fold_names [simp]:
  "distinct (map ascii_fold [''jsonrpc'', ''id'', ''method'', ''params'', ''result'', ''error'', ''code'', ''message'', ''data'', ''type''])"
  by (simp add: ascii_fold_def byte_of_def)

lemma obj_values_simps [simp]:
  "obj_values name [] = []"
  "obj_values name ((k, v) # fs) = (if ascii_fold k = ascii_fold name then v # obj_values name fs else obj_values name fs)"
  "obj_values name (fs @ gs) = obj_values name fs @ obj_values name gs"
  by (simp_all add: obj_values_def)

lemma field_parse [simp]: "raw_field fs name = (case obj_values name fs of [] \<Rightarrow> None | v # vs \<Rightarrow> Some (last (v # vs)))"
  by (simp add: raw_field_def split: list.split)

lemma opt_field_map: "map (\<lambda>kv. (clean_text (fst kv), clean_json (snd kv))) (opt_field name v) = opt_field (clean_text name) (map_option clean_json v)"
  by (cases v) (simp_all add: opt_field_def)

lemma opt_field_values [simp]: "obj_values name (opt_field k v) = (if ascii_fold k = ascii_fold name then (case v of None \<Rightarrow> [] | Some x \<Rightarrow> [x]) else [])"
  by (cases v) (simp_all add: opt_field_def)

lemma fold_ne:
  "ascii_fold ''jsonrpc'' \<noteq> ascii_fold ''id''" "ascii_fold ''jsonrpc'' \<noteq> ascii_fold ''method''" "ascii_fold ''jsonrpc'' \<noteq> ascii_fold ''params''"
  "ascii_fold ''jsonrpc'' \<noteq> ascii_fold ''result''" "ascii_fold ''jsonrpc'' \<noteq> ascii_fold ''error''"
  "ascii_fold ''id'' \<noteq> ascii_fold ''method''" "ascii_fold ''id'' \<noteq> ascii_fold ''params''" "ascii_fold ''id'' \<noteq> ascii_fold ''result''"
  "ascii_fold ''id'' \<noteq> ascii_fold ''error''" "ascii_fold ''method'' \<noteq> ascii_fold ''params''" "ascii_fold ''method'' \<noteq> ascii_fold ''result''"
  "ascii_fold ''method'' \<noteq> ascii_fold ''error''" "ascii_fold ''result'' \<noteq> ascii_fold ''error''"
  "ascii_fold ''code'' \<noteq> ascii_fold ''message''" "ascii_fold ''code'' \<noteq> ascii_fold ''data''" "ascii_fold ''message'' \<noteq> ascii_fold ''data''"
  "ascii_fold ''type'' \<noteq> ascii_fold ''data''"
  by (simp_all add: ascii_fold_def byte_of_def)

lemmas field_names = fold_ne fold_ne [symmetric]

text \<open>The request the client writes is the request the server reads.\<close>

lemma request_roundtrip:
  assumes "valid_text m" and "\<And>v. params = Some v \<Longrightarrow> integral v"
  shows "decode_request (marshal (request_json i m params)) = Some \<lparr>rq_id = Some (JInt i), rq_method = m, rq_params = map_option clean_json params\<rparr>"
proof -
  have "integral (request_json i m params)" using assms(2) by (cases params) (simp_all add: request_json_def opt_field_def)
  from json_roundtrip [OF this] show ?thesis
    by (simp add: decode_request_def request_json_def opt_field_map clean_valid [OF assms(1)] fields_ok_def get_string_def field_names
        split: option.split)
qed

text \<open>What of an answer survives the wire: strings become UTF-8, numbers are read as \<open>float64\<close>.\<close>

definition wire_value :: "(json \<Rightarrow> json) \<Rightarrow> json option \<Rightarrow> json option" where
  "wire_value num v = (case v of None \<Rightarrow> None | Some j \<Rightarrow> if clean_json j = JNull then None else Some (through_any num (clean_json j)))"

definition wire_error :: "(json \<Rightarrow> json) \<Rightarrow> rpc_error \<Rightarrow> rpc_error" where
  "wire_error num e = \<lparr>re_code = re_code e, re_message = clean_text (re_message e), re_data = wire_value num (re_data e)\<rparr>"

definition wire_answer :: "(json \<Rightarrow> json) \<Rightarrow> rpc_error + json \<Rightarrow> call_err + json" where
  "wire_answer num r = (case r of Inl e \<Rightarrow> Inl (ServerError (wire_error num e))
     | Inr v \<Rightarrow> Inr (case wire_value num (Some v) of None \<Rightarrow> JNull | Some x \<Rightarrow> x))"

text \<open>Answers whose numbers are integers and whose code is one of Go's \<open>int\<close>.\<close>

definition sendable :: "rpc_error + json \<Rightarrow> bool" where
  "sendable r = (case r of Inl e \<Rightarrow> int64_ok (re_code e) \<and> (\<forall>v. re_data e = Some v \<longrightarrow> integral v) | Inr v \<Rightarrow> integral v)"

lemma response_integral: "sendable r \<Longrightarrow> integral (response_json (Some (JInt i)) r)"
  by (auto simp: sendable_def response_json_def error_json_def opt_field_def split: sum.splits option.splits)

lemma any_field_wire: "any_field num None [(name, x)] name = wire_value num (Some x)" if "clean_json x = x" for x
  using that by (simp add: any_field_def wire_value_def)

lemma response_roundtrip:
  assumes "sendable r"
  shows "decode_probe (marshal (response_json (Some (JInt i)) r)) = Some (Some (JInt i), '''')"
    and "\<exists>rs. decode_response num (marshal (response_json (Some (JInt i)) r)) = Some rs \<and> outcome_of rs = wire_answer num r"
proof -
  note parse = json_roundtrip [OF response_integral [OF assms, of i]]
  have clean: "clean_json (response_json (Some (JInt i)) r) = JObj ([(''jsonrpc'', JStr ''2.0''), (''id'', JInt i)] @ (case r of
      Inl e \<Rightarrow> [(''error'', JObj ([(''code'', JInt (re_code e)), (''message'', JStr (clean_text (re_message e)))]
        @ opt_field ''data'' (map_option clean_json (re_data e))))]
    | Inr v \<Rightarrow> [(''result'', clean_json v)]))"
    by (simp add: response_json_def error_json_def opt_field_map opt_field_def split: sum.split)
       (simp add: opt_field_def split: option.split)
  show "decode_probe (marshal (response_json (Some (JInt i)) r)) = Some (Some (JInt i), '''')"
    unfolding decode_probe_def parse clean
    by (simp add: fields_ok_def get_string_def field_names split: sum.split)
  show "\<exists>rs. decode_response num (marshal (response_json (Some (JInt i)) r)) = Some rs \<and> outcome_of rs = wire_answer num r"
  proof (cases r)
    case (Inl e)
    with assms have "int64_ok (re_code e)" by (simp add: sendable_def)
    then show ?thesis unfolding decode_response_def parse clean
      by (simp add: Inl fields_ok_def get_string_def get_int_def field_names read_error_def any_field_def outcome_of_def
          wire_answer_def wire_error_def wire_value_def split: option.split)
  next
    case (Inr v)
    then show ?thesis unfolding decode_response_def parse clean
      by (simp add: fields_ok_def field_names any_field_def outcome_of_def wire_answer_def wire_value_def)
  qed
qed

section \<open>Every answer can be sent\<close>

lemma sendable_simps [simp]:
  "sendable (Inr v) = integral v" "sendable (Inl (required t))" "sendable (Inl (unavailable t))" "sendable (Inl (internal_err err))"
  "sendable (Inl (rpc_err code_invalid_params t))" "sendable (Inl (rpc_err code_not_found t))" "sendable (Inl (rpc_err code_sends_disabled t))"
  "sendable (Inl (rpc_err code_already_resolved t))" "sendable (Inl (rpc_err code_method_not_found t))"
  "sendable (Inl \<lparr>re_code = code_unavailable, re_message = t, re_data = Some (approval_json a)\<rparr>)"
  by (simp_all add: sendable_def required_def unavailable_def internal_err_def rpc_err_def rpc_codes int64_ok_def)

lemma sendable_decode: "decode_params e decl params = Inl err \<Longrightarrow> sendable (Inl err)"
  by (auto simp: decode_params_def split: option.splits json.splits if_splits)

lemma sendable_replies: "(\<And>x. integral (f x)) \<Longrightarrow> sendable (reply_of f r)" "(\<And>x. integral (f x)) \<Longrightarrow> sendable (reply_found t f r)"
  by (simp_all add: reply_of_def reply_found_def split: sum.split)

lemma sendable_reads:
  "sendable (handle_ping dp E d)" "sendable (handle_status dp E s)" "sendable (handle_chats_list E params d)"
  "sendable (handle_chats_find E params d)" "sendable (handle_chats_show E params d)" "sendable (handle_messages_list E params d)"
  "sendable (handle_messages_search E params d)" "sendable (handle_messages_show E params d)" "sendable (handle_messages_context E params d)"
  "sendable (handle_contacts_search E params d)" "sendable (handle_contacts_show E params d)" "sendable (handle_approvals_list E params d)"
  unfolding handle_ping_def handle_status_def handle_chats_list_def handle_chats_find_def handle_chats_show_def
    handle_messages_list_def handle_messages_search_def handle_messages_show_def handle_messages_context_def
    handle_contacts_search_def handle_contacts_show_def handle_approvals_list_def Let_def
  by (auto split: sum.splits simp: integral_list_json intro!: sendable_replies dest: sendable_decode)

lemma sendable_perform: "sendable (snd (perform_approved_send dp E a s))"
  unfolding perform_approved_send_def by (auto split: sum.split prod.split option.split)

lemma sendable_performs: "perform_approved_send dp E a s = (s', r) \<Longrightarrow> sendable r"
  using sendable_perform [of dp E a s] by simp

lemma sendable_steps:
  "handle_alias_set E params s = (s', r) \<Longrightarrow> sendable r"
  "handle_alias_rm E params s = (s', r) \<Longrightarrow> sendable r"
  "handle_media_download dp E params s = (s', r) \<Longrightarrow> sendable r"
  "handle_send_react dp E params s = (s', r) \<Longrightarrow> sendable r"
  "handle_history_backfill dp E params s = (s', r) \<Longrightarrow> sendable r"
  "handle_history_lookup dp E params s = (s', r) \<Longrightarrow> sendable r"
  "handle_send_text dp E params s = (s', r) \<Longrightarrow> sendable r"
  "handle_approvals_approve dp E params s = (s', r) \<Longrightarrow> sendable r"
  "handle_approvals_deny E params s = (s', r) \<Longrightarrow> sendable r"
  "handle_sync_refresh dp e s = (s', r) \<Longrightarrow> sendable r"
  "handle_auth_pair dp s = (s', r) \<Longrightarrow> sendable r"
  "handle_auth_pair_google dp e params s = Returns (s', r) \<Longrightarrow> sendable r"
  unfolding handle_alias_set_def handle_alias_rm_def handle_media_download_def handle_send_react_def handle_history_backfill_def
    handle_history_lookup_def handle_send_text_def handle_approvals_approve_def handle_approvals_deny_def handle_sync_refresh_def
    handle_auth_pair_def handle_auth_pair_google_def start_pairing_def Let_def
  by (auto split: sum.splits if_splits prod.splits option.splits outcome.splits intro!: sendable_replies
      dest: sendable_decode sendable_performs)

lemma dispatch_sendable: "dispatch dp E c m params s = Returns (s', r) \<Longrightarrow> sendable r"
  unfolding dispatch_def Let_def
  by (auto split: if_splits dest: sendable_steps simp: sendable_reads)

text \<open>C39: every answer of the daemon has the type its clients expect: numbers are integers and error codes fit
  Go's \<open>int\<close>, and the line that carries it decodes as a response to that very request with the
  same result or error.\<close>

theorem answers_typed:
  assumes "dispatch dp E c m params s = Returns (s', r)"
  shows "sendable r \<and> decode_probe (marshal (response_json (Some (JInt i)) r)) = Some (Some (JInt i), '''')
    \<and> (\<exists>rs. decode_response num (marshal (response_json (Some (JInt i)) r)) = Some rs \<and> outcome_of rs = wire_answer num r)"
  using dispatch_sendable [OF assms] response_roundtrip by blast

theorem answers_typed_witness:
  "\<exists>s' r. dispatch offline_deps (\<lambda>_. quiet_rpc 5) 1 ''ping'' None first_client = Returns (s', r)
    \<and> decode_probe (marshal (response_json (Some (JInt 1)) r)) = Some (Some (JInt 1), '''')"
proof -
  have "\<exists>s' r. dispatch offline_deps (\<lambda>_. quiet_rpc 5) 1 ''ping'' None first_client = Returns (s', r)"
    by (simp add: dispatch_def)
  then show ?thesis using answers_typed by blast
qed

section \<open>Calls\<close>

text \<open>C28: a call against the daemon: the request the client writes makes the server run exactly that method with
  those parameters, and the response it writes back makes that call, and no other, return what
  \<open>dispatch\<close> answered, as far as it survives the wire.\<close>

theorem call_roundtrip:
  assumes "valid_text m" and "m \<noteq> ''''" and "\<And>v. params = Some v \<Longrightarrow> integral v"
    and "dispatch dp E c m (map_option clean_json params) s = Returns (s1, r)"
    and "client_reach num q" and "rc_calls q i = Some (Waiting m' None False)"
  shows "handle_line dp E c (marshal (request_json i m params)) s = Returns (write_to c (response_json (Some (JInt i)) r) s1)
    \<and> (\<exists>q'. take_response i (read_line num (marshal (response_json (Some (JInt i)) r)) q) = Some q'
        \<and> rc_calls q' = (rc_calls q)(i \<mapsto> Returned (wire_answer num r)))"
proof
  note send = dispatch_sendable [OF assms(4)]
  have "marshal (request_json i m params) \<noteq> ''''" by (simp add: request_json_def)
  then show "handle_line dp E c (marshal (request_json i m params)) s = Returns (write_to c (response_json (Some (JInt i)) r) s1)"
    using assms(2,4) by (simp add: handle_line_def request_roundtrip [OF assms(1,3)])
  let ?l = "marshal (response_json (Some (JInt i)) r)"
  have "?l \<noteq> ''''" by (simp add: response_json_def)
  have pend: "i \<in> set (rc_pending q)" using client_reach_inv [OF assms(5)] assms(6) unfolding client_inv_def by blast
  obtain rs where rs: "decode_response num ?l = Some rs" "outcome_of rs = wire_answer num r"
    using response_roundtrip(2) [OF send] by blast
  have "read_line num ?l q = (q\<lparr>rc_lines := rc_lines q @ [?l]\<rparr>)\<lparr>rc_calls := (rc_calls q)(i \<mapsto> Waiting m' (Some rs) False)\<rparr>"
    using \<open>?l \<noteq> ''''\<close> pend assms(6) rs(1) by (simp add: read_line_def Let_def response_roundtrip(1) [OF send] deliver_def)
  then show "\<exists>q'. take_response i (read_line num ?l q) = Some q' \<and> rc_calls q' = (rc_calls q)(i \<mapsto> Returned (wire_answer num r))"
    by (simp add: take_response_def leave_call_def rs(2))
qed

section \<open>Lines\<close>

lemma split_line: "sep \<notin> set l \<Longrightarrow> split_char sep (l @ sep # t) = l # split_char sep t"
  by (induction l) auto

lemma split_lines: "\<forall>l \<in> set ls. sep \<notin> set l \<Longrightarrow> split_char sep (concat (map (\<lambda>l. l @ [sep]) ls)) = ls @ [[]]"
  by (induction ls) (simp_all add: split_line)

lemma drop_cr_printable: "list_all printable l \<Longrightarrow> drop_cr l = l"
  by (cases l rule: rev_cases) (auto simp: drop_cr_def printable_def)


section \<open>A concrete call\<close>

definition ping_answer :: string where
  "ping_answer = marshal (response_json (Some (JInt 1)) (Inr (json_map [(''pong'', JBool True)])))"

definition pinging :: rclient where
  "pinging = start_call ''ping'' dialled"

lemma pinging_reached: "client_reach num pinging"
  unfolding pinging_def by (rule client_reach.more [OF client_reach.dial client_step.starts])

lemma pinging_call: "rc_calls pinging 1 = Some (Waiting ''ping'' None False)" "rc_reading pinging" "rc_stuck pinging = None"
  by (simp_all add: pinging_def start_call_def dialled_def Let_def)

lemma pong_sendable: "sendable (Inr (json_map [(''pong'', JBool True)]))"
  by simp

lemma pinging_answered: "\<exists>q. client_reach num q \<and> rc_calls q 1 = Some (Returned (Inr (JObj [(''pong'', JBool True)])))"
proof -
  obtain rs where rs: "decode_response num ping_answer = Some rs" "outcome_of rs = wire_answer num (Inr (json_map [(''pong'', JBool True)]))"
    using response_roundtrip(2) [OF pong_sendable, of num 1] unfolding ping_answer_def by blast
  have probe: "decode_probe ping_answer = Some (Some (JInt 1), '''')"
    using response_roundtrip(1) [OF pong_sendable, of 1] by (simp add: ping_answer_def)
  let ?q = "read_line num ping_answer pinging"
  have r: "client_reach num ?q"
    by (rule client_reach.more [OF pinging_reached client_step.reads]) (simp_all add: pinging_call)
  have "ping_answer \<noteq> ''''" by (simp add: ping_answer_def response_json_def)
  then have "rc_calls ?q 1 = Some (Waiting ''ping'' (Some rs) False)"
    using rs(1) probe by (simp add: read_line_def Let_def deliver_def pinging_def start_call_def dialled_def)
  then have "take_response 1 ?q = Some ((leave_call 1 (outcome_of rs) ?q)\<lparr>rc_stuck := (if rc_stuck ?q = Some 1 then None else rc_stuck ?q)\<rparr>)"
    by (simp add: take_response_def)
  from client_reach.more [OF r client_step.takes [OF this]] show ?thesis
  proof (intro exI conjI)
    have "clean_text ''pong'' = ''pong''" by (rule clean_ascii) (simp add: byte_of_def)
    then show "rc_calls ((leave_call 1 (outcome_of rs) ?q)\<lparr>rc_stuck := (if rc_stuck ?q = Some 1 then None else rc_stuck ?q)\<rparr>) 1
        = Some (Returned (Inr (JObj [(''pong'', JBool True)])))"
      by (simp add: leave_call_def rs(2) wire_answer_def wire_value_def json_map_def any_object_def)
  qed
qed

theorem client_correlates_witness:
  "\<exists>q line m. client_reach id q \<and> line \<in> set (rc_lines q) \<and> decode_probe line = Some (Some (JInt 1), m)"
proof -
  obtain q where q: "client_reach id q" "rc_calls q 1 = Some (Returned (Inr (JObj [(''pong'', JBool True)])))"
    using pinging_answered by blast
  from client_correlates [OF q] q(1) show ?thesis by blast
qed

theorem client_never_hangs_witness:
  "take_response 1 (end_reading pinging) \<noteq> None"
proof -
  have r: "client_reach id (end_reading pinging)"
    by (rule client_reach.more [OF pinging_reached client_step.ends]) (simp_all add: pinging_call)
  have st: "rc_calls (end_reading pinging) 1 = Some (Waiting ''ping'' None True)" "\<not> rc_reading (end_reading pinging)"
    by (simp_all add: end_reading_def pinging_def start_call_def dialled_def Let_def)
  from client_never_hangs [OF r, of 1 "''ping''" None True] st show ?thesis by blast
qed

theorem call_roundtrip_witness:
  "\<exists>s1 r. handle_line offline_deps (\<lambda>_. quiet_rpc 5) 1 (marshal (request_json 1 ''ping'' None)) first_client
     = Returns (write_to 1 (response_json (Some (JInt 1)) r) s1)"
proof -
  obtain s1 r where d: "dispatch offline_deps (\<lambda>_. quiet_rpc 5) 1 ''ping'' (map_option clean_json None) first_client = Returns (s1, r)"
    by (simp add: dispatch_def Let_def)
  have "valid_text ''ping''" by (rule valid_text_ascii) (simp add: byte_of_def)
  from call_roundtrip [OF this _ _ d pinging_reached pinging_call(1)] show ?thesis by blast
qed


end
