(* ===== verification/Mcp.thy ===== *)
theory Mcp
  imports Daemon_Control Rpc_Client_Facts
begin

text \<open>
  \<open>internal/cmd/mcp.go\<close>: the tools of the MCP server. Reading tools query the store themselves; those that
  touch the phone call the daemon, started on demand. The MCP library, which decodes arguments and writes
  results, is outside; a tool is a function of its decoded arguments. Times are milliseconds, durations
  nanoseconds.
\<close>

section \<open>The daemon from a client's side\<close>

text \<open>What \<open>client.Call\<close> gives for a method and its parameters.\<close>

type_synonym caller = "string \<Rightarrow> json option \<Rightarrow> call_err + json"

text \<open>\<open>time.ParseInLocation\<close> and \<open>time.Parse\<close> of the two layouts, \<open>Sscanf\<close>'s split into a number and a
  unit, and a number times a length in \<open>float64\<close>.\<close>

record mcp_env = start_env +
  mc_dial :: "string \<Rightarrow> string + caller"
  mc_decode_text :: "json \<Rightarrow> string"
  mc_now :: "nat \<Rightarrow> int"
  mc_local_date :: "string \<Rightarrow> int option"
  mc_rfc3339 :: "string \<Rightarrow> int option"
  mc_fractions :: fractions
  mc_scan :: "string \<Rightarrow> (string \<times> string) option"
  mc_times :: "string \<Rightarrow> int \<Rightarrow> int"

definition call_error :: "call_err \<Rightarrow> err" where
  "call_error e = (case e of
     CtxDone t \<Rightarrow> Driver t
   | ConnectionClosed m \<Rightarrow> Msg (''connection closed while waiting for '' @ m)
   | ClientClosed \<Rightarrow> Msg ''client is closed''
   | WriteFailed t \<Rightarrow> Wrap ''write request'' (Driver t)
   | ServerError r \<Rightarrow> Msg (re_message r))"

text \<open>\<open>Call\<close> with a result to decode into.\<close>

definition call_into :: "'p mcp_env_scheme \<Rightarrow> (json \<Rightarrow> 'a option) \<Rightarrow> call_err + json \<Rightarrow> err + 'a" where
  "call_into v dec r = (case r of
     Inl e \<Rightarrow> Inl (call_error e)
   | Inr j \<Rightarrow> (case dec j of None \<Rightarrow> Inl (Msg (mc_decode_text v j)) | Some x \<Rightarrow> Inr x))"

definition rpc_dial :: "'p mcp_env_scheme \<Rightarrow> layout \<Rightarrow> err + caller" where
  "rpc_dial v l = (case mc_dial v (ly_socket l) of
     Inl t \<Rightarrow> Inl (Wrap (''connect to gmcli daemon at '' @ ly_socket l @ '' (is `gmcli serve` running?)'') (Driver t))
   | Inr c \<Rightarrow> Inr c)"

definition warn_opts :: start_opts where
  "warn_opts = \<lparr>so_log_level = ''warn'', so_offline = False, so_timeout = 0, so_idle_exit = 0\<rparr>"

text \<open>\<open>None\<close>: \<open>EnsureRunning\<close> has not returned within the turns that always suffice.\<close>

definition dial_serve :: "'p mcp_env_scheme \<Rightarrow> layout \<Rightarrow> (err + caller) option" where
  "dial_serve v l = map_option (\<lambda>r. case snd r of
       Some err \<Rightarrow> Inl (Msg (''gmcli daemon is not running and could not be started ('' @ err_text err
         @ ''); start it manually with `gmcli serve`''))
     | None \<Rightarrow> (case rpc_dial v l of Inl err \<Rightarrow> Inl (Wrap ''connect to gmcli daemon'' err) | Inr c \<Rightarrow> Inr c))
     (ensure_running v l warn_opts (poll_fuel warn_opts))"

section \<open>Results of the daemon decoded\<close>

text \<open>A pointer field: null clears it.\<close>

definition get_opt_string :: "(string \<times> json) list \<Rightarrow> string \<Rightarrow> string option" where
  "get_opt_string fs name = foldl (\<lambda>acc v. case v of JStr s \<Rightarrow> Some s | JNull \<Rightarrow> None | _ \<Rightarrow> acc) None (obj_values name fs)"

definition struct_of :: "(string \<times> json_kind) list \<Rightarrow> ((string \<times> json) list \<Rightarrow> 'a) \<Rightarrow> json \<Rightarrow> 'a option" where
  "struct_of decl f v = (case v of
     JNull \<Rightarrow> Some (f [])
   | JObj fs \<Rightarrow> if fields_ok decl fs then Some (f fs) else None
   | _ \<Rightarrow> None)"

definition decode_approval :: "json \<Rightarrow> approval option" where
  "decode_approval = struct_of [(''approval_id'', KString), (''conversation_id'', KString), (''body'', KString), (''reply_to_id'', KString),
       (''requested_by'', KString), (''status'', KString), (''error'', KString), (''message_id'', KString),
       (''created_at_ms'', KInt), (''updated_at_ms'', KInt)]
     (\<lambda>fs. \<lparr>ap_id = get_string fs ''approval_id'', ap_conv = get_string fs ''conversation_id'', ap_body = get_string fs ''body'',
       ap_reply = get_opt_string fs ''reply_to_id'', ap_by = get_string fs ''requested_by'', ap_status = get_string fs ''status'',
       ap_error = get_opt_string fs ''error'', ap_message_id = get_opt_string fs ''message_id'',
       ap_created_at = get_int fs ''created_at_ms'', ap_updated_at = get_int fs ''updated_at_ms''\<rparr>)"

definition backfill_decl :: "(string \<times> json_kind) list" where
  "backfill_decl = [(''conversation_id'', KString), (''requests'', KInt), (''count'', KInt), (''fetched_messages'', KInt),
     (''sync_records_processed'', KInt), (''messages_before'', KInt), (''messages_after'', KInt), (''messages_added_for_chat'', KInt)]"

definition read_backfill :: "(string \<times> json) list \<Rightarrow> backfill_result" where
  "read_backfill fs = \<lparr>bf_conv = get_string fs ''conversation_id'', bf_requests = get_int fs ''requests'', bf_count = get_int fs ''count'',
     bf_fetched = get_int fs ''fetched_messages'', bf_processed = get_int fs ''sync_records_processed'',
     bf_before = get_int fs ''messages_before'', bf_after = get_int fs ''messages_after'', bf_added = get_int fs ''messages_added_for_chat''\<rparr>"

text \<open>A struct inside a struct takes the fields of every object it is given, in turn.\<close>

definition nested_fields :: "(string \<times> json) list \<Rightarrow> string \<Rightarrow> (string \<times> json) list option" where
  "nested_fields fs name = foldl (\<lambda>acc v. case acc of None \<Rightarrow> None | Some gs \<Rightarrow>
     (case v of JNull \<Rightarrow> Some gs | JObj hs \<Rightarrow> Some (gs @ hs) | _ \<Rightarrow> None)) (Some []) (obj_values name fs)"

record backfill_out =
  bo_conv :: string
  bo_name :: string
  bo_backfill :: backfill_result

definition decode_lookup :: "json \<Rightarrow> backfill_out option" where
  "decode_lookup v = Option.bind (struct_of [(''conversation_id'', KString), (''name'', KString)] id v) (\<lambda>fs.
     case nested_fields fs ''backfill'' of
       None \<Rightarrow> None
     | Some gs \<Rightarrow> if fields_ok backfill_decl gs
         then Some \<lparr>bo_conv = get_string fs ''conversation_id'', bo_name = get_string fs ''name'', bo_backfill = read_backfill gs\<rparr>
         else None)"

section \<open>Time arguments\<close>

definition day_ns :: int where
  "day_ns = 24 * 3600000000000"

definition parse_relative_duration :: "'u unicode_scheme \<Rightarrow> 'p mcp_env_scheme \<Rightarrow> string \<Rightarrow> err + int" where
  "parse_relative_duration u v s = (case parse_duration (mc_fractions v) s of
     Some d \<Rightarrow> Inr d
   | None \<Rightarrow> (case mc_scan v s of
       None \<Rightarrow> Inl (Msg (''not a duration: '' @ go_quote u s))
     | Some (n, unit) \<Rightarrow>
         if unit = ''d'' then Inr (mc_times v n day_ns)
         else if unit = ''w'' then Inr (mc_times v n (7 * day_ns))
         else if unit = ''mo'' then Inr (mc_times v n (30 * day_ns))
         else if unit = ''y'' then Inr (mc_times v n (365 * day_ns))
         else Inl (Msg (''unknown duration unit '' @ go_quote u unit))))"

text \<open>Negating the smallest \<open>int64\<close> gives itself.\<close>

definition neg_duration :: "int \<Rightarrow> int" where
  "neg_duration d = (if d = - (2 ^ 63) then d else - d)"

definition parse_time_arg :: "'u unicode_scheme \<Rightarrow> 'p mcp_env_scheme \<Rightarrow> nat \<Rightarrow> string \<Rightarrow> err + int" where
  "parse_time_arg u v k s = (if s = '''' then Inr zero_time_ms
     else (case mc_local_date v s of
         Some t \<Rightarrow> Inr t
       | None \<Rightarrow> (case mc_rfc3339 v s of
           Some t \<Rightarrow> Inr t
         | None \<Rightarrow> (case parse_relative_duration u v s of
             Inr d \<Rightarrow> Inr ((mc_now v k + neg_duration d) div 1000000)
           | Inl e \<Rightarrow> Inl (Msg (''unrecognized time '' @ go_quote u s
               @ '' (use 2026-07-01, RFC3339, or a relative duration like 24h / 7d / 3w / 6mo)''))))))"

section \<open>Reading tools\<close>

record chat_summary =
  cs_id :: string
  cs_name :: string
  cs_group :: bool
  cs_participants :: "string list"
  cs_unread :: bool
  cs_pinned :: bool
  cs_iso :: string
  cs_ms :: int

definition summarize :: "'z env_scheme \<Rightarrow> conversation list \<Rightarrow> chat_summary list" where
  "summarize e = map (\<lambda>c. \<lparr>cs_id = conv_id c, cs_name = conversation_display_name c, cs_group = conv_is_group c,
     cs_participants = participant_names c, cs_unread = conv_unread c, cs_pinned = conv_pinned c,
     cs_iso = (if conv_last_ms c > 0 then iso_local e (conv_last_ms c) else ''''), cs_ms = conv_last_ms c\<rparr>)"

definition ok_map :: "('a \<Rightarrow> 'b) \<Rightarrow> err + 'a \<Rightarrow> err + 'b" where
  "ok_map f r = (case r of Inl err \<Rightarrow> Inl err | Inr x \<Rightarrow> Inr (f x))"

definition tool_list_chats :: "'z calls \<Rightarrow> int \<Rightarrow> bool \<Rightarrow> db \<Rightarrow> err + chat_summary list" where
  "tool_list_chats E limit unread_only d = ok_map (summarize (here E)) (list_conversations (here (at E 0))
     \<lparr>lc_limit = (if limit \<le> 0 then 25 else limit), lc_unread_only = unread_only, lc_pinned = False\<rparr> d)"

definition tool_find_chats :: "'z calls \<Rightarrow> string \<Rightarrow> int \<Rightarrow> db \<Rightarrow> err + chat_summary list" where
  "tool_find_chats E query limit d =
     (if query = '''' then Inl (Msg ''query is required (a name, alias, or phone number fragment)'')
      else ok_map (summarize (here E)) (find_conversations (at E 0) query limit d))"

text \<open>\<open>since\<close> and then \<open>until\<close>.\<close>

definition time_range :: "'u unicode_scheme \<Rightarrow> 'p mcp_env_scheme \<Rightarrow> string \<Rightarrow> string \<Rightarrow> err + int \<times> int" where
  "time_range u v since until = (case parse_time_arg u v 0 since of
     Inl err \<Rightarrow> Inl (Wrap ''since'' err)
   | Inr a \<Rightarrow> (case parse_time_arg u v 1 until of
       Inl err \<Rightarrow> Inl (Wrap ''until'' err)
     | Inr b \<Rightarrow> Inr (a, b)))"

definition tool_search_messages :: "'p mcp_env_scheme \<Rightarrow> 'z calls \<Rightarrow> string \<Rightarrow> string \<Rightarrow> string \<Rightarrow> string \<Rightarrow> int \<Rightarrow> db
    \<Rightarrow> err + rich_hit list" where
  "tool_search_messages v E query conv since until limit d =
     (if query = '''' then Inl (Msg ''query is required'')
      else (case time_range (here E) v since until of
          Inl err \<Rightarrow> Inl err
        | Inr (a, b) \<Rightarrow> search_messages_rich (at E 0)
            \<lparr>so_query = query, so_conv = conv, so_since = a, so_until = b, so_limit = limit\<rparr> d))"

record messages_out =
  mo_name :: string
  mo_messages :: "rich_message list"

definition conversation_title :: "err + conversation \<Rightarrow> string" where
  "conversation_title r = (case r of Inl _ \<Rightarrow> '''' | Inr c \<Rightarrow> conversation_display_name c)"

definition tool_list_messages :: "'p mcp_env_scheme \<Rightarrow> 'z calls \<Rightarrow> string \<Rightarrow> string \<Rightarrow> string \<Rightarrow> int \<Rightarrow> string \<Rightarrow> db
    \<Rightarrow> err + messages_out" where
  "tool_list_messages v E conv since until limit order d =
     (if conv = '''' then Inl (Msg ''conversation_id is required (find one with find_chats)'')
      else (case time_range (here E) v since until of
          Inl err \<Rightarrow> Inl err
        | Inr (a, b) \<Rightarrow> (case list_messages (here (at E 0)) \<lparr>lm_conv = conv, lm_sender = '''', lm_since = a, lm_until = b,
              lm_limit = limit, lm_order = order\<rparr> d of
            Inl err \<Rightarrow> Inl err
          | Inr ms \<Rightarrow> Inr \<lparr>mo_name = conversation_title (get_conversation (here (at E 2)) conv d),
              mo_messages = enrich_messages (at E 1) 0 [] ms d\<rparr>)))"

definition tool_message_context :: "'z calls \<Rightarrow> string \<Rightarrow> int \<Rightarrow> int \<Rightarrow> db \<Rightarrow> err + messages_out" where
  "tool_message_context E mid before after d =
     (let none = (before = 0 \<and> after = 0) in
      if mid = '''' then Inl (Msg ''message_id is required'')
      else (case get_message_context (here (at E 0)) mid (if none then 5 else before) (if none then 5 else after) d of
          Inl err \<Rightarrow> Inl err
        | Inr ms \<Rightarrow> Inr \<lparr>mo_name = (case ms of [] \<Rightarrow> '''' | m # _ \<Rightarrow> conversation_title (get_conversation (here (at E 2)) (msg_conv m) d)),
            mo_messages = enrich_messages (at E 1) 0 [] ms d\<rparr>))"

definition tool_search_contacts :: "'z calls \<Rightarrow> string \<Rightarrow> int \<Rightarrow> db \<Rightarrow> err + contact list" where
  "tool_search_contacts E query limit d = search_contacts (here (at E 0)) query limit d"

section \<open>Tools that call the daemon\<close>

text \<open>The results below are \<open>None\<close> only when \<open>dial_serve\<close> is.\<close>

definition with_serve :: "'p mcp_env_scheme \<Rightarrow> layout \<Rightarrow> (caller \<Rightarrow> err + 'a) \<Rightarrow> (err + 'a) option" where
  "with_serve v l f = map_option (\<lambda>r. case r of Inl err \<Rightarrow> Inl err | Inr c \<Rightarrow> f c) (dial_serve v l)"

definition tool_backfill :: "'p mcp_env_scheme \<Rightarrow> layout \<Rightarrow> string \<Rightarrow> string \<Rightarrow> int \<Rightarrow> int \<Rightarrow> (err + backfill_out) option" where
  "tool_backfill v l conv phone requests n =
     (if conv = '''' \<and> phone = '''' then Some (Inl (Msg ''conversation_id or phone is required''))
      else with_serve v l (\<lambda>call.
        if phone \<noteq> '''' then call_into v decode_lookup (call ''history.lookup''
          (Some (json_map [(''phone'', JStr phone), (''requests'', JInt requests), (''count'', JInt n)])))
        else ok_map (\<lambda>b. \<lparr>bo_conv = conv, bo_name = '''', bo_backfill = b\<rparr>)
          (call_into v (struct_of backfill_decl read_backfill) (call ''history.backfill''
            (Some (json_map [(''conversation_id'', JStr conv), (''requests'', JInt requests), (''count'', JInt n)]))))))"

definition note_sent :: string where
  "note_sent = ''Sent.''"

definition note_queued :: string where
  "note_queued = ''Queued for human approval. The message has NOT been sent yet; a human must approve it in gmtui or with `gmcli approvals approve`.''"

definition send_text_params :: "string \<Rightarrow> string \<Rightarrow> string \<Rightarrow> string \<Rightarrow> json" where
  "send_text_params conv body reply by = json_map [(''conversation_id'', JStr conv), (''body'', JStr body),
     (''reply_to_id'', JStr reply), (''requested_by'', JStr by)]"

definition tool_send_text :: "'p mcp_env_scheme \<Rightarrow> layout \<Rightarrow> string \<Rightarrow> string \<Rightarrow> string \<Rightarrow> (err + approval \<times> string) option" where
  "tool_send_text v l conv body reply =
     (if conv = '''' \<or> body = '''' then Some (Inl (Msg ''conversation_id and body are required''))
      else with_serve v l (\<lambda>call. ok_map (\<lambda>a. (a, if ap_status a = approval_pending then note_queued else note_sent))
        (call_into v decode_approval (call ''send.text'' (Some (send_text_params conv body reply ''mcp''))))))"

record status_out =
  to_running :: bool
  to_connected :: bool
  to_mode :: string
  to_pending :: int
  to_conversations :: int
  to_messages :: int
  to_last_event :: int

definition decode_status :: "json \<Rightarrow> status_out option" where
  "decode_status = struct_of [(''connected'', KBool), (''send_mode'', KString), (''pending_approvals'', KInt), (''conversations'', KInt),
       (''messages'', KInt), (''last_event_ms'', KInt)]
     (\<lambda>fs. \<lparr>to_running = True, to_connected = get_bool fs ''connected'', to_mode = get_string fs ''send_mode'',
       to_pending = get_int fs ''pending_approvals'', to_conversations = get_int fs ''conversations'',
       to_messages = get_int fs ''messages'', to_last_event = get_int fs ''last_event_ms''\<rparr>)"

definition or_zero :: "err + nat \<Rightarrow> int" where
  "or_zero r = (case r of Inl _ \<Rightarrow> 0 | Inr n \<Rightarrow> int n)"

text \<open>The length of the list \<open>ListApprovals\<close> returns, whose error is dropped: the rows that arrived count.\<close>

definition pending_seen :: "'z env_scheme \<Rightarrow> db \<Rightarrow> int" where
  "pending_seen e d = (case query_rows e SListApprovals
       (select_rows (visit e SListApprovals) (\<lambda>a. ap_status a = approval_pending) (\<lambda>a. - ap_created_at a) 1000 (approvals d)) of
     Inl _ \<Rightarrow> 0
   | Inr (out, _) \<Rightarrow> int (length out))"

definition store_status :: "'z calls \<Rightarrow> db \<Rightarrow> err + status_out" where
  "store_status E d = ok_map (\<lambda>sy. \<lparr>to_running = False, to_connected = False, to_mode = '''',
       to_pending = pending_seen (here (at E 3)) d,
       to_conversations = or_zero (count_conversations (here (at E 1)) d), to_messages = or_zero (count_messages (here (at E 2)) d),
       to_last_event = last_event_ts sy\<rparr>) (sync_state (here (at E 0)) d)"

definition tool_get_status :: "'p mcp_env_scheme \<Rightarrow> layout \<Rightarrow> 'z calls \<Rightarrow> db \<Rightarrow> err + status_out" where
  "tool_get_status v l E d = (case rpc_dial v l of
     Inl _ \<Rightarrow> store_status E d
   | Inr call \<Rightarrow> (case call_into v decode_status (call ''status'' None) of
       Inl _ \<Rightarrow> store_status E d
     | Inr out \<Rightarrow> Inr out))"

text \<open>\<open>mcpCmd\<close> up to the server: a daemon is started unless that is switched off, and a failure is only a
  warning.\<close>

definition mcp_start :: "'p mcp_env_scheme \<Rightarrow> layout \<Rightarrow> bool \<Rightarrow> string option option" where
  "mcp_start v l no_autostart = (if no_autostart then Some None
     else map_option (\<lambda>r. map_option (\<lambda>err. ''gmcli mcp: daemon autostart failed (read tools still work): '' @ err_text err) (snd r))
       (ensure_running v l warn_opts (poll_fuel warn_opts)))"

end
