(* ===== verification/Cli_Live.thy ===== *)
theory Cli_Live
  imports Cli_Query Mcp
begin

text \<open>
  The commands of \<open>internal/cmd\<close> that talk to the phone or to the daemon: \<open>send\<close>, \<open>history\<close>, \<open>media\<close>, \<open>sync\<close>, the
  start of \<open>serve\<close>, \<open>approvals\<close>, \<open>auth\<close>, and \<open>doctor\<close> and \<open>version\<close>, which inspect the installation. Each is a function
  of its flags and of what it meets outside, to the state it leaves, what it prints and its error.
\<close>

section \<open>A connected client\<close>

text \<open>The process: the pump, the phone's side and the files, of which the session is one.\<close>

record live = host +
  lv_files :: files

text \<open>
  What these commands meet: \<open>os.Open\<close> and the decoder of the session, which tells whether a device is paired
  and its id; \<open>Connect\<close>, and the events libgm delivers meanwhile; the outcome of \<open>WaitForReady\<close>, if it has one by
  the time it is asked; which conversations libgm answers with nil; directories; the report of \<open>os.Stat\<close>; cookie input;
  the drawing of a QR code; RFC 3339 times; and, of a socket's path, whether something is there, whether a daemon
  answers on it, and the errors of \<open>os.Remove\<close>, \<open>net.Listen\<close> and \<open>os.Chmod\<close>.
\<close>

record live_env = rpc_env +
  le_open_file :: "string option"
  le_decode :: "string \<Rightarrow> string + bool \<times> string"
  le_connect :: "string option"
  le_events :: "gm_event list"
  le_ready :: "string option option"
  le_missing :: "string \<Rightarrow> bool"
  le_is_dir :: "string \<Rightarrow> bool"
  le_stat :: "string option"
  le_snapshot :: "string option"
  le_input :: "string \<Rightarrow> string + string"
  le_qr :: "string \<Rightarrow> string"
  le_rfc3339 :: "int \<Rightarrow> string"
  le_exists :: "string \<Rightarrow> bool"
  le_answers :: "string \<Rightarrow> bool"
  le_remove :: "string \<Rightarrow> string option"
  le_listen :: "string \<Rightarrow> string option"
  le_chmod :: "string \<Rightarrow> string option"

type_synonym 'z live_calls = "nat list \<Rightarrow> 'z live_env_scheme"

definition gm_open :: "'z live_env_scheme \<Rightarrow> layout \<Rightarrow> files \<Rightarrow> err + bool \<times> string" where
  "gm_open e l fs = open_session (le_open_file e) (le_decode e) fst (ly_session l) fs"

text \<open>\<open>dispatch\<close> with the pump as its subscriber.\<close>

definition live_event :: "'z rpc_calls \<Rightarrow> string \<Rightarrow> gm_event \<Rightarrow> live \<Rightarrow> live" where
  "live_event E session ev s = (let save = s\<lparr>lv_files := fst (save_auth (rv_pair (here E)) session (lv_files s))\<rparr>;
       s1 = (case ev of AuthTokenRefreshed \<Rightarrow> save | PairSuccessful \<Rightarrow> save | EvSettings sims \<Rightarrow> s\<lparr>h_settings := Some sims\<rparr> | _ \<Rightarrow> s) in
     s1\<lparr>h_pump := pump_handle (at E 0) (status_name (here E)) ev (h_pump s1)\<rparr>)"

fun live_events :: "'z rpc_calls \<Rightarrow> nat \<Rightarrow> string \<Rightarrow> gm_event list \<Rightarrow> live \<Rightarrow> live" where
  "live_events E i session [] s = s"
| "live_events E i session (ev # evs) s = live_events E (Suc i) session evs (live_event (at E i) session ev s)"

text \<open>
  The opening the commands share: layout, store, session, pump, connection. \<open>opened\<close> wraps the store's error,
  \<open>banner\<close> is printed before connecting, and \<open>fail\<close> makes a result of an error.
\<close>

definition with_client :: "'p cli_env_scheme \<Rightarrow> 'g globals_scheme \<Rightarrow> 'z live_calls \<Rightarrow> (err \<Rightarrow> err) \<Rightarrow> out list \<Rightarrow> (err \<Rightarrow> 'e)
    \<Rightarrow> (layout \<Rightarrow> live \<Rightarrow> live \<times> out list \<times> 'e) \<Rightarrow> live \<Rightarrow> live \<times> out list \<times> 'e" where
  "with_client v g E opened banner fail run s = (case resolve_layout v g of
     Inl err \<Rightarrow> (s, [], fail err)
   | Inr l \<Rightarrow> (case ce_open v (ly_database l) of
       Some err \<Rightarrow> (s, [], fail (opened err))
     | None \<Rightarrow> (case gm_open (here E) l (lv_files s) of
         Inl err \<Rightarrow> (s, [], fail err)
       | Inr auth \<Rightarrow> (let s1 = live_events (at E 0) 0 (ly_session l) (le_events (here E)) s in
           case le_connect (here E) of
             Some t \<Rightarrow> (s1, banner, fail (Wrap ''connect'' (Driver t)))
           | None \<Rightarrow> (case run l s1 of (s2, out, r) \<Rightarrow> (s2, banner @ out, r))))))"

text \<open>The deferred \<open>Disconnect\<close>.\<close>

definition closing :: "live \<times> out list \<times> 'e \<Rightarrow> live \<times> out list \<times> 'e" where
  "closing r = (logged CallDisconnect (fst r), snd r)"

section \<open>Sending\<close>

definition run_connected :: "'p cli_env_scheme \<Rightarrow> 'g globals_scheme \<Rightarrow> 'z live_calls \<Rightarrow> (live \<Rightarrow> live \<times> printed) \<Rightarrow> live
    \<Rightarrow> live \<times> printed" where
  "run_connected v g E run = with_client v g E (\<lambda>err. err) [] Some (\<lambda>l s. closing (case le_ready (here E) of
     Some (Some t) \<Rightarrow> (s, [], Some (Wrap ''wait for ready'' (Driver t)))
   | _ \<Rightarrow> run s))"

definition sent_output :: "'g globals_scheme \<Rightarrow> send_text_result \<Rightarrow> out list" where
  "sent_output g res = (if gf_json g then [OutJson (json_map [(''sent'', JBool True), (''conversation_id'', JStr (st_conversation_id res)),
       (''message_id'', JStr (st_message_id res)), (''tmp_id'', JStr (st_tmp_id res))])]
     else [ErrLine (''Sent to '' @ st_conversation_id res @ '' (message_id '' @ st_message_id res @ '', tmp_id '' @ st_tmp_id res @ '')'')])"

definition send_text_cmd :: "'p cli_env_scheme \<Rightarrow> 'g globals_scheme \<Rightarrow> 'z live_calls \<Rightarrow> string \<Rightarrow> string \<Rightarrow> string \<Rightarrow> live
    \<Rightarrow> live \<times> printed" where
  "send_text_cmd v g E to message reply s =
     (if to = '''' \<or> message = '''' then (s, [], Some (Msg ''--to and --message are required''))
      else (case require_writable g of
          Some err \<Rightarrow> (s, [], Some err)
        | None \<Rightarrow> run_connected v g E (\<lambda>s. case send_text (here (at E 1)) to message reply s of
              (s1, Inl err) \<Rightarrow> (s1, [], Some err)
            | (s1, Inr res) \<Rightarrow> (s1, sent_output g res, None)) s))"

definition send_react_cmd :: "'p cli_env_scheme \<Rightarrow> 'g globals_scheme \<Rightarrow> 'z live_calls \<Rightarrow> string \<Rightarrow> string \<Rightarrow> bool \<Rightarrow> bool \<Rightarrow> live
    \<Rightarrow> live \<times> printed" where
  "send_react_cmd v g E mid emoji remove switch s =
     (if mid = '''' \<or> emoji = '''' then (s, [], Some (Msg ''--message and --emoji are required''))
      else if remove \<and> switch then (s, [], Some (Msg ''--remove and --switch are mutually exclusive''))
      else (case require_writable g of
          Some err \<Rightarrow> (s, [], Some err)
        | None \<Rightarrow> (let action = (if remove then reaction_remove else if switch then reaction_switch else reaction_add) in
            run_connected v g E (\<lambda>s. case send_reaction (here (at E 1)) mid emoji action s of
                (s1, Some err) \<Rightarrow> (s1, [], Some err)
              | (s1, None) \<Rightarrow> (s1, if gf_json g
                  then [OutJson (json_map [(''reacted'', JBool True), (''message_id'', JStr mid), (''emoji'', JStr emoji)])]
                  else [ErrLine (''Reacted '' @ emoji @ '' on '' @ mid)], None)) s)))"

section \<open>History\<close>

definition print_backfill :: "'g globals_scheme \<Rightarrow> backfill_result \<Rightarrow> out list" where
  "print_backfill g r = (if gf_json g then [OutJson (backfill_json r)]
     else [ErrLine (''Backfill for '' @ bf_conv r @ '': fetched '' @ itoa (bf_fetched r) @ '' message record(s), chat messages ''
       @ itoa (bf_before r) @ '' -> '' @ itoa (bf_after r) @ '' (+'' @ itoa (bf_added r) @ ''), using '' @ itoa (bf_requests r) @ '' request(s)'')])"

definition backfill_output :: "'g globals_scheme \<Rightarrow> live \<times> backfill_result \<times> err option \<Rightarrow> live \<times> printed" where
  "backfill_output g r = (case r of
     (s, res, Some err) \<Rightarrow> (s, [], Some err)
   | (s, res, None) \<Rightarrow> (s, print_backfill g res, None))"

text \<open>The conversation is taken from the phone, or must be stored.\<close>

definition seed_conversation :: "'z live_calls \<Rightarrow> string \<Rightarrow> live \<Rightarrow> live \<times> err option" where
  "seed_conversation E chat s0 = (let s = logged (CallGetConversation chat) s0; e = here E;
       stored = (\<lambda>err. case get_conversation (here (at E 1)) chat (h_db s) of Inr c \<Rightarrow> (s, None) | Inl _ \<Rightarrow> (s, Some err)) in
     case ph_get_conversation e chat of
       Inl t \<Rightarrow> stored (Wrap (''get conversation '' @ chat) (Driver t))
     | Inr conv \<Rightarrow>
         if le_missing e chat then stored (Msg (''conversation '' @ chat @ '' is not in the local store; run `gmcli sync` first''))
         else (s\<lparr>h_pump := pump_handle (at E 0) (status_name e) (EvConversation conv) (h_pump s)\<rparr>, None))"

definition backfill_body :: "'z live_calls \<Rightarrow> string \<Rightarrow> int \<Rightarrow> int \<Rightarrow> live \<Rightarrow> live \<times> out list \<times> (err + backfill_result)" where
  "backfill_body E chat requests n s = (case seed_conversation (at E 1) chat s of
     (s1, Some err) \<Rightarrow> (s1, [], Inl err)
   | (s1, None) \<Rightarrow> (case backfill (at E 2) chat requests n s1 of
         (s2, res, Some err) \<Rightarrow> (s2, [], Inl err)
       | (s2, res, None) \<Rightarrow> (s2, [], Inr res)))"

definition run_history_backfill :: "'p cli_env_scheme \<Rightarrow> 'g globals_scheme \<Rightarrow> 'z live_calls \<Rightarrow> string \<Rightarrow> int \<Rightarrow> int \<Rightarrow> live
    \<Rightarrow> live \<times> out list \<times> (err + backfill_result)" where
  "run_history_backfill v g E chat requests n s =
     with_client v g E (Wrap ''open store'') [] Inl (\<lambda>l s. closing (backfill_body E chat requests n s)) s"

definition history_backfill_cmd :: "'p cli_env_scheme \<Rightarrow> 'g globals_scheme \<Rightarrow> 'z live_calls \<Rightarrow> string \<Rightarrow> int \<Rightarrow> int \<Rightarrow> live
    \<Rightarrow> live \<times> printed" where
  "history_backfill_cmd v g E chat requests n s =
     (if chat = '''' then (s, [], Some (Msg ''--chat is required''))
      else (case run_history_backfill v g E chat requests n s of
          (s1, out, Inl err) \<Rightarrow> (s1, out, Some err)
        | (s1, out, Inr res) \<Rightarrow> (s1, out @ print_backfill g res, None)))"

definition lookup_body :: "'g globals_scheme \<Rightarrow> 'z live_calls \<Rightarrow> string \<Rightarrow> int \<Rightarrow> int \<Rightarrow> live \<Rightarrow> live \<times> printed" where
  "lookup_body g E phone requests n s = (case lookup_conversation (at E 1) phone s of
     (s1, Inl err) \<Rightarrow> (s1, [], Some err)
   | (s1, Inr conv) \<Rightarrow> (let r = backfill_output g (backfill (at E 2) (gc_id conv) requests n s1) in
       (fst r, ErrLine (''Found conversation: '' @ gc_name conv @ '' (ID: '' @ gc_id conv @ '')'') # fst (snd r), snd (snd r))))"

definition history_lookup_cmd :: "'p cli_env_scheme \<Rightarrow> 'g globals_scheme \<Rightarrow> 'z live_calls \<Rightarrow> string \<Rightarrow> int \<Rightarrow> int \<Rightarrow> live
    \<Rightarrow> live \<times> printed" where
  "history_lookup_cmd v g E phone requests n s =
     (if phone = '''' then (s, [], Some (Msg ''--phone is required''))
      else with_client v g E (Wrap ''open store'') [] Some (\<lambda>l s. closing (lookup_body g E phone requests n s)) s)"

section \<open>Media\<close>

definition ext_from_mime :: "'z rpc_env_scheme \<Rightarrow> string \<Rightarrow> string" where
  "ext_from_mime e mt = (if mt = '''' then '''' else (case rv_extensions e mt of [] \<Rightarrow> '''' | ext # _ \<Rightarrow> ext))"

definition resolve_media_out :: "'p cli_env_scheme \<Rightarrow> 'g globals_scheme \<Rightarrow> 'z live_env_scheme \<Rightarrow> string \<Rightarrow> message \<Rightarrow> err + string" where
  "resolve_media_out v g e out m = (let name = msg_id m @ ext_from_mime e (coalesce (msg_mime m) '''') in
     case resolve_layout v g of
       Inl err \<Rightarrow> Inl err
     | Inr l \<Rightarrow> if out = '''' then Inr (path_join [ly_media l, name])
         else if le_is_dir e out then Inr (path_join [out, name]) else Inr out)"

definition save_download :: "'p cli_env_scheme \<Rightarrow> 'g globals_scheme \<Rightarrow> 'z live_env_scheme \<Rightarrow> string \<Rightarrow> message \<Rightarrow> string \<Rightarrow> live
    \<Rightarrow> live \<times> printed" where
  "save_download v g e out m bytes s = (case resolve_media_out v g e out m of
     Inl err \<Rightarrow> (s, [], Some err)
   | Inr path \<Rightarrow> (case rv_write_file e path of
       Some (t, left) \<Rightarrow> (s\<lparr>lv_files := (lv_files s)(path := left)\<rparr>, [], Some (Wrap (''write '' @ path) (Driver t)))
     | None \<Rightarrow> (s\<lparr>lv_files := (lv_files s)(path \<mapsto> bytes)\<rparr>,
         if gf_json g then [OutJson (json_map [(''message_id'', JStr (msg_id m)), (''path'', JStr path),
             (''bytes'', JInt (int (length bytes))), (''mime_type'', JStr (coalesce (msg_mime m) ''''))])]
         else [ErrLine (''Downloaded '' @ itoa (int (length bytes)) @ '' bytes to '' @ path)], None)))"

definition download_body :: "'p cli_env_scheme \<Rightarrow> 'g globals_scheme \<Rightarrow> 'z live_calls \<Rightarrow> string \<Rightarrow> string \<Rightarrow> live \<Rightarrow> live \<times> printed" where
  "download_body v g E mid out s = (case get_message (here (at E 1)) mid (h_db s) of
     Inl err \<Rightarrow> (s, [], Some (if err_is err ErrNotFound then Msg (''no message with id '' @ mid @ '' in local store; sync first'') else err))
   | Inr m \<Rightarrow>
       if msg_media m = None \<or> msg_media m = Some '''' then (s, [], Some (Msg (''message '' @ mid @ '' has no attached media'')))
       else if msg_key m = '''' then (s, [], Some (Msg (''message '' @ mid
         @ '' has a media id but no decryption key (was the media stripped during sync?)'')))
       else (case download_media (here (at E 2)) (the (msg_media m)) (msg_key m) s of
           (s1, Inl err) \<Rightarrow> (s1, [], Some (Wrap ''download'' err))
         | (s1, Inr bytes) \<Rightarrow> save_download v g (here E) out m bytes s1))"

definition media_download_cmd :: "'p cli_env_scheme \<Rightarrow> 'g globals_scheme \<Rightarrow> 'z live_calls \<Rightarrow> string \<Rightarrow> string \<Rightarrow> live
    \<Rightarrow> live \<times> printed" where
  "media_download_cmd v g E mid out s =
     (if mid = '''' then (s, [], Some (Msg ''--message is required''))
      else run_connected v g E (download_body v g E mid out) s)"

section \<open>Sync\<close>

definition drop_fatal :: "live \<Rightarrow> live" where
  "drop_fatal s = s\<lparr>h_pump := (h_pump s)\<lparr>p_fatal := tl (p_fatal (h_pump s))\<rparr>\<rparr>"

text \<open>
  What may happen while the connection is kept: an event of the phone, a tick of the heartbeat, the loop taking a
  fatal error, an interrupt. The loop has no result while it runs.
\<close>

datatype follow_event = FollowEvent gm_event | FollowTick | FollowFatal | FollowCancelled

fun follow :: "'z live_calls \<Rightarrow> nat \<Rightarrow> string \<Rightarrow> follow_event list \<Rightarrow> live \<Rightarrow> live \<times> out list \<times> err option option" where
  "follow E i session [] s = (s, [], None)"
| "follow E i session (FollowEvent ev # ws) s = follow E (Suc i) session ws (live_event (at E i) session ev s)"
| "follow E i session (FollowTick # ws) s = follow E (Suc i) session ws (put_db (fst (touch_sync (here (at E i)) (h_db s))) s)"
| "follow E i session (FollowFatal # ws) s = (case p_fatal (h_pump s) of
     [] \<Rightarrow> follow E (Suc i) session ws s
   | err # _ \<Rightarrow> closing (drop_fatal s, [], Some (Some err)))"
| "follow E i session (FollowCancelled # ws) s = closing (s, [ErrLine ''Disconnecting...''], Some None)"

definition sync_cmd :: "'p cli_env_scheme \<Rightarrow> 'g globals_scheme \<Rightarrow> 'z live_calls \<Rightarrow> bool \<Rightarrow> follow_event list \<Rightarrow> live
    \<Rightarrow> live \<times> out list \<times> err option option" where
  "sync_cmd v g E stay ws s = with_client v g E (Wrap ''open store'') [ErrLine ''Connecting to Google Messages relay...''] (\<lambda>err. Some (Some err))
     (\<lambda>l s. let s1 = initial_import (at E 1) s in
       if \<not> stay then closing (case p_fatal (h_pump s1) of
            err # _ \<Rightarrow> (drop_fatal s1, [], Some (Some err))
          | [] \<Rightarrow> (s1, [ErrLine ''Initial sync complete. Pass --follow to stay connected.''], Some None))
       else (case follow (at E 2) 0 (ly_session l) ws s1 of
            (s2, out, r) \<Rightarrow> (s2, ErrLine ''Connected. Streaming events. Ctrl-C to stop.'' # out, r))) s"

section \<open>The start of serve\<close>

text \<open>The flags of \<open>serve\<close>; those that \<open>--auto\<close> changes are absent when they were not given.\<close>

record serve_flags =
  sf_auto :: bool
  sf_read_only :: "bool option"
  sf_idle_exit :: "int option"
  sf_sends :: string
  sf_socket :: string
  sf_offline :: bool

definition serve_deps :: "serve_flags \<Rightarrow> layout \<Rightarrow> string \<Rightarrow> string \<Rightarrow> deps" where
  "serve_deps f l version mode = \<lparr>dp_client = \<not> sf_offline f, dp_pump = \<not> sf_offline f, dp_version = version, dp_mode = mode,
     dp_live_timeout = 0, dp_session = ly_session l, dp_media_dir = ly_media l, dp_idle_exit = serve_idle_exit (sf_auto f) (sf_idle_exit f)\<rparr>"

text \<open>\<open>rpc.Listen\<close>: what lies at the path is taken for a stale socket unless a daemon answers on it. A listener that
  is closed removes its socket.\<close>

definition rpc_listen :: "'z live_env_scheme \<Rightarrow> string \<Rightarrow> files \<Rightarrow> files \<times> err option" where
  "rpc_listen e path fs0 = (let bind_to = (\<lambda>fs. case le_listen e path of
         Some t \<Rightarrow> (fs, Some (Wrap (''listen on '' @ path) (Driver t)))
       | None \<Rightarrow> (case le_chmod e path of
           Some t \<Rightarrow> (fs(path := None), Some (Wrap (''chmod socket '' @ path) (Driver t)))
         | None \<Rightarrow> (fs(path \<mapsto> ''''), None))) in
     if le_exists e path then
       (if le_answers e path then (fs0, Some (Msg (''another gmcli daemon is already listening on '' @ path)))
        else (case le_remove e path of
            Some t \<Rightarrow> (fs0, Some (Wrap (''remove stale socket '' @ path) (Driver t)))
          | None \<Rightarrow> bind_to (fs0(path := None))))
     else bind_to fs0)"

definition serve_socket :: "serve_flags \<Rightarrow> layout \<Rightarrow> string" where
  "serve_socket f l = (if sf_socket f = '''' then ly_socket l else sf_socket f)"

text \<open>
  Up to the line that announces the socket: the daemon that is then running. What follows, connecting and the import
  included, are steps of the daemon.
\<close>

definition serve_start :: "'p cli_env_scheme \<Rightarrow> 'g globals_scheme \<Rightarrow> 'z live_calls \<Rightarrow> string \<Rightarrow> serve_flags \<Rightarrow> live
    \<Rightarrow> out list \<times> (err + deps \<times> daemon)" where
  "serve_start v g E version f s =
     (case serve_mode (here E) (serve_read_only (sf_auto f) (sf_read_only f)) (sf_sends f) of
       Inl t \<Rightarrow> ([], Inl (Msg t))
     | Inr mode \<Rightarrow> (case resolve_layout v g of
         Inl err \<Rightarrow> ([], Inl err)
       | Inr l \<Rightarrow> (case ce_open v (ly_database l) of
           Some err \<Rightarrow> ([], Inl (Wrap ''open store'' err))
         | None \<Rightarrow> (case (if sf_offline f then None else (case gm_open (here E) l (lv_files s) of Inl err \<Rightarrow> Some err | Inr _ \<Rightarrow> None)) of
             Some err \<Rightarrow> ([], Inl err)
           | None \<Rightarrow> (let dp = serve_deps f l version mode; sock = serve_socket f l in
               case rpc_listen (here E) sock (lv_files s) of
                 (fs, Some err) \<Rightarrow> ([], Inl err)
               | (fs, None) \<Rightarrow> ([ErrLine (''Daemon ready. RPC socket: '' @ sock @ '' (send mode: '' @ mode @ ''). Ctrl-C to stop.'')],
                   Inr (dp, Running (new_server dp (host.truncate s) fs) (dp_pump dp))))))))"

end
