(* ===== verification/Cli_Admin.thy ===== *)
theory Cli_Admin
  imports Cli_Live
begin

text \<open>
  The commands around the daemon and the installation: \<open>approvals\<close>, which calls the daemon; \<open>auth\<close>, which stops it and
  pairs anew; \<open>doctor\<close> and \<open>version\<close>; and what \<open>main\<close> and the logger make of a command's error and flags.
\<close>

section \<open>Approvals\<close>

definition approval_opts :: "'g globals_scheme \<Rightarrow> start_opts" where
  "approval_opts g = \<lparr>so_log_level = gf_log_level g, so_offline = False, so_timeout = 0, so_idle_exit = 0\<rparr>"

definition dial_daemon :: "'p mcp_env_scheme \<Rightarrow> 'g globals_scheme \<Rightarrow> (err + caller) option" where
  "dial_daemon w g = (case resolve_layout w g of
     Inl err \<Rightarrow> Some (Inl err)
   | Inr l \<Rightarrow> map_option (\<lambda>r. case snd r of Some err \<Rightarrow> Inl err | None \<Rightarrow> rpc_dial w l)
       (ensure_running w l (approval_opts g) (poll_fuel (approval_opts g))))"

text \<open>A call of a dialled daemon, and what is printed of its answer; no value while the daemon is still awaited.\<close>

definition call_daemon :: "'p mcp_env_scheme \<Rightarrow> 'g globals_scheme \<Rightarrow> (json \<Rightarrow> 'a option) \<Rightarrow> string \<Rightarrow> json \<Rightarrow> ('a \<Rightarrow> out list)
    \<Rightarrow> printed option" where
  "call_daemon w g dec m params show = map_option (\<lambda>r. case r of
       Inl err \<Rightarrow> ([], Some err)
     | Inr call \<Rightarrow> (case call_into w dec (call m (Some params)) of Inl err \<Rightarrow> ([], Some err) | Inr x \<Rightarrow> (show x, None)))
     (dial_daemon w g)"

text \<open>A slice: null leaves it nil.\<close>

definition decode_approvals :: "json \<Rightarrow> approval list option option" where
  "decode_approvals v = (case v of
     JNull \<Rightarrow> Some None
   | JArr vs \<Rightarrow> if list_all (\<lambda>x. decode_approval x \<noteq> None) vs then Some (Some (map (the \<circ> decode_approval) vs)) else None
   | _ \<Rightarrow> None)"

definition approval_cells :: "'g globals_scheme \<Rightarrow> approval \<Rightarrow> string list" where
  "approval_cells g a = [ap_id a, ap_status a, ap_conv a, ap_by a, gf_minute g (ap_created_at a), truncated g (ap_body a) 60]"

definition approvals_output :: "'g globals_scheme \<Rightarrow> approval list option \<Rightarrow> out list" where
  "approvals_output g r = (let as = (case r of None \<Rightarrow> [] | Some as \<Rightarrow> as) in
     if gf_json g then [OutJson (case r of None \<Rightarrow> JNull | Some as \<Rightarrow> JArr (map approval_json as))]
     else if as = [] then [ErrLine ''No approvals.'']
     else [OutTable [''APPROVAL'', ''STATUS'', ''CONV'', ''REQUESTED BY'', ''CREATED'', ''BODY''] (map (approval_cells g) as)])"

definition approvals_list_cmd :: "'p mcp_env_scheme \<Rightarrow> 'g globals_scheme \<Rightarrow> string \<Rightarrow> int \<Rightarrow> printed option" where
  "approvals_list_cmd w g status limit = call_daemon w g decode_approvals ''approvals.list''
     (json_map [(''status'', JStr status), (''limit'', JInt limit)]) (approvals_output g)"

definition approvals_approve_cmd :: "'p mcp_env_scheme \<Rightarrow> 'g globals_scheme \<Rightarrow> string \<Rightarrow> printed option" where
  "approvals_approve_cmd w g aid = (case require_writable g of
     Some err \<Rightarrow> Some ([], Some err)
   | None \<Rightarrow> call_daemon w g decode_approval ''approvals.approve'' (json_map [(''approval_id'', JStr aid)])
       (\<lambda>a. if gf_json g then [OutJson (approval_json a)]
         else [ErrLine (''Approved and sent to '' @ ap_conv a @ '' (message_id '' @ coalesce (ap_message_id a) '''' @ '')'')]))"

definition approvals_deny_cmd :: "'p mcp_env_scheme \<Rightarrow> 'g globals_scheme \<Rightarrow> string \<Rightarrow> string \<Rightarrow> printed option" where
  "approvals_deny_cmd w g aid reason = call_daemon w g decode_approval ''approvals.deny''
     (json_map [(''approval_id'', JStr aid), (''reason'', JStr reason)])
     (\<lambda>a. if gf_json g then [OutJson (approval_json a)] else [ErrLine (''Denied '' @ ap_id a)])"

section \<open>Pairing\<close>

text \<open>\<open>stopRunningDaemon\<close>: the clock at each reading and whether the socket still answers at each try, in
  nanoseconds; the call it makes first is part of its result.\<close>

record stop_env = mcp_env +
  sp_now :: "nat \<Rightarrow> int"
  sp_up :: "nat \<Rightarrow> bool"

fun wait_gone :: "'p stop_env_scheme \<Rightarrow> int \<Rightarrow> nat \<Rightarrow> nat \<Rightarrow> bool option" where
  "wait_gone w deadline 0 k = None"
| "wait_gone w deadline (Suc fuel) k = (if \<not> sp_now w (Suc k) < deadline then Some False
     else if \<not> sp_up w k then Some True else wait_gone w deadline fuel (Suc k))"

definition stop_wait :: int where
  "stop_wait = 5 * 1000000000"

definition stop_pause :: int where
  "stop_pause = 200 * 1000000"

definition stop_running_daemon :: "'p stop_env_scheme \<Rightarrow> layout \<Rightarrow> nat \<Rightarrow> (string list \<times> out list) option" where
  "stop_running_daemon w l fuel = (case rpc_dial w l of
     Inl err \<Rightarrow> Some ([], [])
   | Inr call \<Rightarrow> map_option (\<lambda>gone. ([''daemon.shutdown''],
         [ErrLine ''Stopped the running gmkit daemon (it restarts on next use with the new session).'']))
       (wait_gone w (sp_now w 0 + stop_wait) fuel 0))"

definition qr_lines :: "'z live_env_scheme \<Rightarrow> string \<Rightarrow> out list" where
  "qr_lines e url = [ErrLine ''Scan this QR code from Google Messages -> Device pairing:'', ErrLine '''', ErrLine (le_qr e url), ErrLine '''',
     ErrLine ''Or paste this URL into a QR generator:'', ErrLine (''   '' @ url), ErrLine '''', ErrLine ''Waiting for pairing... (Ctrl-C to cancel)'']"

definition emoji_lines :: "string \<Rightarrow> out list" where
  "emoji_lines emoji = [ErrLine (''On your phone, tap this emoji in Google Messages: '' @ emoji),
     ErrLine ''Waiting for confirmation... (Ctrl-C to cancel)'']"

definition paired_line :: "pair_result \<Rightarrow> out" where
  "paired_line res = ErrLine (''Paired. phone_id='' @ pr_phone res @ '' session='' @ pr_path res)"

definition auth_cmd :: "'p stop_env_scheme \<Rightarrow> 'g globals_scheme \<Rightarrow> 'z live_env_scheme \<Rightarrow> nat \<Rightarrow> files \<Rightarrow> (files \<times> printed) option" where
  "auth_cmd w g e fuel fs = (case resolve_layout w g of
     Inl err \<Rightarrow> Some (fs, [], Some err)
   | Inr l \<Rightarrow> map_option (\<lambda>stopped. case pair (rv_pair e) (ly_session l) fs of
         (fs', shown, r) \<Rightarrow> (let out = snd stopped @ [ErrLine ''Requesting pairing token from Google...''] @ concat (map (qr_lines e) shown) in
           case r of
             Inl err \<Rightarrow> (fs', out, Some (Wrap ''pair'' err))
           | Inr res \<Rightarrow> (fs', out @ [paired_line res, ErrLine (''All set '' @ long_dash
               @ '' launch gmtui (or any gmcli command); the daemon starts itself with the new session.'')], None)))
       (stop_running_daemon w l fuel))"

definition read_google_cookie_input :: "'z live_env_scheme \<Rightarrow> string \<Rightarrow> (err + (string \<times> string) list) outcome" where
  "read_google_cookie_input e path = (case le_input e path of
     Inl t \<Rightarrow> Returns (Inl (Wrap ''read cookie input'' (Driver t)))
   | Inr text \<Rightarrow> (case parse_google_cookie_input e (rv_parse_text e) text of
       Panics \<Rightarrow> Panics
     | Returns (Inl t) \<Rightarrow> Returns (Inl (Msg t))
     | Returns (Inr cookies) \<Rightarrow> Returns (Inr (cookie_entries cookies))))"

definition auth_google_cmd :: "'p stop_env_scheme \<Rightarrow> 'g globals_scheme \<Rightarrow> 'z live_env_scheme \<Rightarrow> nat \<Rightarrow> string \<Rightarrow> files
    \<Rightarrow> (files \<times> printed) outcome option" where
  "auth_google_cmd w g e fuel path fs = (case resolve_layout w g of
     Inl err \<Rightarrow> Some (Returns (fs, [], Some err))
   | Inr l \<Rightarrow> (case read_google_cookie_input e path of
       Panics \<Rightarrow> Some Panics
     | Returns (Inl err) \<Rightarrow> Some (Returns (fs, [], Some err))
     | Returns (Inr cookies) \<Rightarrow> map_option (\<lambda>stopped. case pair_google (rv_pair e) (ly_session l) cookies fs of
           (fs', shown, r) \<Rightarrow> (let out = snd stopped @ [ErrLine ''Starting Google account pairing...''] @ concat (map emoji_lines shown) in
             case r of
               Inl err \<Rightarrow> Returns (fs', out, Some (Wrap ''pair google'' err))
             | Inr res \<Rightarrow> Returns (fs', out @ [paired_line res], None)))
         (stop_running_daemon w l fuel)))"

section \<open>Doctor\<close>

record doctor_report =
  dr_root :: string
  dr_session :: bool
  dr_session_path :: string
  dr_paired :: bool
  dr_phone :: string
  dr_opens :: bool
  dr_version :: nat
  dr_conversations :: nat
  dr_messages :: nat
  dr_contacts :: nat
  dr_event :: int
  dr_connect :: int
  dr_activity :: int
  dr_issues :: "string list"

definition empty_report :: doctor_report where
  "empty_report = \<lparr>dr_root = '''', dr_session = False, dr_session_path = '''', dr_paired = False, dr_phone = '''', dr_opens = False,
     dr_version = 0, dr_conversations = 0, dr_messages = 0, dr_contacts = 0, dr_event = zero_time_ms, dr_connect = zero_time_ms,
     dr_activity = zero_time_ms, dr_issues = []\<rparr>"

definition doctor_issue :: "string \<Rightarrow> doctor_report \<Rightarrow> doctor_report" where
  "doctor_issue t r = r\<lparr>dr_issues := dr_issues r @ [t]\<rparr>"

definition no_session_text :: string where
  "no_session_text = ''no session.json '' @ long_dash @ '' run `gmcli auth` to pair''"

text \<open>\<open>AuthSnapshot\<close>: the session copied by way of JSON, which may fail.\<close>

definition auth_snapshot :: "'z live_env_scheme \<Rightarrow> 'a \<Rightarrow> err + 'a" where
  "auth_snapshot e auth = (case le_snapshot e of Some t \<Rightarrow> Inl (Driver t) | None \<Rightarrow> Inr auth)"

definition doctor_session :: "'z live_env_scheme \<Rightarrow> layout \<Rightarrow> files \<Rightarrow> doctor_report \<Rightarrow> doctor_report" where
  "doctor_session e l fs r = (case le_stat e of
     Some t \<Rightarrow> doctor_issue (''stat session: '' @ t) r
   | None \<Rightarrow> if fs (ly_session l) = None then doctor_issue no_session_text r
       else (let r1 = r\<lparr>dr_session := True\<rparr> in
         case gm_open e l fs of
           Inl err \<Rightarrow> doctor_issue (''open session: '' @ err_text err) r1
         | Inr auth \<Rightarrow> (case auth_snapshot e auth of
             Inr (True, phone) \<Rightarrow> r1\<lparr>dr_paired := True, dr_phone := phone\<rparr>
           | _ \<Rightarrow> r1)))"

definition or_none :: "err + nat \<Rightarrow> nat" where
  "or_none r = (case r of Inl _ \<Rightarrow> 0 | Inr n \<Rightarrow> n)"

definition doctor_store :: "'p cli_env_scheme \<Rightarrow> 'z calls \<Rightarrow> layout \<Rightarrow> db \<Rightarrow> doctor_report \<Rightarrow> doctor_report" where
  "doctor_store v E l d r = (case ce_open v (ly_database l) of
     Some err \<Rightarrow> doctor_issue (''open store: '' @ err_text err) r
   | None \<Rightarrow> (let r1 = r\<lparr>dr_opens := True, dr_version := or_none (current_version (here (at E 0)) d),
         dr_conversations := or_none (count_conversations (here (at E 1)) d), dr_messages := or_none (count_messages (here (at E 2)) d),
         dr_contacts := or_none (count_contacts (here (at E 3)) d)\<rparr> in
       case sync_state (here (at E 4)) d of
         Inl _ \<Rightarrow> r1
       | Inr sy \<Rightarrow> r1\<lparr>dr_event := last_event_ts sy, dr_connect := last_connect_ts sy, dr_activity := sync_updated_at sy\<rparr>))"

definition run_doctor :: "'p cli_env_scheme \<Rightarrow> 'g globals_scheme \<Rightarrow> 'z live_calls \<Rightarrow> files \<Rightarrow> db \<Rightarrow> doctor_report" where
  "run_doctor v g E fs d = (case resolve_layout v g of
     Inl err \<Rightarrow> doctor_issue (''resolve layout: '' @ err_text err) empty_report
   | Inr l \<Rightarrow> doctor_store v (at E 0) l d (doctor_session (here E) l fs
       (empty_report\<lparr>dr_root := ly_root l, dr_session_path := ly_session l\<rparr>)))"

definition omit_zero :: "string \<Rightarrow> nat \<Rightarrow> (string \<times> json) list" where
  "omit_zero name n = (if n = 0 then [] else [(name, JInt (int n))])"

definition doctor_json :: "'g globals_scheme \<Rightarrow> doctor_report \<Rightarrow> json" where
  "doctor_json g r = JObj ([(''store_root'', JStr (dr_root r)), (''session_exists'', JBool (dr_session r)),
       (''session_path'', JStr (dr_session_path r)), (''paired'', JBool (dr_paired r))] @ omit_empty ''phone_id'' (dr_phone r)
     @ [(''store_opens'', JBool (dr_opens r))] @ omit_zero ''schema_version'' (dr_version r)
     @ omit_zero ''conversations'' (dr_conversations r) @ omit_zero ''messages'' (dr_messages r) @ omit_zero ''contacts'' (dr_contacts r)
     @ [(''last_event_time'', JStr (gf_json_time g (dr_event r))), (''last_connect_time'', JStr (gf_json_time g (dr_connect r))),
        (''last_sync_activity_time'', JStr (gf_json_time g (dr_activity r)))]
     @ (if dr_issues r = [] then [] else [(''issues'', JArr (map JStr (dr_issues r)))]))"

definition doctor_time :: "'z live_env_scheme \<Rightarrow> string \<Rightarrow> int \<Rightarrow> out" where
  "doctor_time e label ms = OutLine (label @ (if ms > 0 then le_rfc3339 e ms else ''(none yet)''))"

definition render_doctor :: "'z live_env_scheme \<Rightarrow> doctor_report \<Rightarrow> out list" where
  "render_doctor e r =
     [OutLine ''gmcli doctor'', OutLine ''============'', OutLine (''  store root:       '' @ dr_root r),
      OutLine (''  session present:  '' @ go_bool (dr_session r)), OutLine (''  paired:           '' @ go_bool (dr_paired r))]
     @ non_empty_line ''  phone id:         '' (dr_phone r) @ [OutLine (''  store opens:      '' @ go_bool (dr_opens r))]
     @ (if dr_opens r then [OutLine (''  schema version:   '' @ itoa (int (dr_version r))),
          OutLine (''  conversations:    '' @ itoa (int (dr_conversations r))), OutLine (''  messages:         '' @ itoa (int (dr_messages r))),
          OutLine (''  contacts:         '' @ itoa (int (dr_contacts r)))] else [])
     @ [doctor_time e ''  last event:       '' (dr_event r), doctor_time e ''  last connect:     '' (dr_connect r),
        doctor_time e ''  last sync activity: '' (dr_activity r)]
     @ (if dr_issues r = [] then [] else [OutLine '''', OutLine ''Issues:''] @ map (\<lambda>i. OutLine (''  - '' @ i)) (dr_issues r))"

definition doctor_cmd :: "'p cli_env_scheme \<Rightarrow> 'g globals_scheme \<Rightarrow> 'z live_calls \<Rightarrow> files \<Rightarrow> db \<Rightarrow> printed" where
  "doctor_cmd v g E fs d = (let r = run_doctor v g E fs d in
     if gf_json g then ([OutJson (doctor_json g r)], None)
     else (render_doctor (here E) r, if dr_issues r = [] then None
       else Some (Msg (itoa (int (length (dr_issues r))) @ '' issue(s) detected''))))"

section \<open>The MCP server\<close>

text \<open>\<open>gmcli mcp\<close> up to the server's start: what it prints, and the error it ends with or whether the tools are served.\<close>

definition mcp_cmd :: "'p cli_env_scheme \<Rightarrow> 'w mcp_env_scheme \<Rightarrow> 'g globals_scheme \<Rightarrow> bool \<Rightarrow> (out list \<times> (err + layout)) option" where
  "mcp_cmd v w g no_autostart = (case resolve_layout v g of
     Inl err \<Rightarrow> Some ([], Inl err)
   | Inr l \<Rightarrow> (case ce_open v (ly_database l) of
       Some err \<Rightarrow> Some ([], Inl (Wrap ''open store'' err))
     | None \<Rightarrow> map_option (\<lambda>warning. (case warning of None \<Rightarrow> [] | Some t \<Rightarrow> [ErrLine t], Inr l)) (mcp_start w l no_autostart)))"

section \<open>Version\<close>

text \<open>\<open>debug.ReadBuildInfo\<close>, when the binary holds it.\<close>

record build =
  bi_go :: string
  bi_main :: string
  bi_settings :: "(string \<times> string) list"

record version_info =
  vi_version :: string
  vi_commit :: string
  vi_built :: string
  vi_go :: string

definition license_name :: string where
  "license_name = ''AGPL-3.0-or-later''"

definition license_notice :: string where
  "license_notice = ''gmcli is licensed under GNU AGPL-3.0. It depends on libgm from mautrix/gmessages (AGPL-3.0, Copyright (C) Tulir Asokan and contributors). See LICENSE and NOTICE in the source tree for full text.''"

definition build_setting :: "version_info \<Rightarrow> string \<times> string \<Rightarrow> version_info" where
  "build_setting info kv = (if fst kv = ''vcs.revision'' then info\<lparr>vi_commit := snd kv\<rparr>
     else if fst kv = ''vcs.time'' then info\<lparr>vi_built := snd kv\<rparr> else info)"

definition build_info :: "string \<Rightarrow> build option \<Rightarrow> version_info" where
  "build_info version b = (let info = \<lparr>vi_version = version, vi_commit = '''', vi_built = '''', vi_go = ''''\<rparr> in
     case b of
       None \<Rightarrow> info
     | Some bi \<Rightarrow> foldl build_setting (info\<lparr>vi_go := bi_go bi, vi_version := (if version = ''dev'' \<and> bi_main bi \<noteq> '''' \<and> bi_main bi \<noteq> ''(devel)''
         then bi_main bi else version)\<rparr>) (bi_settings bi))"

definition version_cmd :: "'g globals_scheme \<Rightarrow> string \<Rightarrow> build option \<Rightarrow> out list" where
  "version_cmd g version b = (let info = build_info version b in
     if gf_json g then [OutJson (JObj ([(''version'', JStr (vi_version info))] @ omit_empty ''commit'' (vi_commit info)
       @ omit_empty ''built'' (vi_built info) @ [(''go_version'', JStr (vi_go info)), (''license'', JStr license_name), (''notice'', JStr license_notice)]))]
     else [OutLine (''gmcli '' @ vi_version info)] @ non_empty_line ''  commit:  '' (vi_commit info) @ non_empty_line ''  built:   '' (vi_built info)
       @ [OutLine (''  go:      '' @ vi_go info), OutLine (''  license: '' @ license_name), OutLine '''', OutLine license_notice])"

section \<open>The process\<close>

text \<open>\<open>main\<close>: an error is printed and decides the exit status.\<close>

definition main_exit :: "printed \<Rightarrow> out list \<times> int" where
  "main_exit p = (case snd p of
     None \<Rightarrow> (fst p, 0)
   | Some err \<Rightarrow> (fst p @ [ErrLine (''gmcli: '' @ err_text err)], 1))"

text \<open>A logger: its level, and whether it writes JSON; \<open>parse\<close> is \<open>zerolog.ParseLevel\<close>.\<close>

definition new_logger :: "'u unicode_scheme \<Rightarrow> (string \<Rightarrow> string + 'l) \<Rightarrow> string \<Rightarrow> bool \<Rightarrow> err + 'l \<times> bool" where
  "new_logger u parse level js = (case parse level of
     Inl t \<Rightarrow> Inl (Wrap (''parse log level '' @ go_quote u level) (Driver t))
   | Inr lvl \<Rightarrow> Inr (lvl, js))"

definition default_logger :: "'u unicode_scheme \<Rightarrow> (string \<Rightarrow> string + 'l) \<Rightarrow> string \<Rightarrow> bool \<Rightarrow> ('l \<times> bool) option" where
  "default_logger u parse level js = (case new_logger u parse level js of
     Inr l \<Rightarrow> Some l
   | Inl _ \<Rightarrow> (case new_logger u parse ''info'' js of Inr l \<Rightarrow> Some l | Inl _ \<Rightarrow> None))"

end
