(* ===== verification/Mcp_Facts.thy ===== *)
theory Mcp_Facts
  imports Mcp
begin

text \<open>
  The MCP server together with the daemon: what a tool reports is what the daemon's store holds, and the
  reading tools answer what the daemon's methods answer.
\<close>

section \<open>An approval over the wire\<close>

lemma obj_values_perm:
  assumes "mset gs = mset fs" and "length (obj_values name fs) \<le> 1"
  shows "obj_values name gs = obj_values name fs"
proof -
  have "mset (obj_values name gs) = mset (obj_values name fs)" using assms(1) by (simp add: obj_values_def)
  with assms(2) show ?thesis
    by (cases "obj_values name fs"; cases "tl (obj_values name fs)") auto
qed

lemma any_object_perm:
  assumes "distinct (map fst fs)"
  shows "\<exists>gs. any_object fs = JObj gs \<and> mset gs = mset fs"
proof -
  have "map_of (rev fs) k = map_of fs k" for k
    using assms by (metis distinct_rev map_of_inject_set rev_map set_rev)
  then have "map (\<lambda>k. (k, the (map_of (rev fs) k))) (map fst fs) = map id fs"
    unfolding map_map using assms by (intro map_cong) (auto simp: map_of_is_SomeI)
  moreover have "mset (sort (remdups (map fst fs))) = mset (map fst fs)" using assms by (simp add: distinct_remdups_id)
  ultimately have "mset (map (\<lambda>k. (k, the (map_of (rev fs) k))) (sort (remdups (map fst fs)))) = mset fs"
    by (metis list.map_id mset_map)
  then show ?thesis by (simp add: any_object_def)
qed

definition clean_approval :: "approval \<Rightarrow> approval" where
  "clean_approval a = \<lparr>ap_id = clean_text (ap_id a), ap_conv = clean_text (ap_conv a), ap_body = clean_text (ap_body a),
     ap_reply = map_option clean_text (ap_reply a), ap_by = clean_text (ap_by a), ap_status = clean_text (ap_status a),
     ap_error = map_option clean_text (ap_error a), ap_message_id = map_option clean_text (ap_message_id a),
     ap_created_at = ap_created_at a, ap_updated_at = ap_updated_at a\<rparr>"

definition exact_number :: "int \<Rightarrow> bool" where
  "exact_number i \<longleftrightarrow> - (2 ^ 53) \<le> i \<and> i \<le> 2 ^ 53"

definition approval_wire :: "approval \<Rightarrow> (string \<times> json) list" where
  "approval_wire a = [(''approval_id'', JStr (clean_text (ap_id a))), (''conversation_id'', JStr (clean_text (ap_conv a))),
      (''body'', JStr (clean_text (ap_body a)))]
     @ opt_str ''reply_to_id'' (map_option clean_text (ap_reply a))
     @ [(''requested_by'', JStr (clean_text (ap_by a))), (''status'', JStr (clean_text (ap_status a)))]
     @ opt_str ''error'' (map_option clean_text (ap_error a)) @ opt_str ''message_id'' (map_option clean_text (ap_message_id a))
     @ [(''created_at_ms'', JInt (ap_created_at a)), (''updated_at_ms'', JInt (ap_updated_at a))]"

lemma clean_approval_names [simp]:
  "clean_text ''approval_id'' = ''approval_id''" "clean_text ''conversation_id'' = ''conversation_id''" "clean_text ''body'' = ''body''"
  "clean_text ''reply_to_id'' = ''reply_to_id''" "clean_text ''requested_by'' = ''requested_by''" "clean_text ''status'' = ''status''"
  "clean_text ''message_id'' = ''message_id''" "clean_text ''created_at_ms'' = ''created_at_ms''"
  "clean_text ''updated_at_ms'' = ''updated_at_ms''"
  by (rule clean_ascii; simp add: byte_of_def)+

lemma opt_str_map: "map f (opt_str n v) = (case v of None \<Rightarrow> [] | Some s \<Rightarrow> [f (n, JStr s)])"
  by (simp add: opt_str_def opt_field_def split: option.split)

lemma approval_through_wire:
  assumes "exact_number (ap_created_at a)" "exact_number (ap_updated_at a)"
  shows "through_any num (clean_json (approval_json a)) = any_object (approval_wire a)"
  using assms by (simp add: approval_json_def approval_wire_def opt_str_map exact_number_def)
    (simp add: opt_str_def opt_field_def split: option.split)

lemma approval_wire_distinct: "distinct (map fst (approval_wire a))"
  by (simp add: approval_wire_def opt_str_def opt_field_def split: option.split)

lemma fold_approval_names:
  "ascii_fold ''approval_id'' = ''approval_id''" "ascii_fold ''conversation_id'' = ''conversation_id''" "ascii_fold ''body'' = ''body''"
  "ascii_fold ''reply_to_id'' = ''reply_to_id''" "ascii_fold ''requested_by'' = ''requested_by''" "ascii_fold ''status'' = ''status''"
  "ascii_fold ''message_id'' = ''message_id''" "ascii_fold ''created_at_ms'' = ''created_at_ms''" "ascii_fold ''error'' = ''error''"
  "ascii_fold ''updated_at_ms'' = ''updated_at_ms''"
  by (simp_all add: ascii_fold_def byte_of_def)

lemma approval_wire_values:
  "obj_values ''approval_id'' (approval_wire a) = [JStr (clean_text (ap_id a))]"
  "obj_values ''conversation_id'' (approval_wire a) = [JStr (clean_text (ap_conv a))]"
  "obj_values ''body'' (approval_wire a) = [JStr (clean_text (ap_body a))]"
  "obj_values ''reply_to_id'' (approval_wire a) = (case ap_reply a of None \<Rightarrow> [] | Some s \<Rightarrow> [JStr (clean_text s)])"
  "obj_values ''requested_by'' (approval_wire a) = [JStr (clean_text (ap_by a))]"
  "obj_values ''status'' (approval_wire a) = [JStr (clean_text (ap_status a))]"
  "obj_values ''error'' (approval_wire a) = (case ap_error a of None \<Rightarrow> [] | Some s \<Rightarrow> [JStr (clean_text s)])"
  "obj_values ''message_id'' (approval_wire a) = (case ap_message_id a of None \<Rightarrow> [] | Some s \<Rightarrow> [JStr (clean_text s)])"
  "obj_values ''created_at_ms'' (approval_wire a) = [JInt (ap_created_at a)]"
  "obj_values ''updated_at_ms'' (approval_wire a) = [JInt (ap_updated_at a)]"
  by (simp_all add: approval_wire_def obj_values_def opt_str_def opt_field_def fold_approval_names split: option.split)

lemma approval_decodes:
  assumes "exact_number (ap_created_at a)" "exact_number (ap_updated_at a)"
  shows "decode_approval (through_any num (clean_json (approval_json a))) = Some (clean_approval a)"
proof -
  obtain gs where gs: "any_object (approval_wire a) = JObj gs" "mset gs = mset (approval_wire a)"
    using any_object_perm [OF approval_wire_distinct] by blast
  have same: "length (obj_values n (approval_wire a)) \<le> 1 \<Longrightarrow> obj_values n gs = obj_values n (approval_wire a)" for n
    by (rule obj_values_perm [OF gs(2)])
  have opt1: "length (case x of None \<Rightarrow> [] | Some s \<Rightarrow> [f s]) \<le> Suc 0" for x :: "string option" and f :: "string \<Rightarrow> json"
    by (cases x) simp_all
  note vals = approval_wire_values [of a]
  have ok: "int64_ok (ap_created_at a)" "int64_ok (ap_updated_at a)" using assms by (auto simp: exact_number_def int64_ok_def)
  show ?thesis
    unfolding approval_through_wire [OF assms] gs(1) decode_approval_def struct_of_def
    using ok by (simp add: fields_ok_def get_string_def get_int_def get_opt_string_def same vals opt1 clean_approval_def split: option.split)
qed

section \<open>The row an answer is about\<close>

lemma resolve_approval_success:
  assumes "resolve_approval e aid st er mid d = (d', None)" and "distinct (map ap_id (approvals d))"
    and "a \<in> set (approvals d')" and "ap_id a = aid"
  shows "ap_status a = st \<and> ap_updated_at a = now_ms e \<and> (\<exists>b \<in> set (approvals d). ap_created_at a = ap_created_at b)"
proof -
  let ?hit = "\<lambda>a. ap_id a = aid \<and> ap_status a = ''pending''"
  have d': "approvals d' = update_where ?hit (resolve_row (now_ms e) st er mid) (approvals d)"
    and hit: "rows_affected ?hit (approvals d) \<noteq> 0"
    using assms(1) by (auto simp: resolve_approval_def Let_def split: if_splits option.splits)
  from hit obtain b where b: "b \<in> set (approvals d)" "?hit b" by (auto simp: rows_affected_def filter_empty_conv)
  from assms(3) d' obtain c where c: "c \<in> set (approvals d)" "a = (if ?hit c then resolve_row (now_ms e) st er mid c else c)"
    by (auto simp: update_where_def)
  then have "ap_id c = aid" using assms(4) by (auto split: if_splits)
  then have "c = b" using b c(1) assms(2) by (auto simp: distinct_map dest: inj_onD)
  with b c show ?thesis by (auto simp: resolve_row_def)
qed

lemma performed_answer:
  assumes "perform_approved_send dp E a s = (s', Inr j)" and "db_ok (h_db s)"
  shows "\<exists>row \<in> set (approvals (h_db s')). j = approval_json row \<and> ap_id row = ap_id a \<and> ap_status row = ''sent''
    \<and> ap_updated_at row = now_ms (here (at E 2)) \<and> (\<exists>b \<in> set (approvals (h_db s)). ap_created_at row = ap_created_at b)
    \<and> (\<exists>s1 res. send_text (here (at E 1)) (ap_conv a) (ap_body a) (coalesce (ap_reply a) '''') s = (s1, Inr res) \<and> h_log s' = h_log s1)"
proof -
  obtain s1 sent where st: "send_text (here (at E 1)) (ap_conv a) (ap_body a) (coalesce (ap_reply a) '''') s = (s1, sent)" by fastforce
  have db: "h_db s1 = h_db s" using send_text_effect [OF st] by blast
  from assms(1) st obtain res d row where r: "sent = Inr res"
    "resolve_approval (here (at E 2)) (ap_id a) ''sent'' None (Some (st_message_id res)) (h_db s1) = (d, None)"
    "get_approval (here (at E 3)) (ap_id a) d = Inr row" "j = approval_json row"
    "s' = broadcast event_approval_resolved (approval_json row) (put_db d s1)"
    by (auto simp: perform_approved_send_def split: sum.splits if_splits prod.splits option.splits)
  have "distinct (map ap_id (approvals (h_db s1)))" using db_okD(5) [OF assms(2)] db by simp
  from resolve_approval_success [OF r(2) this] get_approval_Inr [OF r(3)] r st db show ?thesis by auto
qed

lemma send_text_answer:
  assumes "handle_send_text dp E params s = (s', Inr j)" and "db_ok (h_db s)"
  shows "\<exists>fs row. decode_params (here E) [(''conversation_id'', KString), (''body'', KString), (''reply_to_id'', KString),
      (''requested_by'', KString)] params = Inr fs \<and> row \<in> set (approvals (h_db s')) \<and> j = approval_json row \<and> ap_id row = rv_uuid (here E)
    \<and> (if dp_mode dp = send_approve then ap_status row = ''pending'' \<and> h_log s' = h_log s
        \<and> ap_conv row = get_string fs ''conversation_id'' \<and> ap_body row = get_string fs ''body''
        \<and> ap_created_at row = now_ms (here (at E 0)) \<and> ap_updated_at row = now_ms (here (at E 0))
      else ap_status row = ''sent'' \<and> ap_updated_at row = now_ms (here (at (at E 2) 2))
        \<and> (ap_created_at row = now_ms (here (at E 0)) \<or> (\<exists>b \<in> set (approvals (h_db s)). ap_created_at row = ap_created_at b)))"
proof -
  from assms(1) obtain fs where fs: "decode_params (here E) [(''conversation_id'', KString), (''body'', KString), (''reply_to_id'', KString),
      (''requested_by'', KString)] params = Inr fs" by (auto simp: handle_send_text_def split: sum.splits)
  let ?p = "proposal fs (rv_uuid (here E))"
  obtain d x where cr: "create_approval (here (at E 0)) ?p (h_db s) = (d, x)" by fastforce
  from assms(1) fs cr obtain created where c: "x = None" "get_approval (here (at E 1)) (rv_uuid (here E)) d = Inr created"
    "(if dp_mode dp = send_approve
      then (s', Inr j) = (broadcast event_approval_requested (approval_json created) (put_db d s), Inr (approval_json created))
      else perform_approved_send dp (at E 2) created (put_db d s) = (s', Inr j))"
    by (auto simp: handle_send_text_def split: if_splits option.splits sum.splits)
  obtain new where d: "approvals d = approvals (h_db s) @ [new]" "ap_id new \<notin> ap_id ` set (approvals (h_db s))"
    and new: "ap_id new = rv_uuid (here E)" "ap_conv new = get_string fs ''conversation_id''" "ap_body new = get_string fs ''body''"
      "ap_status new = ''pending''" "ap_created_at new = now_ms (here (at E 0))" "ap_updated_at new = now_ms (here (at E 0))"
    using cr c(1) by (auto simp: create_approval_def proposal_def split: if_splits option.splits)
  have "created \<in> set (approvals d)" "ap_id created = ap_id new" using get_approval_Inr [OF c(2)] new(1) by auto
  moreover from this have "created \<notin> set (approvals (h_db s))" using d(2) by (metis imageI)
  ultimately have created: "created = new" using d(1) by simp
  have ok: "db_ok d" using create_approval_ok [OF assms(2), of "here (at E 0)" ?p] cr by simp
  show ?thesis
  proof (cases "dp_mode dp = send_approve")
    case True
    with c(3) fs d new created show ?thesis by auto
  next
    case False
    then have perf: "perform_approved_send dp (at E 2) created (put_db d s) = (s', Inr j)" using c(3) by simp
    have "db_ok (h_db (put_db d s))" using ok by simp
    from performed_answer [OF perf this] obtain row b where "row \<in> set (approvals (h_db s'))" "j = approval_json row"
      "ap_id row = ap_id created" "ap_status row = ''sent''" "ap_updated_at row = now_ms (here (at (at E 2) 2))"
      "b \<in> set (approvals d)" "ap_created_at row = ap_created_at b" by auto
    with False fs d(1) new created show ?thesis by (intro exI [of _ fs] exI [of _ row]) auto
  qed
qed

section \<open>What the tools report\<close>

definition send_text_wire :: "string \<Rightarrow> string \<Rightarrow> string \<Rightarrow> string \<Rightarrow> (string \<times> json) list" where
  "send_text_wire conv body reply by = [(''conversation_id'', JStr (clean_text conv)), (''body'', JStr (clean_text body)),
     (''reply_to_id'', JStr (clean_text reply)), (''requested_by'', JStr (clean_text by))]"

lemma send_text_params_wire:
  "\<exists>fs. clean_json (send_text_params conv body reply by) = JObj fs \<and> mset fs = mset (send_text_wire conv body reply by)"
proof -
  let ?fs = "[(''conversation_id'', JStr conv), (''body'', JStr body), (''reply_to_id'', JStr reply), (''requested_by'', JStr by)]"
  have "mset (map (\<lambda>kv. (clean_text (fst kv), clean_json (snd kv))) (sort_key fst ?fs)) = mset (send_text_wire conv body reply by)"
    by (simp add: send_text_wire_def)
  then show ?thesis by (simp add: send_text_params_def json_map_def del: mset_map)
qed

lemma send_text_wire_values:
  "obj_values ''conversation_id'' (send_text_wire conv body reply by) = [JStr (clean_text conv)]"
  "obj_values ''body'' (send_text_wire conv body reply by) = [JStr (clean_text body)]"
  by (simp_all add: send_text_wire_def obj_values_def fold_approval_names)

lemma approval_answer_through_wire:
  assumes "call_into v decode_approval (wire_answer num r) = Inr a" and "r = Inr (approval_json row)"
    and "exact_number (ap_created_at row)" "exact_number (ap_updated_at row)"
  shows "a = clean_approval row"
proof -
  have "clean_json (approval_json row) \<noteq> JNull" by (simp add: approval_json_def)
  then show ?thesis using assms(1,2) approval_decodes [OF assms(3,4), of num]
    by (simp add: call_into_def wire_answer_def wire_value_def)
qed

lemma wire_answer_Inl: "call_into v dec (wire_answer num r) = Inr a \<Longrightarrow> \<exists>j. r = Inr j"
  by (cases r) (auto simp: call_into_def wire_answer_def)

lemma statuses_clean [simp]: "clean_text ''pending'' = ''pending''" "clean_text ''sent'' = ''sent''"
  by (rule clean_ascii; simp add: byte_of_def)+

lemma clean_mcp [simp]: "clean_text ''mcp'' = ''mcp''"
  by (rule clean_ascii) (simp add: byte_of_def)


section \<open>A concrete tool call\<close>

lemma send_text_accepted:
  assumes "db_ok (h_db s)" and "\<And>q. no_fault (E q)" and "dp_mode dp = send_approve" and "clean_text conv \<noteq> ''''" "clean_text body \<noteq> ''''"
    and "rv_uuid (here E) \<noteq> ''''" and "rv_uuid (here E) \<notin> ap_id ` set (approvals (h_db s))"
  shows "\<exists>s' row. handle_send_text dp E (Some (clean_json (send_text_params conv body reply ''mcp''))) s = (s', Inr (approval_json row))
    \<and> ap_created_at row = now_ms (here (at E 0)) \<and> ap_updated_at row = now_ms (here (at E 0))"
proof -
  obtain gs where gs: "clean_json (send_text_params conv body reply ''mcp'') = JObj gs"
    "mset gs = mset (send_text_wire conv body reply ''mcp'')" using send_text_params_wire by blast
  have "length (obj_values n (send_text_wire conv body reply ''mcp'')) \<le> 1 \<Longrightarrow> obj_values n gs = obj_values n (send_text_wire conv body reply ''mcp'')" for n
    by (rule obj_values_perm [OF gs(2)])
  moreover have "obj_values ''reply_to_id'' (send_text_wire conv body reply ''mcp'') = [JStr (clean_text reply)]"
    "obj_values ''requested_by'' (send_text_wire conv body reply ''mcp'') = [JStr ''mcp'']"
    by (simp_all add: send_text_wire_def obj_values_def fold_approval_names)
  ultimately have vals: "obj_values ''conversation_id'' gs = [JStr (clean_text conv)]" "obj_values ''body'' gs = [JStr (clean_text body)]"
    "obj_values ''reply_to_id'' gs = [JStr (clean_text reply)]" "obj_values ''requested_by'' gs = [JStr ''mcp'']"
    by (simp_all add: send_text_wire_values)
  have dec: "decode_params (here E) [(''conversation_id'', KString), (''body'', KString), (''reply_to_id'', KString), (''requested_by'', KString)]
      (Some (JObj gs)) = Inr gs"
    by (simp add: decode_params_def fields_ok_def vals)
  let ?p = "proposal gs (rv_uuid (here E))"
  have str: "get_string gs ''conversation_id'' = clean_text conv" "get_string gs ''body'' = clean_text body"
    by (simp_all add: get_string_def vals)
  obtain d x where cr: "create_approval (here (at E 0)) ?p (h_db s) = (d, x)" by fastforce
  have nf: "exec_fault (here (at E 0)) SCreateApproval = None" by (rule no_fault_exec [OF here_at_fault(2) [OF assms(2)]])
  have p: "ap_id ?p = rv_uuid (here E)" "ap_conv ?p \<noteq> ''''" "ap_body ?p \<noteq> ''''"
    using assms(4,5) by (simp_all add: proposal_def str)
  then have x: "x = None" using cr nf assms(6,7) by (simp add: create_approval_def)
  with cr nf p assms(6,7) obtain new where new: "approvals d = approvals (h_db s) @ [new]"
    "ap_id new = rv_uuid (here E)" "ap_created_at new = now_ms (here (at E 0))" "ap_updated_at new = now_ms (here (at E 0))"
    by (auto simp: create_approval_def)
  have ok: "db_ok d" using create_approval_ok [OF assms(1), of "here (at E 0)" ?p] cr by simp
  have "row_with ap_id (ap_id new) (approvals d) = Some new" using row_with_mem [OF db_okD(5) [OF ok], of new] new(1) by simp
  then have "get_approval (here (at E 1)) (rv_uuid (here E)) d = Inr new"
    using get_approval_eq [OF ok here_at_fault(2) [OF assms(2)]] new(2) by simp
  then have "handle_send_text dp E (Some (JObj gs)) s
      = (broadcast event_approval_requested (approval_json new) (put_db d s), Inr (approval_json new))"
    using assms(3-5) dec str cr x by (simp add: handle_send_text_def send_off_def send_approve_def)
  then show ?thesis using new(3,4) unfolding gs(1) by blast
qed

definition tool_env :: "caller \<Rightarrow> mcp_env" where
  "tool_env call = \<lparr>pe_xdg = '''', pe_home = Inr ''/home/me'', pe_cwd = Inr ''/'', pe_mkdir = (\<lambda>d. None),
     se_probe = (\<lambda>k. Inr (Inr (JObj [(''pong'', JBool True)]))), se_stat = (\<lambda>f. None), se_exe = Inr ''/bin/gmcli'',
     se_open_log = (\<lambda>f. None), se_start = (\<lambda>x args. None), se_now = (\<lambda>k. int k * poll_interval), se_ctx = (\<lambda>k. None),
     se_exited = (\<lambda>k. False), mc_dial = (\<lambda>f. Inr call), mc_decode_text = (\<lambda>j. ''''), mc_now = (\<lambda>k. 0),
     mc_local_date = (\<lambda>s. None), mc_rfc3339 = (\<lambda>s. None), mc_fractions = (\<lambda>f un scale. f * (un div scale)),
     mc_scan = (\<lambda>s. None), mc_times = (\<lambda>n k. k)\<rparr>"

lemma tool_env_dials: "dial_serve (tool_env call) l = Some (Inr call)"
  by (simp add: dial_serve_def ensure_running_def rpc_dial_def tool_env_def alive_def pong_of_def fields_ok_def get_bool_def obj_values_def)


section \<open>The reading tools and the daemon's methods\<close>

lemma json_map_field: "json_map fs = JObj gs \<Longrightarrow> obj_values n fs = vs \<Longrightarrow> length vs \<le> 1 \<Longrightarrow> obj_values n gs = vs"
  using obj_values_perm [of gs fs n] by (auto simp: json_map_def)

lemma fold_read_names:
  "ascii_fold ''query'' = ''query''" "ascii_fold ''since_ms'' = ''since_ms''" "ascii_fold ''until_ms'' = ''until_ms''"
  "ascii_fold ''limit'' = ''limit''" "ascii_fold ''order'' = ''order''" "ascii_fold ''before'' = ''before''" "ascii_fold ''after'' = ''after''"
  "ascii_fold ''sender_id'' = ''sender_id''"
  by (simp_all add: ascii_fold_def byte_of_def)

definition context_params :: "string \<Rightarrow> int \<Rightarrow> int \<Rightarrow> json" where
  "context_params mid before after = json_map [(''message_id'', JStr mid), (''before'', JInt before), (''after'', JInt after)]"

definition search_params :: "string \<Rightarrow> string \<Rightarrow> int \<Rightarrow> int \<Rightarrow> int \<Rightarrow> json" where
  "search_params query conv since until limit = json_map [(''query'', JStr query), (''conversation_id'', JStr conv),
     (''since_ms'', JInt since), (''until_ms'', JInt until), (''limit'', JInt limit)]"

definition list_params :: "string \<Rightarrow> int \<Rightarrow> int \<Rightarrow> int \<Rightarrow> string \<Rightarrow> json" where
  "list_params conv since until limit order = json_map [(''conversation_id'', JStr conv),
     (''since_ms'', JInt since), (''until_ms'', JInt until), (''limit'', JInt limit), (''order'', JStr order)]"

text \<open>A bound as the daemon takes it: 0 for none, which is why it cannot take one before 1970.\<close>

definition wire_ms :: "int \<Rightarrow> int" where
  "wire_ms t = (if t = zero_time_ms then 0 else t)"

definition wire_bound :: "int \<Rightarrow> bool" where
  "wire_bound t \<longleftrightarrow> t = zero_time_ms \<or> 0 < t \<and> int64_ok t"

lemma bound_wire: "wire_bound t \<Longrightarrow> bound_ms (wire_ms t) = t \<and> int64_ok (wire_ms t)"
  by (auto simp: wire_bound_def bound_ms_def wire_ms_def int64_ok_def zero_time_ms_def)

lemma context_agrees:
  assumes "mid \<noteq> ''''" "int64_ok before" "int64_ok after"
  shows "handle_messages_context E (Some (context_params mid before after)) d
    = reply_found (''message not found: '' @ mid) (\<lambda>out. list_json rich_message_json (mo_messages out)) (tool_message_context E mid before after d)"
proof -
  obtain gs where gs: "context_params mid before after = JObj gs" by (simp add: context_params_def json_map_def)
  note field = json_map_field [OF gs [unfolded context_params_def]]
  have "obj_values ''message_id'' gs = [JStr mid]" "obj_values ''before'' gs = [JInt before]" "obj_values ''after'' gs = [JInt after]"
    by (rule field; simp add: obj_values_def fold_read_names fold_approval_names)+
  then show ?thesis using assms unfolding gs
    by (simp add: handle_messages_context_def decode_params_def fields_ok_def get_string_def get_int_def tool_message_context_def
        reply_found_def rich_json_def Let_def split: sum.split)
qed

lemma search_answer:
  assumes "query \<noteq> ''''" "int64_ok limit" "wire_bound a" "wire_bound b"
  shows "handle_messages_search E (Some (search_params query conv (wire_ms a) (wire_ms b) limit)) d
    = reply_of (list_json rich_hit_json) (search_messages_rich (at E 0)
        \<lparr>so_query = query, so_conv = conv, so_since = a, so_until = b, so_limit = limit\<rparr> d)"
proof -
  obtain gs where gs: "search_params query conv (wire_ms a) (wire_ms b) limit = JObj gs" by (simp add: search_params_def json_map_def)
  note field = json_map_field [OF gs [unfolded search_params_def]]
  have "obj_values ''query'' gs = [JStr query]" "obj_values ''conversation_id'' gs = [JStr conv]"
    "obj_values ''since_ms'' gs = [JInt (wire_ms a)]" "obj_values ''until_ms'' gs = [JInt (wire_ms b)]" "obj_values ''limit'' gs = [JInt limit]"
    by (rule field; simp add: obj_values_def fold_read_names fold_approval_names)+
  then show ?thesis using assms bound_wire [OF assms(3)] bound_wire [OF assms(4)] unfolding gs
    by (simp add: handle_messages_search_def decode_params_def fields_ok_def get_string_def get_int_def)
qed

lemma search_agrees:
  assumes "query \<noteq> ''''" "int64_ok limit" "time_range (here E) v since until = Inr (a, b)" "wire_bound a" "wire_bound b"
  shows "handle_messages_search E (Some (search_params query conv (wire_ms a) (wire_ms b) limit)) d
    = reply_of (list_json rich_hit_json) (tool_search_messages v E query conv since until limit d)"
  using search_answer [OF assms(1,2,4,5)] assms(1,3) by (simp add: tool_search_messages_def)

lemma list_agrees:
  assumes "conv \<noteq> ''''" "int64_ok limit" "time_range (here E) v since until = Inr (a, b)" "wire_bound a" "wire_bound b"
  shows "handle_messages_list E (Some (list_params conv (wire_ms a) (wire_ms b) limit order)) d
    = reply_of (\<lambda>out. list_json rich_message_json (mo_messages out)) (tool_list_messages v E conv since until limit order d)"
proof -
  obtain gs where gs: "list_params conv (wire_ms a) (wire_ms b) limit order = JObj gs" by (simp add: list_params_def json_map_def)
  note field = json_map_field [OF gs [unfolded list_params_def]]
  have "obj_values ''order'' gs = [JStr order]" "obj_values ''conversation_id'' gs = [JStr conv]" "obj_values ''sender_id'' gs = []"
    "obj_values ''since_ms'' gs = [JInt (wire_ms a)]" "obj_values ''until_ms'' gs = [JInt (wire_ms b)]" "obj_values ''limit'' gs = [JInt limit]"
    by (rule field; simp add: obj_values_def fold_read_names fold_approval_names)+
  then show ?thesis using assms bound_wire [OF assms(4)] bound_wire [OF assms(5)] unfolding gs
    by (simp add: handle_messages_list_def decode_params_def fields_ok_def get_string_def get_int_def tool_list_messages_def
        reply_of_def rich_json_def split: sum.split)
qed


text \<open>A week before now.\<close>

definition week_env :: mcp_env where
  "week_env = (tool_env (\<lambda>m ps. Inr JNull))\<lparr>mc_now := (\<lambda>k. 1800000000000000000), mc_scan := (\<lambda>s. if s = ''7d'' then Some (''7'', ''d'') else None),
     mc_times := (\<lambda>n k. 7 * k)\<rparr>"

lemma week_range: "time_range e week_env ''7d'' '''' = Inr (1799395200000, zero_time_ms)"
proof -
  have "parse_term fr ''7d'' = None" for fr
    by (simp add: parse_term_def is_json_digit_def byte_of_def Let_def term_value_def unit_map_def micro_def)
  then have "parse_duration fr ''7d'' = None" for fr by (simp add: parse_duration_def parse_terms.simps [of _ 0 "''7d''"])
  then show ?thesis
    by (simp add: time_range_def parse_time_arg_def parse_relative_duration_def week_env_def tool_env_def day_ns_def neg_duration_def)
qed


text \<open>Every tool that calls the daemon comes back.\<close>

lemma tools_return:
  assumes "clock_ok v"
  shows "tool_send_text v l conv body reply \<noteq> None \<and> tool_backfill v l conv phone requests n \<noteq> None \<and> mcp_start v l b \<noteq> None"
proof -
  obtain k where "ensure_running v l warn_opts (poll_fuel warn_opts) = Some k"
    using ensure_returns [OF assms, of l warn_opts] by (metis add_0_right)
  then show ?thesis by (simp add: tool_send_text_def tool_backfill_def with_serve_def dial_serve_def mcp_start_def)
qed

end
