(* ===== verification/Cli_Facts.thy ===== *)
theory Cli_Facts
  imports Cli_Query Mcp_Facts
begin

text \<open>
  The commands that read the archive: what \<open>chats show\<close> prints, and that with \<open>--json\<close> the commands print
  what the daemon answers.
\<close>

section \<open>Showing a chat\<close>

lemma sorted_rev_page: "page_of (\<lambda>m. - m_ts m) n rows out \<Longrightarrow> sorted (map m_ts (rev out))"
proof -
  assume "page_of (\<lambda>m. - m_ts m) n rows out"
  then have "sorted (map (\<lambda>m. - m_ts m) out)" by (simp add: page_of_def)
  then show ?thesis by (induction out) (auto simp: sorted_append)
qed

lemma upper_desc [simp]: "to_upper u ''desc'' = ''DESC''"
proof -
  have "runes ''desc'' = [100, 101, 115, 99]"
    by (simp add: runes_def chunks_ascii is_ascii_def byte_of_def chunk_rune_ascii)
  then have "to_upper u ''desc'' = concat (map encode_rune [68, 69, 83, 67])"
    by (simp add: to_upper_def upper_rune_def string_of_runes_def)
  also have "\<dots> = ''DESC''" by code_simp
  finally show ?thesis .
qed

text \<open>C37: \<open>chats show\<close> prints the conversation and its latest messages, at most the limit of them (50 when none
  is given) and in the order they were sent.\<close>

theorem chats_show_tail:
  assumes "\<And>q. no_fault (E q)" and "open_store v g = None" and "cid \<noteq> ''''" and "get_conversation (here (at E 0)) cid d = Inr conv"

  shows "\<exists>ms. page_of (\<lambda>m. - m_ts m) (nat (if limit \<le> 0 then 50 else limit)) (filter (\<lambda>m. m_conv m = cid) (msgs d)) (rev ms)
    \<and> sorted (map m_ts ms) \<and> chats_show v g E cid limit d = (if gf_json g
      then [OutJson (JObj [(''conversation'', conversation_json (gf_json_time g) conv), (''messages'', JArr (map (message_json \<circ> scan_message) ms))])]
      else chat_detail g conv (map scan_message ms), None)"
proof -
  let ?opts = "\<lparr>lm_conv = cid, lm_sender = '''', lm_since = zero_time_ms, lm_until = zero_time_ms, lm_limit = limit, lm_order = ''desc''\<rparr>"
  have nf: "no_fault (here (at E 1))" using assms(1) by (simp add: here_def at_def)
  obtain out where out: "list_messages (here (at E 1)) ?opts d = Inr (map scan_message out)"
    "page_of (\<lambda>m. - m_ts m) (nat (if limit \<le> 0 then 50 else limit)) (filter (\<lambda>m. m_conv m = cid) (msgs d)) out"
    using list_messages_view [OF nf, of ?opts d] assms(3) by (cases "limit \<le> 0") (auto simp: eq_commute [of cid])
  show ?thesis
    using out sorted_rev_page [OF out(2)] assms(2,4)
    by (intro exI [of _ "rev out"]) (simp add: chats_show_def with_store_def Let_def rev_map)
qed

text \<open>\<open>chats list\<close> and \<open>chats show\<close> print the phone's name of a conversation, never the alias given to it,
  which \<open>chats find\<close> shows.\<close>

lemma chats_list_hides_alias:
  "chats_list v g E limit unread_only pinned d = ([OutTable headers rows], None) \<Longrightarrow>
    \<exists>convs. list_conversations (here (at E 0)) \<lparr>lc_limit = limit, lc_unread_only = unread_only, lc_pinned = pinned\<rparr> d = Inr convs
      \<and> map (\<lambda>r. r ! 5) rows = map (\<lambda>c. truncated g (conv_name c) 40) convs"
  by (auto simp: chats_list_def with_store_def show_rows_def comp_def split: option.splits sum.splits if_splits)

lemma chats_find_shows_alias:
  "chats_find v g E args limit d = ([OutTable headers rows], None) \<Longrightarrow>
    \<exists>convs. find_conversations (at E 0) (join_args args) limit d = Inr convs
      \<and> map (\<lambda>r. r ! 2) rows = map (\<lambda>c. truncated g (conversation_display_name c) 40) convs"
  by (auto simp: chats_find_def with_store_def show_rows_def comp_def split: option.splits sum.splits if_splits)

section \<open>What \<open>--json\<close> prints\<close>

text \<open>A command prints the answer, or fails with its text.\<close>

definition prints_answer :: "rpc_error + json \<Rightarrow> printed \<Rightarrow> bool" where
  "prints_answer r p = (case r of
     Inr j \<Rightarrow> p = ([OutJson j], None)
   | Inl e \<Rightarrow> (\<exists>err. p = ([], Some err) \<and> err_text err = re_message e))"

lemma show_rows_answer: "gf_json g \<Longrightarrow> prints_answer (reply_of (list_json f) r) (show_rows g f none headers row r)"
  by (simp add: prints_answer_def reply_of_def show_rows_def list_json_def internal_err_def rpc_err_def split: sum.split)

definition find_params :: "string \<Rightarrow> int \<Rightarrow> json" where
  "find_params query limit = json_map [(''query'', JStr query), (''limit'', JInt limit)]"

definition chats_params :: "int \<Rightarrow> bool \<Rightarrow> bool \<Rightarrow> json" where
  "chats_params limit unread_only pinned =
     json_map [(''limit'', JInt limit), (''unread_only'', JBool unread_only), (''pinned'', JBool pinned)]"

lemma find_param_values:
  assumes "find_params query limit = JObj gs"
  shows "obj_values ''query'' gs = [JStr query]" "obj_values ''limit'' gs = [JInt limit]"
  by (rule json_map_field [OF assms [unfolded find_params_def]]; simp add: obj_values_def fold_read_names)+

lemma fold_flag_names: "ascii_fold ''unread_only'' = ''unread_only''" "ascii_fold ''pinned'' = ''pinned''"
  by (simp_all add: ascii_fold_def byte_of_def)

lemma chats_param_values:
  assumes "chats_params limit unread_only pinned = JObj gs"
  shows "obj_values ''limit'' gs = [JInt limit]" "obj_values ''unread_only'' gs = [JBool unread_only]" "obj_values ''pinned'' gs = [JBool pinned]"
  by (rule json_map_field [OF assms [unfolded chats_params_def]]; simp add: obj_values_def fold_read_names fold_flag_names)+

lemma contacts_find_answers:
  assumes "int64_ok limit"
  shows "handle_contacts_search E (Some (find_params query limit)) d
      = reply_of (list_json contact_json) (search_contacts (here (at E 0)) query limit d)"
    and "query \<noteq> '''' \<Longrightarrow> handle_chats_find E (Some (find_params query limit)) d
      = reply_of (list_json (conversation_json (rv_json_time (here E)))) (find_conversations (at E 0) query limit d)"
proof -
  obtain gs where gs: "find_params query limit = JObj gs" by (simp add: find_params_def json_map_def)
  note vals = find_param_values [OF gs]
  show "handle_contacts_search E (Some (find_params query limit)) d
      = reply_of (list_json contact_json) (search_contacts (here (at E 0)) query limit d)"
    using assms unfolding gs by (simp add: handle_contacts_search_def decode_params_def fields_ok_def get_string_def get_int_def vals)
  show "handle_chats_find E (Some (find_params query limit)) d
      = reply_of (list_json (conversation_json (rv_json_time (here E)))) (find_conversations (at E 0) query limit d)" if "query \<noteq> ''''"
    using assms that unfolding gs by (simp add: handle_chats_find_def decode_params_def fields_ok_def get_string_def get_int_def vals)
qed

lemma chats_list_answer:
  assumes "int64_ok limit"
  shows "handle_chats_list E (Some (chats_params limit unread_only pinned)) d
      = reply_of (list_json (conversation_json (rv_json_time (here E)))) (list_conversations (here (at E 0))
          \<lparr>lc_limit = limit, lc_unread_only = unread_only, lc_pinned = pinned\<rparr> d)"
proof -
  obtain gs where gs: "chats_params limit unread_only pinned = JObj gs" by (simp add: chats_params_def json_map_def)
  show ?thesis using assms unfolding gs
    by (simp add: handle_chats_list_def decode_params_def fields_ok_def get_bool_def get_int_def chats_param_values [OF gs])
qed


section \<open>Concrete commands\<close>

definition json_globals :: globals where
  "json_globals = \<lparr>gf_store = ''/s'', gf_log_level = ''info'', gf_json = True, gf_read_only = True, gf_full = False,
     gf_stamp = (\<lambda>t. ''2026-01-01 00:00:00''), gf_minute = (\<lambda>t. ''2026-01-01 00:00''), gf_json_time = rv_json_time (quiet_rpc 5)\<rparr>"

definition plain_cli :: cli_env where
  "plain_cli = \<lparr>pe_xdg = '''', pe_home = Inr ''/home/me'', pe_cwd = Inr ''/'', pe_mkdir = (\<lambda>d. None), ce_open = (\<lambda>f. None),
     ce_local_date = (\<lambda>s. None), ce_rfc3339 = (\<lambda>s. None)\<rparr>"

lemma plain_cli_opens: "open_store plain_cli json_globals = None"
  by (simp add: open_store_def resolve_layout_def resolve_def json_globals_def path_abs_def is_rooted_def has_prefix_def ensure_dirs_def
      plain_cli_def)


lemma sample_conversation: "\<exists>conv. get_conversation (quiet_rpc 5) ''c1'' sample_db = Inr conv"
proof -
  have "convs sample_db \<noteq> [] \<and> (\<forall>c \<in> set (convs sample_db). c_id c = ''c1'')"
    by (simp add: sample_db_def upsert_message_result sample_msg_def conv_stub_def conv_ignore_def)
  moreover have "aliases sample_db = []" by (simp add: sample_db_def upsert_message_result sample_msg_def)
  moreover have "scan_rows [] rows = rows" for rows :: "(conv_row \<times> alias_row option) list"
    by (cases rows) (simp_all add: scan_rows_def)
  ultimately show ?thesis
    by (cases "convs sample_db") (auto simp: get_conversation_def query_row_def join_conv_aliases_def left_join_def)
qed

theorem chats_show_tail_witness:
  "\<exists>conv ms. get_conversation (quiet_rpc 5) ''c1'' sample_db = Inr conv \<and> sorted (map m_ts ms)
    \<and> chats_show plain_cli json_globals (\<lambda>_. quiet_rpc 5) ''c1'' 2 sample_db
      = ([OutJson (JObj [(''conversation'', conversation_json (gf_json_time json_globals) conv), (''messages'', JArr (map (message_json \<circ> scan_message) ms))])], None)"
proof -
  let ?E = "\<lambda>_ :: nat list. quiet_rpc 5"
  obtain conv where conv: "get_conversation (here (at ?E 0)) ''c1'' sample_db = Inr conv"
    using sample_conversation by (auto simp: here_def at_def)
  have "gf_json json_globals" by (simp add: json_globals_def)
  with chats_show_tail [OF _ plain_cli_opens _ conv, of 2] conv show ?thesis by (auto simp: here_def at_def)
qed

end
