(* ===== verification/Cli_Live_Facts.thy ===== *)
theory Cli_Live_Facts
  imports Cli_Admin Cli_Facts
begin

text \<open>
  The commands that use the phone and the daemon: what they may make the phone do, that they keep the archive's
  invariant, the daemon that \<open>serve\<close> starts, that waiting for a daemon to go ends, and what \<open>doctor\<close> reports.
\<close>

section \<open>What a command does to the phone\<close>

definition reacts :: "phone_call list \<Rightarrow> (string \<times> string \<times> int) list" where
  "reacts log = concat (map (\<lambda>c. case c of CallReact m x a \<Rightarrow> [(m, x, a)] | _ \<Rightarrow> []) log)"

lemma reacts_simps [simp]:
  "reacts [] = []" "reacts (xs @ ys) = reacts xs @ reacts ys" "reacts (CallReact m x a # xs) = (m, x, a) # reacts xs"
  "reacts (CallGetConversation s # xs) = reacts xs" "reacts (CallSend r # xs) = reacts xs" "reacts (CallDownload s # xs) = reacts xs"
  "reacts (CallDisconnect # xs) = reacts xs"
  by (simp_all add: reacts_def)

lemma quiet_reacts: "quiet cs \<Longrightarrow> reacts cs = []"
  by (induction cs) (auto simp: quiet_def reacts_def split: phone_call.splits)

lemma quiet_sends: "quiet cs \<Longrightarrow> sends cs = []"
  by (induction cs) (auto simp: quiet_def sends_def split: phone_call.splits)

text \<open>A process moved on by these calls, its archive still sound.\<close>

definition moved :: "phone_call list \<Rightarrow> live \<Rightarrow> live \<Rightarrow> bool" where
  "moved cs s s' \<longleftrightarrow> h_log s' = h_log s @ cs \<and> (db_ok (h_db s) \<longrightarrow> db_ok (h_db s'))"

lemma moved_refl [simp]: "moved [] s s"
  by (simp add: moved_def)

lemma moved_trans: "moved cs a b \<Longrightarrow> moved ds b c \<Longrightarrow> moved (cs @ ds) a c"
  by (simp add: moved_def)

lemma live_fields [simp]: "h_db (s\<lparr>lv_files := f\<rparr>) = h_db s" "h_db (s\<lparr>h_settings := x\<rparr>) = h_db (s :: live)"
  by (simp_all add: h_db_def)

lemma live_event_moved: "moved [] s (live_event E session ev s)"
proof -
  have step: "moved [] s (s'\<lparr>h_pump := pump_handle (at E 0) (status_name (here E)) ev (h_pump s')\<rparr>)"
    if "h_pump s' = h_pump s" "h_log s' = h_log s" for s' :: live
    using that pump_ok_step [of s "at E 0" "status_name (here E)" ev] by (simp add: moved_def h_db_def)
  show ?thesis unfolding live_event_def Let_def by (rule step; simp split: gm_event.split)
qed

lemma live_events_moved: "moved [] s (live_events E i session evs s)"
proof (induction evs arbitrary: i s)
  case (Cons ev evs)
  from moved_trans [OF live_event_moved Cons] show ?case by simp
qed simp

lemma closing_moved: "moved cs s (fst r) \<Longrightarrow> moved (cs @ [CallDisconnect]) s (fst (closing r))"
  by (simp add: moved_def closing_def)

text \<open>What holds of the calls of a command's body, and of none, holds of the whole command's.\<close>

lemma with_client_moved:
  assumes "Q []" and "\<And>l s. \<exists>cs. moved cs s (fst (run l s)) \<and> Q cs"
  shows "\<exists>cs. moved cs s (fst (with_client v g E opened banner fail run s)) \<and> Q cs"
proof (cases "resolve_layout v g")
  case (Inr l)
  let ?s = "live_events (at E 0) 0 (ly_session l) (le_events (here E)) s"
  obtain cs where cs: "moved cs ?s (fst (run l ?s))" "Q cs" using assms(2) by blast
  have "moved cs s (fst (run l ?s))" using moved_trans [OF live_events_moved cs(1)] by simp
  moreover have "moved [] s ?s" by (rule live_events_moved)
  ultimately show ?thesis using assms(1) cs(2) Inr
    by (auto simp: with_client_def Let_def split: option.split sum.split prod.split intro: moved_refl)
qed (use assms(1) in \<open>auto simp: with_client_def intro: moved_refl\<close>)

lemma closing_body:
  assumes "\<exists>cs. moved cs s (fst r) \<and> Q (cs @ [CallDisconnect])"
  shows "\<exists>cs. moved cs s (fst (closing r)) \<and> Q cs"
  using assms closing_moved by blast

lemma run_connected_moved:
  assumes "Q []" "Q [CallDisconnect]" and "\<And>s. \<exists>cs. moved cs s (fst (run s)) \<and> Q (cs @ [CallDisconnect])"
  shows "\<exists>cs. moved cs s (fst (run_connected v g E run s)) \<and> Q cs"
proof -
  have "\<exists>cs. moved cs s (fst (case le_ready (here E) of Some (Some t) \<Rightarrow> (s, [], Some (Wrap ''wait for ready'' (Driver t))) | _ \<Rightarrow> run s))
      \<and> Q (cs @ [CallDisconnect])" for s
    using assms(2) assms(3) [of s] by (cases "le_ready (here E)") (auto split: option.split intro: exI [of _ "[]"])
  then show ?thesis unfolding run_connected_def by (intro with_client_moved assms(1) closing_body)
qed

lemma quiet_host_moved: "quiet_host s (s' :: live) \<Longrightarrow> (db_ok (h_db s) \<Longrightarrow> db_ok (h_db s')) \<Longrightarrow> \<exists>cs. moved cs s s' \<and> quiet cs"
  by (auto simp: quiet_host_def moved_def)

section \<open>Every command\<close>

datatype live_command =
    SendsText string string string
  | SendsReaction string string bool bool
  | Backfills string int int
  | LooksUp string int int
  | Downloads string string
  | Syncs bool "follow_event list"

definition finished :: "live \<times> printed \<Rightarrow> live \<times> out list \<times> err option option" where
  "finished r = (fst r, fst (snd r), Some (snd (snd r)))"

definition run_live :: "'p cli_env_scheme \<Rightarrow> 'g globals_scheme \<Rightarrow> 'z live_calls \<Rightarrow> live_command \<Rightarrow> live
    \<Rightarrow> live \<times> out list \<times> err option option" where
  "run_live v g E c s = (case c of
     SendsText to message reply \<Rightarrow> finished (send_text_cmd v g E to message reply s)
   | SendsReaction mid emoji remove switch \<Rightarrow> finished (send_react_cmd v g E mid emoji remove switch s)
   | Backfills chat requests n \<Rightarrow> finished (history_backfill_cmd v g E chat requests n s)
   | LooksUp phone requests n \<Rightarrow> finished (history_lookup_cmd v g E phone requests n s)
   | Downloads mid out \<Rightarrow> finished (media_download_cmd v g E mid out s)
   | Syncs stay ws \<Rightarrow> sync_cmd v g E stay ws s)"

lemma send_text_answered:
  assumes "send_text e cid body reply h = (h', r)"
  shows "h_db h' = h_db h \<and> (\<exists>cs. h_log h' = h_log h @ cs \<and> reacts cs = []
    \<and> (sends cs = [] \<and> (\<exists>err. r = Inl err) \<or> (\<exists>req. sends cs = [req] \<and> sr_conv req = cid \<and> sr_body req = body)))"
proof -
  have "reacts cs = []" if "sent_as cid body reply cs" for cs
    using that by (auto simp: sent_as_def quiet_reacts)
  moreover obtain cs where "h_db h' = h_db h" "h_log h' = h_log h @ cs" "quiet cs \<and> (\<exists>err. r = Inl err) \<or> sent_as cid body reply cs"
    using send_text_calls [OF assms] by blast
  ultimately show ?thesis using sent_as_sends [of cid body reply cs] by (auto simp: quiet_reacts quiet_sends)
qed

text \<open>What the calls of a command may be: what it was asked to send, once, and only when writing is allowed.\<close>

definition asked :: "bool \<Rightarrow> live_command \<Rightarrow> phone_call list \<Rightarrow> bool" where
  "asked read_only c cs \<longleftrightarrow>
     (sends cs = [] \<or> \<not> read_only \<and> (\<exists>to message reply req. c = SendsText to message reply \<and> sends cs = [req]
        \<and> sr_conv req = to \<and> sr_body req = message))
     \<and> (reacts cs = [] \<or> \<not> read_only \<and> (\<exists>mid emoji remove switch. c = SendsReaction mid emoji remove switch
        \<and> reacts cs = [(mid, emoji, if remove then reaction_remove else if switch then reaction_switch else reaction_add)]))"

lemma asked_quiet: "quiet cs \<Longrightarrow> asked b c cs" "quiet cs \<Longrightarrow> asked b c (cs @ [CallDisconnect])"
  by (simp_all add: asked_def quiet_sends quiet_reacts)

lemma asked_none [simp]: "asked b c []" "asked b c [CallDisconnect]"
  by (rule asked_quiet; simp)+

lemma send_text_cmd_asked:
  "\<exists>cs. moved cs s (fst (send_text_cmd v g E to message reply s)) \<and> asked (gf_read_only g) (SendsText to message reply) cs"
proof (cases "(to = '''' \<or> message = '''') \<or> gf_read_only g")
  case True
  then show ?thesis by (auto simp: send_text_cmd_def require_writable_def intro!: exI [of _ "[]"])
next
  case False
  let ?run = "\<lambda>s :: live. case send_text (here (at E 1)) to message reply s of
    (s1, Inl err) \<Rightarrow> (s1, [], Some err) | (s1, Inr res) \<Rightarrow> (s1, sent_output g res, None)"
  have "\<exists>cs. moved cs s (fst (?run s)) \<and> asked (gf_read_only g) (SendsText to message reply) (cs @ [CallDisconnect])" for s :: live
  proof -
    obtain s1 r where t: "send_text (here (at E 1)) to message reply s = (s1, r)" by fastforce
    from send_text_answered [OF t] False show ?thesis by (cases r) (auto simp: t moved_def asked_def simp del: One_nat_def)
  qed
  from run_connected_moved [where Q = "asked (gf_read_only g) (SendsText to message reply)", OF _ _ this] False show ?thesis
    by (simp add: send_text_cmd_def require_writable_def del: One_nat_def)
qed

lemma send_react_cmd_asked:
  "\<exists>cs. moved cs s (fst (send_react_cmd v g E mid emoji remove switch s)) \<and> asked (gf_read_only g) (SendsReaction mid emoji remove switch) cs"
proof (cases "(mid = '''' \<or> emoji = '''') \<or> (remove \<and> switch) \<or> gf_read_only g")
  case True
  then show ?thesis by (auto simp: send_react_cmd_def require_writable_def intro!: exI [of _ "[]"])
next
  case False
  let ?act = "if remove then reaction_remove else if switch then reaction_switch else reaction_add"
  let ?run = "\<lambda>s :: live. case send_reaction (here (at E 1)) mid emoji ?act s of
    (s1, Some err) \<Rightarrow> (s1, [], Some err)
  | (s1, None) \<Rightarrow> (s1, if gf_json g then [OutJson (json_map [(''reacted'', JBool True), (''message_id'', JStr mid), (''emoji'', JStr emoji)])]
      else [ErrLine (''Reacted '' @ emoji @ '' on '' @ mid)], None)"
  have "\<exists>cs. moved cs s (fst (?run s)) \<and> asked (gf_read_only g) (SendsReaction mid emoji remove switch) (cs @ [CallDisconnect])" for s :: live
  proof -
    have "?act \<in> set [reaction_add, reaction_remove, reaction_switch]" by simp
    then have t: "fst (?run s) = logged (CallReact mid emoji ?act) s"
      using False by (simp add: send_reaction_def split: option.split)
    show ?thesis unfolding t using False by (intro exI [of _ "[CallReact mid emoji ?act]"]) (simp add: moved_def asked_def)
  qed
  from run_connected_moved [where Q = "asked (gf_read_only g) (SendsReaction mid emoji remove switch)", OF _ _ this] False show ?thesis
    by (auto simp: send_react_cmd_def require_writable_def Let_def simp del: One_nat_def)
qed

text \<open>The commands that fetch: their bodies' calls are quiet.\<close>

lemma quiet_body:
  assumes "\<And>l s. \<exists>cs. moved cs s (fst (run l s)) \<and> quiet cs"
  shows "\<exists>cs. moved cs s (fst (with_client v g E opened banner fail (\<lambda>l s. closing (run l s)) s)) \<and> quiet cs"
proof -
  have "\<exists>cs. moved cs s (fst (run l s)) \<and> quiet (cs @ [CallDisconnect])" for l s using assms [of s l] by auto
  then show ?thesis by (intro with_client_moved closing_body) simp_all
qed

lemma backfill_output_state: "fst (backfill_output g r) = fst r"
  by (auto simp: backfill_output_def split: prod.split option.split)

lemma backfill_output_moved: "\<exists>cs. moved cs s (fst (backfill_output g (backfill E chat n k s))) \<and> quiet cs"
proof -
  obtain s' res err where r: "backfill E chat n k s = (s', res, err)" by (rule prod_cases3)
  from backfill_effect [OF r] show ?thesis by (simp add: backfill_output_state r) (blast intro: quiet_host_moved)
qed

lemma seed_moved: "\<exists>cs. moved cs s (fst (seed_conversation E chat s)) \<and> quiet cs"
proof -
  let ?s = "logged (CallGetConversation chat) s"
  have "moved [] ?s (?s\<lparr>h_pump := pump_handle (at E 0) (status_name (here E)) (EvConversation conv) (h_pump ?s)\<rparr>)" for conv
    using pump_ok_step [of ?s "at E 0" "status_name (here E)" "EvConversation conv"] by (simp add: moved_def h_db_def del: pump_handle.simps)
  moreover have "moved [CallGetConversation chat] s ?s" by (simp add: moved_def)
  ultimately have "moved [CallGetConversation chat] s (fst (seed_conversation E chat s))"
    using moved_trans [of "[CallGetConversation chat]" s ?s "[]"]
    by (auto simp: seed_conversation_def Let_def simp del: pump_handle.simps split: sum.split)
  then show ?thesis by (auto intro: exI [of _ "[CallGetConversation chat]"])
qed

lemma moved_quiet_trans:
  "\<exists>cs. moved cs a b \<and> quiet cs \<Longrightarrow> \<exists>cs. moved cs b c \<and> quiet cs \<Longrightarrow> \<exists>cs. moved cs a c \<and> quiet cs"
  using moved_trans by fastforce

lemma backfill_cmd_quiet: "\<exists>cs. moved cs s (fst (history_backfill_cmd v g E chat requests n s)) \<and> quiet cs"
proof -
  have "\<exists>cs. moved cs s (fst (backfill_body E chat requests n s)) \<and> quiet cs" for s
  proof (cases "seed_conversation (at E 1) chat s")
    case (Pair s1 r)
    have fetched: "\<exists>cs. moved cs s1 s2 \<and> quiet cs" if "backfill (at E 2) chat requests n s1 = (s2, res, err)" for s2 res err
      using backfill_output_moved [of s1 g "at E 2" chat requests n] that by (simp add: backfill_output_state)
    show ?thesis using seed_moved [of s "at E 1" chat] moved_quiet_trans [OF seed_moved [of s "at E 1" chat]] fetched
      by (auto simp: Pair backfill_body_def simp del: One_nat_def split: option.split prod.split)
  qed
  from quiet_body [OF this, of s v g E "Wrap ''open store''" "[]" Inl]
  have "\<exists>cs. moved cs s (fst (run_history_backfill v g E chat requests n s)) \<and> quiet cs" by (simp only: run_history_backfill_def)
  moreover have "fst (history_backfill_cmd v g E chat requests n s) = (if chat = '''' then s else fst (run_history_backfill v g E chat requests n s))"
    by (simp add: history_backfill_cmd_def split: prod.split sum.split)
  moreover have "\<exists>cs. moved cs s s \<and> quiet cs" by (intro exI [of _ "[]"]) (simp add: moved_def)
  ultimately show ?thesis by simp
qed

lemma lookup_moved: "\<exists>cs. moved cs s (fst (lookup_conversation E phone s)) \<and> quiet cs"
proof -
  obtain s' r where r: "lookup_conversation E phone s = (s', r)" by fastforce
  have "db_ok (h_db s')" if "db_ok (h_db s)"
    using r that by (auto simp: lookup_conversation_def Let_def on_conversation_ok split: sum.splits option.splits)
  with quiet_host_moved [OF lookup_host [OF r]] r show ?thesis by simp
qed

lemma lookup_cmd_quiet: "\<exists>cs. moved cs s (fst (history_lookup_cmd v g E phone requests n s)) \<and> quiet cs"
proof -
  have "\<exists>cs. moved cs s (fst (lookup_body g E phone requests n s)) \<and> quiet cs" for s
    using lookup_moved [of s "at E 1" phone] moved_quiet_trans [OF lookup_moved [of s "at E 1" phone] backfill_output_moved]
    by (cases "lookup_conversation (at E 1) phone s") (auto simp: lookup_body_def Let_def simp del: One_nat_def split: sum.split)
  from quiet_body [OF this] show ?thesis by (auto simp: history_lookup_cmd_def intro: exI [of _ "[]"])
qed

lemma save_download_moved: "moved [] s (fst (save_download v g e out m bytes s))"
  by (auto simp: save_download_def moved_def split: sum.split option.split)

lemma download_media_moved: "\<exists>cs. moved cs s (fst (download_media e i k s)) \<and> quiet cs" for s :: live
  by (cases "i = ''''") (auto simp: download_media_def moved_def intro: exI [of _ "[]"] exI [of _ "[CallDownload i]"])

lemma download_body_moved: "\<exists>cs. moved cs s (fst (download_body v g E mid out s)) \<and> quiet cs"
proof (cases "get_message (here (at E 1)) mid (h_db s)")
  case (Inr m)
  have stay: "\<exists>cs. moved cs s s \<and> quiet cs" by (rule exI [of _ "[]"]) simp
  obtain s1 r where r: "download_media (here (at E 2)) (the (msg_media m)) (msg_key m) s = (s1, r)" by fastforce
  have one: "\<exists>cs. moved cs s s1 \<and> quiet cs" using download_media_moved [of s "here (at E 2)"] r by (metis fst_conv)
  have "\<exists>cs. moved cs s1 (fst (save_download v g (here E) out m bytes s1)) \<and> quiet cs" for bytes
    by (rule exI [of _ "[]"]) (simp add: save_download_moved)
  from one moved_quiet_trans [OF one this] stay Inr r show ?thesis
    by (cases r) (simp_all add: download_body_def del: One_nat_def)
qed (auto simp: download_body_def simp del: One_nat_def intro: exI [of _ "[]"])

lemma download_cmd_quiet: "\<exists>cs. moved cs s (fst (media_download_cmd v g E mid out s)) \<and> quiet cs"
proof (cases "mid = ''''")
  case True
  then show ?thesis by (auto simp: media_download_cmd_def intro: exI [of _ "[]"])
next
  case False
  have "\<exists>cs. moved cs s (fst (download_body v g E mid out s)) \<and> quiet (cs @ [CallDisconnect])" for s
    using download_body_moved [of s v g E mid out] by auto
  then show ?thesis unfolding media_download_cmd_def if_not_P [OF False] by (intro run_connected_moved) simp_all
qed

lemma drop_fatal_frame [simp]: "h_db (drop_fatal s) = h_db s" "h_log (drop_fatal s) = h_log s"
  by (simp_all add: drop_fatal_def h_db_def)

lemma follow_moved: "\<exists>cs. moved cs s (fst (follow E i session ws s)) \<and> quiet cs"
proof (induction E i session ws s rule: follow.induct)
  case (2 E i session ev ws s)
  have "\<exists>cs. moved cs s (live_event (at E i) session ev s) \<and> quiet cs" by (rule exI [of _ "[]"]) (simp add: live_event_moved)
  from moved_quiet_trans [OF this 2] show ?case by simp
next
  case (3 E i session ws s)
  have "\<exists>cs. moved cs s (put_db (fst (touch_sync (here (at E i)) (h_db s))) s) \<and> quiet cs"
    by (rule exI [of _ "[]"]) (simp add: moved_def touch_sync_def split: option.split)
  from moved_quiet_trans [OF this 3] show ?case by simp
next
  case (4 E i session ws s)
  have "moved [CallDisconnect] s (logged CallDisconnect (drop_fatal s))" by (simp add: moved_def)
  with 4 show ?case by (auto simp: closing_def split: list.split intro!: exI [of _ "[CallDisconnect]"])
next
  case (5 E i session ws s)
  show ?case by (rule exI [of _ "[CallDisconnect]"]) (simp add: closing_def moved_def)
qed (auto intro: exI [of _ "[]"])

lemma sync_cmd_quiet: "\<exists>cs. moved cs s (fst (sync_cmd v g E stay ws s)) \<and> quiet cs"
proof -
  let ?run = "\<lambda>(l :: layout) s. let s1 = initial_import (at E 1) s in
       if \<not> stay then closing (case p_fatal (h_pump s1) of
            err # _ \<Rightarrow> (drop_fatal s1, [], Some (Some err))
          | [] \<Rightarrow> (s1, [ErrLine ''Initial sync complete. Pass --follow to stay connected.''], Some None))
       else (case follow (at E 2) 0 (ly_session l) ws s1 of
            (s2, out, r) \<Rightarrow> (s2, ErrLine ''Connected. Streaming events. Ctrl-C to stop.'' # out, r))"
  have "\<exists>cs. moved cs s (fst (?run l s)) \<and> quiet cs" for l s
  proof -
    let ?s1 = "initial_import (at E 1) s"
    have "db_ok (h_db s) \<Longrightarrow> db_ok (h_db ?s1)" using initial_import_step [of "at E 1" s] unfolding import_step_def by blast
    then have one: "\<exists>cs. moved cs s ?s1 \<and> quiet cs" by (rule quiet_host_moved [OF initial_import_quiet])
    have "\<exists>cs. moved cs ?s1 (fst (closing (case p_fatal (h_pump ?s1) of
            err # _ \<Rightarrow> (drop_fatal ?s1, [], Some (Some err))
          | [] \<Rightarrow> (?s1, [ErrLine ''Initial sync complete. Pass --follow to stay connected.''], Some None)))) \<and> quiet cs"
      by (rule exI [of _ "[CallDisconnect]"]) (auto simp: closing_def moved_def split: list.split)
    moreover obtain s2 out r where f: "follow (at E 2) 0 (ly_session l) ws ?s1 = (s2, out, r)" by (rule prod_cases3)
    moreover from follow_moved [of ?s1 "at E 2" 0 "ly_session l" ws] f have "\<exists>cs. moved cs ?s1 s2 \<and> quiet cs" by simp
    ultimately show ?thesis using moved_quiet_trans [OF one] by (cases stay) (simp_all add: Let_def del: One_nat_def)
  qed
  then show ?thesis unfolding sync_cmd_def by (intro with_client_moved) simp_all
qed

text \<open>C8: a command makes the phone send only what its arguments say: at most one message, to that conversation with
  that text, and only when run with \<open>--read-only=false\<close>; likewise a reaction; the fetching commands and \<open>sync\<close> send
  nothing. Every command keeps the archive's invariant, whatever fails and whatever events arrive meanwhile.\<close>

theorem commands_send_only_asked:
  "\<exists>cs. h_log (fst (run_live v g E c s)) = h_log s @ cs \<and> asked (gf_read_only g) c cs
    \<and> (db_ok (h_db s) \<longrightarrow> db_ok (h_db (fst (run_live v g E c s))))"
proof -
  have "\<exists>cs. moved cs s (fst (run_live v g E c s)) \<and> asked (gf_read_only g) c cs"
  proof (cases c)
    case (SendsText to message reply)
    with send_text_cmd_asked [of s v g E] show ?thesis by (simp add: run_live_def finished_def)
  next
    case (SendsReaction mid emoji remove switch)
    with send_react_cmd_asked [of s v g E] show ?thesis by (simp add: run_live_def finished_def)
  next
    case (Backfills chat requests n)
    with backfill_cmd_quiet [of s v g E chat requests n] show ?thesis by (auto simp: run_live_def finished_def intro: asked_quiet)
  next
    case (LooksUp phone requests n)
    with lookup_cmd_quiet [of s v g E phone requests n] show ?thesis by (auto simp: run_live_def finished_def intro: asked_quiet)
  next
    case (Downloads mid out)
    with download_cmd_quiet [of s v g E mid out] show ?thesis by (auto simp: run_live_def finished_def intro: asked_quiet)
  next
    case (Syncs stay ws)
    with sync_cmd_quiet [of s v g E stay ws] show ?thesis by (auto simp: run_live_def intro: asked_quiet)
  qed
  then show ?thesis by (auto simp: moved_def)
qed

section \<open>A message that is sent\<close>

lemma with_client_reaches:
  assumes "resolve_layout v g = Inr l" "ce_open v (ly_database l) = None" "gm_open (here E) l (lv_files s) = Inr auth" "le_connect (here E) = None"
  shows "with_client v g E opened banner fail run s = (let r = run l (live_events (at E 0) 0 (ly_session l) (le_events (here E)) s) in
    (fst r, banner @ fst (snd r), snd (snd r)))"
  using assms by (simp add: with_client_def Let_def split: prod.split)

text \<open>The environment of the examples: a paired session whose phone accepts everything.\<close>

definition plain_live :: live_env where
  "plain_live = rpc_env.extend (quiet_rpc 5) (live_env.fields None (\<lambda>text. Inr (True, ''phone'')) None [] None (\<lambda>c. False) (\<lambda>p. False) None None
     (\<lambda>p. Inl ''no input'') (\<lambda>u. ''qr'') (\<lambda>t. ''2026-01-01T00:00:00Z'') (\<lambda>p. False) (\<lambda>p. False) (\<lambda>p. None) (\<lambda>p. None) (\<lambda>p. None))"

definition paired_live :: "db \<Rightarrow> live" where
  "paired_live d = host.extend (idle_host d) (live.fields (Map.empty(''/s/session.json'' \<mapsto> ''{}'')))"

definition write_globals :: globals where
  "write_globals = json_globals\<lparr>gf_read_only := False, gf_json := False\<rparr>"

lemma plain_layout: "resolve_layout plain_cli write_globals = Inr (layout_at ''/s'')" "resolve_layout plain_cli json_globals = Inr (layout_at ''/s'')"
proof -
  have "path_clean ''/s'' = ''/s''" by code_simp
  then show "resolve_layout plain_cli write_globals = Inr (layout_at ''/s'')" "resolve_layout plain_cli json_globals = Inr (layout_at ''/s'')"
    by (simp_all add: resolve_layout_def resolve_def write_globals_def json_globals_def path_abs_def is_rooted_def has_prefix_def
        ensure_dirs_def plain_cli_def)
qed

lemma plain_opens: "gm_open plain_live (layout_at ''/s'') (lv_files (paired_live d)) = Inr (True, ''phone'')"
proof -
  have "path_join [''/s'', ''session.json''] = ''/s/session.json''" by code_simp
  then show ?thesis by (simp add: gm_open_def open_session_def load_auth_def plain_live_def rpc_env.defs live_env.defs paired_live_def host.defs
      live.defs layout_at_def)
qed

theorem commands_send_only_asked_witness:
  "db_ok (h_db (fst (run_live plain_cli write_globals (\<lambda>_. plain_live) (SendsText ''c1'' ''hi'' '''') (paired_live fresh_db))))"
proof -
  have "db_ok (h_db (paired_live fresh_db))" by (simp add: h_db_def paired_live_def idle_host_def host.defs)
  with commands_send_only_asked [of plain_cli write_globals "\<lambda>_. plain_live" "SendsText ''c1'' ''hi'' ''''" "paired_live fresh_db"]
  show ?thesis by blast
qed

lemma send_text_accepted_call:
  assumes "send_text e cid body reply h = (h', Inr res)"
  shows "\<exists>req. h_log h' = h_log h @ [CallGetConversation cid, CallSend req] \<and> sr_conv req = cid \<and> sr_body req = body
    \<and> ph_send e req = Inr StSuccess \<and> ph_echo e (ph_uuid e) = Inr (st_message_id res, st_conversation_id res)"
proof -
  have ne: "cid \<noteq> ''''" "body \<noteq> ''''" using assms by (auto simp: send_text_def split: if_splits)
  obtain h1 w where w: "wait_for_settings e h = (h1, w)" by fastforce
  obtain h2 b where b: "build_send_text_request e cid body reply (ph_uuid e) h1 = (h2, b)" by fastforce
  have "h_log h1 = h_log h" using w by (auto simp: wait_for_settings_def split: option.splits sum.splits)
  moreover have "h2 = logged (CallGetConversation cid) h1" "\<And>req. b = Inr req \<Longrightarrow> sr_conv req = cid \<and> sr_body req = body"
    using b by (auto simp: build_send_text_request_def Let_def split: sum.splits if_splits option.splits)
  moreover obtain req where "b = Inr req" "h' = logged (CallSend req) h2" "ph_send e req = Inr StSuccess"
      "ph_echo e (ph_uuid e) = Inr (st_message_id res, st_conversation_id res)"
    using assms ne w b by (auto simp: send_text_def Let_def split: option.splits sum.splits if_splits)
  ultimately show ?thesis by (intro exI [of _ req]) simp
qed

lemma with_client_result:
  assumes "with_client v g E opened banner fail run s = (s', out, r)"
  shows "(\<exists>err. r = fail err) \<or> (\<exists>(l :: layout) out'. run l (live_events (at E 0) 0 (ly_session l) (le_events (here E)) s) = (s', out', r) \<and> out = banner @ out')"
  using assms unfolding with_client_def Let_def by (auto split: sum.splits option.splits prod.splits)

lemma run_connected_success:
  assumes "run_connected v g E run s = (s', out, None)"
  shows "\<exists>(l :: layout) s1. run (live_events (at E 0) 0 (ly_session l) (le_events (here E)) s) = (s1, out, None) \<and> s' = logged CallDisconnect s1"
proof -
  have "\<exists>l :: layout. closing (case le_ready (here E) of
       Some (Some t) \<Rightarrow> (live_events (at E 0) 0 (ly_session l) (le_events (here E)) s, [], Some (Wrap ''wait for ready'' (Driver t)))
     | _ \<Rightarrow> run (live_events (at E 0) 0 (ly_session l) (le_events (here E)) s)) = (s', out, None)"
    using with_client_result [OF assms [unfolded run_connected_def]] by simp
  then obtain l :: layout where l: "closing (case le_ready (here E) of
       Some (Some t) \<Rightarrow> (live_events (at E 0) 0 (ly_session l) (le_events (here E)) s, [], Some (Wrap ''wait for ready'' (Driver t)))
     | _ \<Rightarrow> run (live_events (at E 0) 0 (ly_session l) (le_events (here E)) s)) = (s', out, None)" by (elim exE)
  let ?r = "run (live_events (at E 0) 0 (ly_session l) (le_events (here E)) s)"
  from l have "closing ?r = (s', out, None)" by (auto simp: closing_def split: option.splits)
  then show ?thesis by (cases ?r) (auto simp: closing_def)
qed

lemma live_events_log [simp]: "h_log (live_events E i session evs s) = h_log s"
  using live_events_moved [of s E i session evs] by (simp add: moved_def)

text \<open>\<open>send text\<close> reports success only of a message that the phone accepted and echoed: writing was allowed, one
  request went out, with the conversation and the text asked for, and the ids printed are the echo's.\<close>

theorem send_cmd_reports:
  assumes "send_text_cmd v g E to message reply s = (s', out, None)"
  shows "\<not> gf_read_only g \<and> (\<exists>req res. h_log s' = h_log s @ [CallGetConversation to, CallSend req, CallDisconnect]
    \<and> sr_conv req = to \<and> sr_body req = message \<and> ph_send (here (at E 1)) req = Inr StSuccess
    \<and> ph_echo (here (at E 1)) (ph_uuid (here (at E 1))) = Inr (st_message_id res, st_conversation_id res) \<and> out = sent_output g res)"
proof -
  let ?run = "\<lambda>s :: live. case send_text (here (at E 1)) to message reply s of
    (s1, Inl err) \<Rightarrow> (s1, [], Some err) | (s1, Inr res) \<Rightarrow> (s1, sent_output g res, None)"
  have g: "\<not> gf_read_only g" and r: "run_connected v g E ?run s = (s', out, None)"
    using assms by (auto simp: send_text_cmd_def require_writable_def simp del: One_nat_def split: if_splits)
  obtain l :: layout and s1 where l: "?run (live_events (at E 0) 0 (ly_session l) (le_events (here E)) s) = (s1, out, None)"
    "s' = logged CallDisconnect s1" using run_connected_success [OF r] by blast
  obtain s2 x where x: "send_text (here (at E 1)) to message reply (live_events (at E 0) 0 (ly_session l) (le_events (here E)) s) = (s2, x)"
    by fastforce
  with l(1) obtain res where res: "x = Inr res" "out = sent_output g res" "s2 = s1" by (cases x) (auto simp del: One_nat_def)
  from send_text_accepted_call [OF x [unfolded res(1,3)]] g res(2) l(2) show ?thesis by auto
qed

lemma plain_sends:
  "\<exists>s' out. send_text_cmd plain_cli write_globals (\<lambda>_. plain_live) ''c1'' ''hi'' '''' (paired_live fresh_db) = (s', out, None)"
proof -
  let ?E = "\<lambda>_ :: nat list. plain_live"
  have env: "le_connect plain_live = None" "le_ready plain_live = None" "le_events plain_live = []"
    by (simp_all add: plain_live_def rpc_env.defs live_env.defs)
  have send: "\<exists>s1 res. send_text plain_live ''c1'' ''hi'' '''' (paired_live fresh_db) = (s1, Inr res)"
    by (simp add: send_text_def wait_for_settings_def build_send_text_request_def sim_for_participant_def plain_live_def quiet_rpc_def
        quiet_phone_def rpc_env.defs live_env.defs phone_env.defs env.defs paired_live_def idle_host_def host.defs live.defs Let_def
        sample_gm_conversation_def logged_def)
  from send obtain s1 res where "send_text plain_live ''c1'' ''hi'' '''' (paired_live fresh_db) = (s1, Inr res)" by blast
  moreover have "\<not> gf_read_only write_globals" by (simp add: write_globals_def)
  ultimately show ?thesis
    using with_client_reaches [OF plain_layout(1), of "?E" "paired_live fresh_db" "(True, ''phone'')" _ _ "Some :: err \<Rightarrow> err option"] env plain_opens
    by (simp add: send_text_cmd_def require_writable_def run_connected_def here_def at_def plain_cli_def closing_def Let_def)
qed

theorem send_cmd_reports_witness:
  "\<exists>req. CallSend req \<in> set (h_log (fst (send_text_cmd plain_cli write_globals (\<lambda>_. plain_live) ''c1'' ''hi'' '''' (paired_live fresh_db))))
    \<and> sr_body req = ''hi''"
proof -
  obtain s' out where r: "send_text_cmd plain_cli write_globals (\<lambda>_. plain_live) ''c1'' ''hi'' '''' (paired_live fresh_db) = (s', out, None)"
    using plain_sends by blast
  from send_cmd_reports [OF r] show ?thesis unfolding r by auto
qed

section \<open>The daemon that serve starts\<close>

lemma truncate_host [simp]: "h_db (host.truncate s) = h_db s" "h_log (host.truncate s) = h_log s" "h_pump (host.truncate s) = h_pump s"
  by (simp_all add: host.defs h_db_def)

lemma serve_start_result:
  assumes "serve_start v g E version f s = (out, Inr (dp, dm))"
  shows "\<exists>l mode fs. serve_mode (here E) (serve_read_only (sf_auto f) (sf_read_only f)) (sf_sends f) = Inr mode \<and> resolve_layout v g = Inr l
    \<and> dp = serve_deps f l version mode \<and> dm = Running (new_server dp (host.truncate s) fs) (dp_pump dp)
    \<and> rpc_listen (here E) (serve_socket f l) (lv_files s) = (fs, None)"
  using assms by (auto simp: serve_start_def Let_def split: sum.splits option.splits prod.splits if_splits)


text \<open>\<open>Listen\<close> takes whatever lies at the path for a stale socket: an ordinary file given as \<open>--socket\<close> is deleted.\<close>

lemma listen_deletes_file:
  assumes "le_exists e path" "\<not> le_answers e path" "le_remove e path = None" "le_listen e path = Some t"
  shows "rpc_listen e path fs = (fs(path := None), Some (Wrap (''listen on '' @ path) (Driver t)))"
  using assms by (simp add: rpc_listen_def Let_def)

lemma plain_serves:
  "\<exists>out dp dm. serve_start plain_cli json_globals (\<lambda>_. plain_live) ''1'' \<lparr>sf_auto = False, sf_read_only = None, sf_idle_exit = None, sf_sends = ''approve'',
     sf_socket = '''', sf_offline = True\<rparr> (paired_live fresh_db) = (out, Inr (dp, dm))"
proof -
  have "ce_open plain_cli (ly_database (layout_at ''/s'')) = None" by (simp add: plain_cli_def)
  moreover have "rpc_listen plain_live sock fs0 = (fs0(sock \<mapsto> ''''), None)" for sock fs0
    by (simp add: rpc_listen_def plain_live_def rpc_env.defs live_env.defs)
  ultimately show ?thesis using plain_layout(2)
    by (auto simp: serve_start_def serve_mode_def serve_read_only_def here_def Let_def split: prod.split option.split)
qed


section \<open>Waiting for a daemon to go\<close>

definition stop_fuel :: nat where
  "stop_fuel = 26"

interpretation gone: polling "wait_gone w deadline" "\<lambda>k. \<not> sp_now w (Suc k) < deadline"
  for w :: "'p stop_env_scheme" and deadline :: int
proof
  have "wait_gone w deadline fuel k = Some r \<Longrightarrow> wait_gone w deadline (fuel + n) k = Some r" for fuel k n r
  proof (induction fuel arbitrary: k)
    case (Suc fuel)
    then show ?case by (auto split: if_splits)
  qed simp
  from this [of _ _ _ 1] show "wait_gone w deadline fuel k = Some r \<Longrightarrow> wait_gone w deadline (Suc fuel) k = Some r" for fuel k r by simp
qed (auto split: if_splits)

text \<open>C31: stopping a running daemon ends, whether the daemon goes or not, within 26 looks at its socket when
  the clock runs and each pause lasts; so both pairing commands come to their end.\<close>

theorem stop_daemon_ends:
  assumes "sp_now w 0 \<le> sp_now w 1" and "\<And>k. sp_now w (Suc k) + stop_pause \<le> sp_now w (Suc (Suc k))"
  shows "(\<exists>r. \<forall>n. stop_running_daemon w l (stop_fuel + n) = Some r)
    \<and> auth_cmd w g e stop_fuel fs \<noteq> None \<and> auth_google_cmd w g e stop_fuel path fs \<noteq> None"
proof -
  have "\<not> sp_now w (Suc 25) < sp_now w 0 + stop_wait"
    using assms by (intro ticking_late [where pause = stop_pause]) (simp_all add: stop_wait_def stop_pause_def)
  from gone.settles [OF this] obtain r where r: "\<And>m. wait_gone w (sp_now w 0 + stop_wait) (stop_fuel + m) 0 = Some r"
    by (auto simp: stop_fuel_def)
  have stop: "\<exists>r. \<forall>n. stop_running_daemon w l (stop_fuel + n) = Some r" for l
    unfolding stop_running_daemon_def r by (simp split: sum.split)
  have none: "stop_running_daemon w l stop_fuel \<noteq> None" for l using stop [of l] by (metis add_0_right option.distinct(1))
  have "auth_cmd w g e stop_fuel fs \<noteq> None"
    using none by (simp only: auth_cmd_def option.map_disc_iff not_False_eq_True split: sum.split) simp
  moreover have "auth_google_cmd w g e stop_fuel path fs \<noteq> None"
    using none by (simp only: auth_google_cmd_def option.map_disc_iff not_False_eq_True split: sum.split outcome.split) simp
  ultimately show ?thesis using stop by blast
qed

definition leaving_env :: stop_env where
  "leaving_env = mcp_env.extend (tool_env (\<lambda>m ps. Inl ClientClosed)) (stop_env.fields (\<lambda>k. int k * stop_pause) (\<lambda>k. k < 3))"

theorem stop_daemon_ends_witness:
  "\<exists>r. stop_running_daemon leaving_env (layout_at ''/s'') stop_fuel = Some r"
proof -
  have "sp_now leaving_env 0 \<le> sp_now leaving_env 1" "sp_now leaving_env (Suc k) + stop_pause \<le> sp_now leaving_env (Suc (Suc k))" for k
    by (simp_all add: leaving_env_def mcp_env.defs stop_env.defs stop_pause_def)
  from stop_daemon_ends [OF this] show ?thesis by (metis add_0_right)
qed

section \<open>Doctor\<close>

lemma query_row_count: "no_fault e \<Longrightarrow> query_row e stm [n] = Inr n"
  by (simp add: query_row_def no_fault_exec)

lemma doctor_store_facts:
  "dr_issues (doctor_store v E l d r) = dr_issues r @ (case ce_open v (ly_database l) of None \<Rightarrow> [] | Some err \<Rightarrow> [''open store: '' @ err_text err])"
  "dr_paired (doctor_store v E l d r) = dr_paired r" "dr_session (doctor_store v E l d r) = dr_session r"
  "dr_phone (doctor_store v E l d r) = dr_phone r"
  by (simp_all add: doctor_store_def doctor_issue_def Let_def split: option.split sum.split)

lemma doctor_store_counts:
  assumes "\<And>q. no_fault (E q)" and "ce_open v (ly_database l) = None"
  shows "dr_conversations (doctor_store v E l d r) = length (convs d)" "dr_messages (doctor_store v E l d r) = length (msgs d)"
    "dr_contacts (doctor_store v E l d r) = length (contacts d)" "dr_opens (doctor_store v E l d r)"
  using assms by (simp_all add: doctor_store_def Let_def or_none_def count_conversations_def count_messages_def count_contacts_def
      query_row_count here_def at_def split: sum.split)

definition session_opens :: "'z live_env_scheme \<Rightarrow> layout \<Rightarrow> files \<Rightarrow> string \<Rightarrow> bool" where
  "session_opens e l fs phone \<longleftrightarrow> le_stat e = None \<and> fs (ly_session l) \<noteq> None \<and> gm_open e l fs = Inr (True, phone)"

lemma gm_open_paired: "gm_open e l fs = Inr auth \<Longrightarrow> fst auth"
  by (auto simp: gm_open_def open_session_def split: sum.splits if_splits)

lemma doctor_session_facts:
  "dr_issues (doctor_session e l fs r) = dr_issues r \<longleftrightarrow> (\<exists>phone. session_opens e l fs phone)"
  "\<not> dr_paired r \<Longrightarrow> dr_paired (doctor_session e l fs r) \<Longrightarrow> session_opens e l fs (dr_phone (doctor_session e l fs r)) \<and> dr_session (doctor_session e l fs r)"
  by (auto simp: doctor_session_def session_opens_def doctor_issue_def auth_snapshot_def Let_def dest: gm_open_paired
    split: option.splits sum.splits if_splits prod.splits bool.splits)


text \<open>The times of a report are always printed as JSON, the zero time included, although their tags say
  \<open>omitempty\<close>, which does not apply to a struct.\<close>

lemma doctor_json_times:
  "\<exists>fs. doctor_json g empty_report = JObj fs \<and> (''last_event_time'', JStr (gf_json_time g zero_time_ms)) \<in> set fs"
  by (simp add: doctor_json_def empty_report_def)


section \<open>Approving\<close>

lemma approve_wire: "clean_json (json_map [(''approval_id'', JStr aid)]) = JObj [(''approval_id'', JStr (clean_text aid))]"
proof -
  have "clean_text ''approval_id'' = ''approval_id''" by (rule clean_ascii) (simp add: byte_of_def)
  then show ?thesis by (simp add: json_map_def)
qed

lemma approve_answer:
  assumes "handle_approvals_approve dp E (Some (JObj [(''approval_id'', JStr t)])) s = (s', Inr j)" and "db_ok (h_db s)"
  obtains a row s1 res where "a \<in> set (approvals (h_db s))" "ap_id a = t" "ap_status a = ''pending''"
    "row \<in> set (approvals (h_db s'))" "j = approval_json row" "ap_id row = t" "ap_status row = ''sent''"
    "ap_updated_at row = now_ms (here (at (at E 1) 2))" "\<exists>b \<in> set (approvals (h_db s)). ap_created_at row = ap_created_at b"
    "send_text (here (at (at E 1) 1)) (ap_conv a) (ap_body a) (coalesce (ap_reply a) '''') s = (s1, Inr res)" "h_log s' = h_log s1"
proof -
  have vals: "obj_values ''approval_id'' [(''approval_id'', JStr t)] = [JStr t]"
    by (simp add: obj_values_def fold_approval_names)
  obtain a where a: "get_approval (here (at E 0)) t (h_db s) = Inr a" "ap_status a = ''pending''"
    "perform_approved_send dp (at E 1) a s = (s', Inr j)"
    using assms(1) by (auto simp: handle_approvals_approve_def decode_params_def reply_found_def get_string_def vals approval_pending_def Let_def
        simp del: One_nat_def split: if_splits sum.splits)
  have mem: "a \<in> set (approvals (h_db s))" "ap_id a = t" using get_approval_Inr [OF a(1)] by auto
  from performed_answer [OF a(3) assms(2)] obtain row s1 res where row: "row \<in> set (approvals (h_db s'))" "j = approval_json row"
    "ap_id row = ap_id a" "ap_status row = ''sent''" "ap_updated_at row = now_ms (here (at (at E 1) 2))"
    "\<exists>b \<in> set (approvals (h_db s)). ap_created_at row = ap_created_at b"
    and st: "send_text (here (at (at E 1) 1)) (ap_conv a) (ap_body a) (coalesce (ap_reply a) '''') s = (s1, Inr res)" "h_log s' = h_log s1"
    by blast
  show thesis by (rule that [OF mem a(2) row(1,2) _ row(4-6) st]) (simp add: row(3) mem(2))
qed

text \<open>C34: \<open>approvals approve\<close> reports success only when writing was allowed and the daemon has recorded that very
  approval, pending before, as sent, the phone having accepted its text in the course of the call.\<close>

theorem approve_cmd_honest:
  assumes "approvals_approve_cmd w g aid = Some (out, None)" and "dial_daemon w g = Some (Inr call)"
    and "dispatch dp E c ''approvals.approve'' (Some (clean_json (json_map [(''approval_id'', JStr aid)]))) s = Returns (s', r)"
    and "call ''approvals.approve'' (Some (json_map [(''approval_id'', JStr aid)])) = wire_answer num r"
    and "db_ok (h_db s)"
  shows "\<not> gf_read_only g \<and> (\<exists>row \<in> set (approvals (h_db s')). ap_id row = clean_text aid \<and> ap_status row = ''sent'')
    \<and> (\<exists>a \<in> set (approvals (h_db s)). ap_id a = clean_text aid \<and> ap_status a = ''pending''
        \<and> (\<exists>s1 res. send_text (here (at (at (at E 0) 1) 1)) (ap_conv a) (ap_body a) (coalesce (ap_reply a) '''') s = (s1, Inr res)
            \<and> h_log s' = h_log s1))"
proof -
  have g: "\<not> gf_read_only g" and called: "\<exists>a. call_into w decode_approval (wire_answer num r) = Inr a"
    using assms(1,2,4) by (auto simp: approvals_approve_cmd_def require_writable_def call_daemon_def split: if_splits sum.splits)
  from called obtain x where "call_into w decode_approval (wire_answer num r) = Inr x" by (elim exE)
  from wire_answer_Inl [OF this] obtain j where j: "r = Inr j" by (elim exE)
  have handled: "handle_approvals_approve dp (at E 0) (Some (JObj [(''approval_id'', JStr (clean_text aid))])) s = (s', Inr j)"
    using assms(3) unfolding approve_wire by (simp add: dispatch_def j)
  show ?thesis
  proof (rule approve_answer [OF handled assms(5)])
    fix a row res and s1 :: server
    assume r: "a \<in> set (approvals (h_db s))" "ap_id a = clean_text aid" "ap_status a = ''pending''"
      "row \<in> set (approvals (h_db s'))" "ap_id row = clean_text aid" "ap_status row = ''sent''" "h_log s' = h_log s1"
    assume st: "send_text (here (at (at (at E 0) 1) 1)) (ap_conv a) (ap_body a) (coalesce (ap_reply a) '''') s = (s1, Inr res)"
    show ?thesis using g r by (intro conjI bexI [of _ row] bexI [of _ a] exI [of _ s1] exI [of _ res] st) simp_all
  qed
qed

lemma approval_sends:
  "\<exists>s' row. handle_approvals_approve approving_deps (\<lambda>_. quiet_rpc 5) (Some (JObj [(''approval_id'', JStr ''a1'')])) (a_server approval_db)
      = (s', Inr (approval_json row)) \<and> exact_number (ap_created_at row) \<and> exact_number (ap_updated_at row)"
proof -
  let ?h = "handle_approvals_approve approving_deps (\<lambda>_. quiet_rpc 5) (Some (JObj [(''approval_id'', JStr ''a1'')])) (a_server approval_db)"
  have "case ?h of (s', Inr j) \<Rightarrow> True | _ \<Rightarrow> False" by code_simp
  then obtain s' j where h: "?h = (s', Inr j)" by (auto split: prod.splits sum.splits)
  have ok: "db_ok (h_db (a_server approval_db))" by simp
  have five: "ap_created_at b = 5" if "b \<in> set (approvals (h_db (a_server approval_db)))" for b
    using that by (simp add: approval_db_rows)
  show ?thesis
  proof (rule approve_answer [OF h ok])
    fix row
    assume r: "j = approval_json row" "ap_updated_at row = now_ms (here (at (at (\<lambda>_. quiet_rpc 5) 1) 2))"
      "\<exists>b \<in> set (approvals (h_db (a_server approval_db))). ap_created_at row = ap_created_at b"
    from r(3) five have "ap_created_at row = 5" by auto
    with h r(1,2) show ?thesis by (intro exI [of _ s'] exI [of _ row]) (simp add: exact_number_def here_def at_def)
  qed
qed

theorem approve_cmd_honest_witness:
  "\<exists>call out (s' :: server). approvals_approve_cmd (tool_env call) write_globals ''a1'' = Some (out, None)
    \<and> (\<exists>row \<in> set (approvals (h_db s')). ap_id row = ''a1'' \<and> ap_status row = ''sent'')"
proof -
  let ?ps = "json_map [(''approval_id'', JStr ''a1'')]" and ?E = "\<lambda>_ :: nat list. quiet_rpc 5"
  have a1: "clean_text ''a1'' = ''a1''" by (rule clean_ascii) (simp add: byte_of_def)
  obtain s' row where h: "handle_approvals_approve approving_deps (at ?E 0) (Some (JObj [(''approval_id'', JStr ''a1'')])) (a_server approval_db)
      = (s', Inr (approval_json row))" "exact_number (ap_created_at row)" "exact_number (ap_updated_at row)"
    using approval_sends by (auto simp: at_def)
  define call :: caller where "call = (\<lambda>m ps. wire_answer id (Inr (approval_json row)))"
  have disp: "dispatch approving_deps ?E 1 ''approvals.approve'' (Some (clean_json ?ps)) (a_server approval_db) = Returns (s', Inr (approval_json row))"
    using h(1) unfolding approve_wire a1 by (simp add: dispatch_def)
  have dial: "dial_daemon (tool_env call) write_globals = Some (Inr call)"
  proof -
    have "path_clean ''/s'' = ''/s''" by code_simp
    then show ?thesis
      by (simp add: dial_daemon_def resolve_layout_def resolve_def write_globals_def json_globals_def path_abs_def is_rooted_def has_prefix_def
          ensure_dirs_def tool_env_def ensure_running_def rpc_dial_def alive_def pong_of_def fields_ok_def get_bool_def obj_values_def)
  qed
  have "clean_json (approval_json row) \<noteq> JNull" by (simp add: approval_json_def)
  then have dec: "call_into w decode_approval (call m ps) = Inr (clean_approval row)" for w :: mcp_env and m ps
    using approval_decodes [OF h(2,3), of id] by (simp add: call_into_def call_def wire_answer_def wire_value_def)
  have "\<not> gf_read_only write_globals" by (simp add: write_globals_def)
  then obtain out where cmd: "approvals_approve_cmd (tool_env call) write_globals ''a1'' = Some (out, None)"
    by (simp add: approvals_approve_cmd_def require_writable_def call_daemon_def dial dec)
  have c: "call ''approvals.approve'' (Some ?ps) = wire_answer id (Inr (approval_json row))" by (simp add: call_def)
  have "db_ok (h_db (a_server approval_db))" by simp
  from approve_cmd_honest [OF cmd dial disp c this] cmd a1 show ?thesis by auto
qed

end
