(* ===== verification/Whole_System.thy ===== *)
theory Whole_System
  imports Rpc_Client_Facts "HOL-Library.Sublist"
begin

text \<open>
  The daemon of \<open>gmcli serve\<close> together with the clients that dialled it (\<open>internal/rpc/client.go\<close>), and with other
  programs on the same socket: requests travel as lines, each is handled in a goroutine of its own and so in any order,
  answers and pushed events come back as lines in the order they were written. A history of the requests handled is
  kept beside the state.
\<close>

section \<open>Clients and daemon\<close>

type_synonym sent_request = "int \<times> string \<times> json option"

text \<open>A client, the requests it has issued, those of them that are on their way to the daemon, everything the daemon
  has written to its connection, and how much of that its read loop has taken.\<close>

record peer =
  pe_client :: rclient
  pe_asked :: "sent_request list"
  pe_wire :: "sent_request list"
  pe_inbox :: "json list"
  pe_seen :: nat

definition new_peer :: peer where
  "new_peer = \<lparr>pe_client = dialled, pe_asked = [], pe_wire = [], pe_inbox = [], pe_seen = 0\<rparr>"

text \<open>A request that was handled: on which connection, and in what state and surroundings.\<close>

record handling =
  ha_conn :: nat
  ha_request :: sent_request
  ha_calls :: "unit rpc_calls"
  ha_before :: server

record gmkit =
  gk_daemon :: daemon
  gk_peers :: "nat \<Rightarrow> peer option"
  gk_history :: "handling list"

definition out_of :: "server \<Rightarrow> nat \<Rightarrow> json list" where
  "out_of s c = (case List.find (\<lambda>k. cn_id k = c) (sv_conns s @ sv_closed s) of None \<Rightarrow> [] | Some k \<Rightarrow> cn_out k)"

text \<open>What can still be read from a connection survives the daemon's end.\<close>

definition inbox_of :: "daemon \<Rightarrow> nat \<Rightarrow> json list \<Rightarrow> json list" where
  "inbox_of d c old = (case d of Running s l \<Rightarrow> out_of s c | Exited s r \<Rightarrow> out_of s c | Crashed \<Rightarrow> old)"

definition daemon_to :: "daemon \<Rightarrow> gmkit \<Rightarrow> gmkit" where
  "daemon_to d y = y\<lparr>gk_daemon := d, gk_peers := (\<lambda>c. map_option (\<lambda>p. p\<lparr>pe_inbox := inbox_of d c (pe_inbox p)\<rparr>) (gk_peers y c))\<rparr>"

definition set_peer :: "nat \<Rightarrow> peer \<Rightarrow> gmkit \<Rightarrow> gmkit" where
  "set_peer c p y = y\<lparr>gk_peers := (gk_peers y)(c \<mapsto> p)\<rparr>"

text \<open>\<open>Call\<close> up to the write: a client that is closed writes nothing.\<close>

definition issue :: "string \<Rightarrow> json option \<Rightarrow> peer \<Rightarrow> peer" where
  "issue m ps p = (let q = pe_client p; new = (if rc_closed q then [] else [(rc_next q + 1, m, ps)]) in
     p\<lparr>pe_client := start_call m q, pe_asked := pe_asked p @ new, pe_wire := pe_wire p @ new\<rparr>)"

definition take_wire :: "nat \<Rightarrow> peer \<Rightarrow> peer" where
  "take_wire k p = p\<lparr>pe_wire := take k (pe_wire p) @ drop (Suc k) (pe_wire p)\<rparr>"

definition take_inbox :: "(json \<Rightarrow> json) \<Rightarrow> peer \<Rightarrow> peer" where
  "take_inbox num p = p\<lparr>pe_client := read_line num (marshal (pe_inbox p ! pe_seen p)) (pe_client p), pe_seen := Suc (pe_seen p)\<rparr>"

definition record_handling :: "handling \<Rightarrow> gmkit \<Rightarrow> gmkit" where
  "record_handling h y = y\<lparr>gk_history := gk_history y @ [h]\<rparr>"

text \<open>
  The steps: a client dials; it calls, with a method name and parameters as the program has them; the daemon handles a
  request of a client; a read loop takes a line; a client does something of its own, that is neither a call nor a line
  read; the daemon does anything else, requests of other programs on the socket included.
\<close>

inductive gmkit_step :: "deps \<Rightarrow> (json \<Rightarrow> json) \<Rightarrow> gmkit \<Rightarrow> gmkit \<Rightarrow> bool" for dp num where
  dials: "daemon_step dp E (Connects c) (gk_daemon y) d \<Longrightarrow> gmkit_step dp num y (set_peer c new_peer (daemon_to d y))"
| calls: "gk_peers y c = Some p \<Longrightarrow> valid_text m \<Longrightarrow> m \<noteq> '''' \<Longrightarrow> list_all integral (case ps of None \<Rightarrow> [] | Some v \<Rightarrow> [v]) \<Longrightarrow>
    gmkit_step dp num y (set_peer c (issue m ps p) y)"
| handles: "gk_peers y c = Some p \<Longrightarrow> k < length (pe_wire p) \<Longrightarrow> pe_wire p ! k = (i, m, ps) \<Longrightarrow> gk_daemon y = Running s l \<Longrightarrow>
    daemon_step dp E (Sends c (marshal (request_json i m ps))) (Running s l) d \<Longrightarrow>
    gmkit_step dp num y (record_handling \<lparr>ha_conn = c, ha_request = (i, m, ps), ha_calls = E, ha_before = s\<rparr>
      (daemon_to d (set_peer c (take_wire k p) y)))"
| reads: "gk_peers y c = Some p \<Longrightarrow> pe_seen p < length (pe_inbox p) \<Longrightarrow> rc_reading (pe_client p) \<Longrightarrow> rc_stuck (pe_client p) = None \<Longrightarrow>
    gmkit_step dp num y (set_peer c (take_inbox num p) y)"
| own: "gk_peers y c = Some p \<Longrightarrow> client_step num (pe_client p) q \<Longrightarrow> rc_next q = rc_next (pe_client p) \<Longrightarrow>
    rc_lines q = rc_lines (pe_client p) \<Longrightarrow> gmkit_step dp num y (set_peer c (p\<lparr>pe_client := q\<rparr>) y)"
| moves: "daemon_step dp E ev (gk_daemon y) d \<Longrightarrow> (\<And>c line. ev = Sends c line \<Longrightarrow> gk_peers y c = None) \<Longrightarrow>
    gmkit_step dp num y (daemon_to d y)"

inductive gmkit_reach :: "deps \<Rightarrow> (json \<Rightarrow> json) \<Rightarrow> gmkit \<Rightarrow> bool" for dp num where
  start: "daemon_reach dp d \<Longrightarrow> gmkit_reach dp num \<lparr>gk_daemon = d, gk_peers = Map.empty, gk_history = []\<rparr>"
| step: "gmkit_reach dp num y \<Longrightarrow> gmkit_step (new_deps dp) num y y' \<Longrightarrow> gmkit_reach dp num y'"

section \<open>What a step of the daemon writes\<close>

lemma pushes_frame [simp]:
  "only_pushes s (s1\<lparr>sv_auth_expired := b\<rparr>) = only_pushes s s1" "only_pushes s (s1\<lparr>h_settings := x\<rparr>) = only_pushes s s1"
  "only_pushes s (s1\<lparr>h_pump := q\<rparr>) = only_pushes s s1" "only_pushes s (s1\<lparr>sv_timer := b\<rparr>) = only_pushes s s1"
  "only_pushes s (s1\<lparr>sv_timer := b, sv_idle_fired := b'\<rparr>) = only_pushes s s1"
  "only_pushes s (take_fatal s1) = only_pushes s s1" "only_pushes s (mark_auth_expired s1) = only_pushes s s1"
  by (simp_all add: only_pushes_def take_fatal_def mark_auth_expired_def)

lemma integral_state [simp]: "integral (state_json t)"
  by (simp add: state_json_def)

lemma pushes_then: "only_pushes s s1 \<Longrightarrow> integral v \<Longrightarrow> only_pushes s (broadcast t v s1)"
  by (rule pushes_trans [OF _ pushes_broadcast])

lemma gm_event_pushes: "only_pushes s (handle_gm_event e ev s)"
  by (cases "(e, ev, s)" rule: handle_gm_event.cases) (auto split: option.split intro!: pushes_then)

lemma phone_event_pushes: "only_pushes s (phone_event dp E ev s)"
proof -
  have "only_pushes s (client_event dp (here E) ev s)" by (cases ev) (simp_all add: client_event_def)
  then show ?thesis unfolding phone_event_def Let_def by (intro pushes_trans [OF _ gm_event_pushes]) simp
qed

lemma fold_pushes: "(\<And>x. integral (f x)) \<Longrightarrow> only_pushes s s1 \<Longrightarrow> only_pushes s (fold (\<lambda>x. broadcast t (f x)) xs s1)"
  by (induction xs arbitrary: s1) (auto intro: pushes_then)

lemma finish_pairing_pushes: "only_pushes s (finish_pairing event name flow s)"
  by (auto simp: finish_pairing_def Let_def split: prod.split sum.split intro!: pushes_then fold_pushes)

lemma refresh_all_conns: "sv_conns (refresh_all E i n cs s) = sv_conns s"
  by (induction E i n cs s rule: refresh_all.induct) (simp_all add: Let_def split: sum.split prod.split)

lemma run_task_pushes: "only_pushes s (run_task dp E t s)"
proof (cases t)
  case TaskRefresh
  have "only_pushes s (refresh_all E' i n cs (logged call s))" for E' i n cs call
    by (rule pushes_same) (simp add: refresh_all_conns)
  with TaskRefresh show ?thesis by (auto simp: run_refresh_def Let_def split: sum.split intro!: pushes_then)
qed (simp_all add: run_pairing_def run_google_pairing_def finish_pairing_pushes)

lemma startup_import_pushes: "only_pushes s (startup_import E s)"
  unfolding startup_import_def by (rule pushes_then [OF quiet_pushes [OF initial_import_quiet]]) simp

lemma serve_turn_pushes: "serve_turn e w l s = (s', l', r) \<Longrightarrow> only_pushes s s' \<and> sv_closed s' = sv_closed s"
  by (auto simp: serve_turn_def split: wake.splits list.splits if_splits intro!: pushes_then)
    (simp_all add: take_fatal_def mark_auth_expired_def logged_def put_db_def)

definition pushes :: "json list \<Rightarrow> bool" where
  "pushes ns \<longleftrightarrow> list_all (\<lambda>j. is_push j \<and> integral j) ns"

lemma pushes_list [simp]: "pushes []" "pushes (a @ b) \<longleftrightarrow> pushes a \<and> pushes b"
  by (simp_all add: pushes_def)

lemma find_append: "List.find P (xs @ ys) = (case List.find P xs of None \<Rightarrow> List.find P ys | Some x \<Rightarrow> Some x)"
  by (induction xs) simp_all

lemma find_conn:
  "list_all2 pushed cs cs' \<Longrightarrow> (case List.find (\<lambda>k. cn_id k = c) cs of
     None \<Rightarrow> List.find (\<lambda>k. cn_id k = c) cs' = None
   | Some k \<Rightarrow> \<exists>k'. List.find (\<lambda>k. cn_id k = c) cs' = Some k' \<and> pushed k k')"
  by (induction rule: list_all2_induct) (auto simp: pushed_def split: option.splits)

lemma out_of_pushed:
  assumes "only_pushes s s'" and "sv_closed s' = sv_closed s"
  shows "\<exists>ns. out_of s' c = out_of s c @ ns \<and> pushes ns"
  using find_conn [OF assms(1) [unfolded only_pushes_def], of c] assms(2)
  by (auto simp: out_of_def find_append pushed_def pushes_def split: option.splits)

lemma find_none: "List.find P xs = None \<longleftrightarrow> (\<forall>x \<in> set xs. \<not> P x)"
  by (auto simp: find_None_iff)

lemma out_of_write:
  "out_of (write_to i v s) c = out_of s c @ (if i = c \<and> conn_open c s then [v] else [])"
proof -
  have "List.find (\<lambda>k. cn_id k = c) (map (\<lambda>k. if cn_id k = i then write_conn v k else k) cs)
      = map_option (\<lambda>k. if c = i then write_conn v k else k) (List.find (\<lambda>k. cn_id k = c) cs)" for cs
    by (induction cs) (auto simp: write_conn_def)
  moreover have "conn_open c s \<longleftrightarrow> List.find (\<lambda>k. cn_id k = c) (sv_conns s) \<noteq> None"
    by (auto simp: conn_open_def find_none)
  ultimately show ?thesis
    by (auto simp: out_of_def find_append write_to_def write_conn_def split: option.splits)
qed

lemma find_unique:
  "distinct (map f xs) \<Longrightarrow> k \<in> set xs \<Longrightarrow> List.find (\<lambda>x. f x = f k) xs = Some k"
  by (induction xs) (auto simp: rev_image_eqI)

lemma out_of_drop:
  assumes "distinct (map cn_id (sv_conns s @ sv_closed s))"
  shows "out_of (drop_conn dp i s) c = out_of s c"
proof -
  let ?old = "sv_conns s @ sv_closed s"
  let ?new = "filter (\<lambda>k. cn_id k \<noteq> i) (sv_conns s) @ sv_closed s @ filter (\<lambda>k. cn_id k = i) (sv_conns s)"
  have new: "distinct (map cn_id ?new)" "set ?new = set ?old" using assms by (auto simp: distinct_map_filter)
  have "List.find (\<lambda>k. cn_id k = c) ?new = List.find (\<lambda>k. cn_id k = c) ?old"
  proof (cases "\<exists>k \<in> set ?old. cn_id k = c")
    case True
    then obtain k where k: "k \<in> set ?old" "cn_id k = c" by blast
    with new(2) have "k \<in> set ?new" by blast
    from find_unique [OF new(1) this] find_unique [OF assms k(1)] k(2) show ?thesis by simp
  next
    case False
    then have "List.find (\<lambda>k. cn_id k = c) ?old = None" "List.find (\<lambda>k. cn_id k = c) ?new = None"
      using new(2) unfolding find_none by blast+
    then show ?thesis by simp
  qed
  then show ?thesis by (simp add: out_of_def drop_conn_def Let_def)
qed

text \<open>A line of another connection, and every other event, adds pushed events at most to what a connection was sent.\<close>

definition open_in :: "daemon \<Rightarrow> nat \<Rightarrow> bool" where
  "open_in d c = (case d of Running s l \<Rightarrow> conn_open c s | _ \<Rightarrow> False)"

definition knows :: "daemon \<Rightarrow> nat \<Rightarrow> bool" where
  "knows d c = (case d of Running s l \<Rightarrow> conn_known c s | Exited s r \<Rightarrow> conn_known c s | Crashed \<Rightarrow> True)"

lemma open_pushes: "only_pushes s s' \<Longrightarrow> conn_open c s' = conn_open c s"
proof -
  assume "only_pushes s s'"
  from only_pushes_answers [OF this] have "map cn_id (sv_conns s') = map cn_id (sv_conns s)" by blast
  then have "cn_id ` set (sv_conns s') = cn_id ` set (sv_conns s)" by (metis set_map)
  then show ?thesis by (simp add: conn_open_def)
qed

lemma known_pushes: "only_pushes s s' \<Longrightarrow> sv_closed s' = sv_closed s \<Longrightarrow> conn_known c s' = conn_known c s"
  using open_pushes [of s s' c] by (simp add: conn_known_def conn_open_def image_Un)

lemma known_write [simp]: "conn_known c (write_to i v s) = conn_known c s" "conn_open c (write_to i v s) = conn_open c s"
proof -
  have "cn_id ` set (map (\<lambda>k. if cn_id k = i then write_conn v k else k) cs) = cn_id ` set cs" for cs
  proof -
    have "cn_id (if cn_id k = i then write_conn v k else k) = cn_id k" for k by (simp add: write_conn_def)
    then have "map cn_id (map (\<lambda>k. if cn_id k = i then write_conn v k else k) cs) = map cn_id cs" by (simp only: map_map comp_def)
    from arg_cong [OF this, of set] show ?thesis by (simp only: set_map)
  qed
  then show "conn_known c (write_to i v s) = conn_known c s" "conn_open c (write_to i v s) = conn_open c s"
    by (simp_all add: conn_known_def conn_open_def write_to_def image_Un)
qed

lemma known_drop [simp]: "conn_known c (drop_conn dp i s) = conn_known c s"
  by (auto simp: conn_known_def drop_conn_def Let_def)

lemma inbox_simps [simp]:
  "inbox_of (Running s l) c old = out_of s c" "inbox_of (Exited s r) c old = out_of s c" "inbox_of Crashed c old = old"
  "knows (Running s l) c = conn_known c s" "knows (Exited s r) c = conn_known c s" "knows Crashed c"
  "open_in (Running s l) c = conn_open c s" "\<not> open_in (Exited s r) c" "\<not> open_in Crashed c"
  by (simp_all add: inbox_of_def knows_def open_in_def)

lemma line_elsewhere:
  assumes "handle_line dp E i line s = Returns s'" and "i \<noteq> c"
  shows "\<exists>ns. out_of s' c = out_of s c @ ns \<and> pushes ns"
proof -
  have pushed: "\<exists>ns. out_of (write_to i v s1) c = out_of s c @ ns \<and> pushes ns"
    if "only_pushes s s1" "sv_closed s1 = sv_closed s" for v s1
    using out_of_pushed [OF that, of c] assms(2) by (simp add: out_of_write)
  have disp: "only_pushes s s1 \<and> sv_closed s1 = sv_closed s" if "dispatch dp E i m ps s = Returns (s1, r)" for m ps s1 r
    using dispatch_pushes [OF that] dispatch_ok [OF that] by (simp add: step_ok_def)
  from assms(1) consider "s' = s" | v where "s' = write_to i v s" | m ps s1 r where "dispatch dp E i m ps s = Returns (s1, r)" "s' = s1"
    | m ps s1 r v where "dispatch dp E i m ps s = Returns (s1, r)" "s' = write_to i v s1"
    by (auto simp: handle_line_def split: if_splits option.splits outcome.splits)
  then show ?thesis
  proof cases
    case 1
    then show ?thesis by (intro exI [of _ "[]"]) simp
  next
    case (2 v)
    with pushed [of s v] show ?thesis by simp
  next
    case (3 m ps s1 r)
    with out_of_pushed disp [OF 3(1)] show ?thesis by blast
  next
    case (4 m ps s1 r v)
    with pushed disp [OF 4(1)] show ?thesis by blast
  qed
qed

lemma line_known:
  assumes h: "handle_line dp E i line s = Returns s'"
  shows "conn_known c s' = conn_known c s" "conn_open c s' = conn_open c s"
proof -
  have "map cn_id (sv_conns s') = map cn_id (sv_conns s)" "sv_closed s' = sv_closed s"
    using handle_line_ok [OF h] grows_ids [of "sv_conns s" "sv_conns s'"] by (simp_all add: step_ok_def)
  then have "cn_id ` set (sv_conns s') = cn_id ` set (sv_conns s)" "sv_closed s' = sv_closed s" by (metis set_map)+
  then show "conn_known c s' = conn_known c s" "conn_open c s' = conn_open c s" by (simp_all add: conn_known_def conn_open_def image_Un)
qed

lemma out_of_new:
  assumes "conn_known c s" and "\<not> conn_known i s"
  shows "out_of (accept_conn i s) c = out_of s c"
proof -
  have "i \<noteq> c" using assms by auto
  then show ?thesis by (simp add: out_of_def find_append accept_conn_def split: option.split)
qed

lemma step_elsewhere:
  assumes "daemon_step dp E ev (Running s l) d" and "daemon_inv dp s l" and "conn_known c s" and "\<And>line. ev \<noteq> Sends c line"
  shows "\<exists>ns. inbox_of d c (out_of s c) = out_of s c @ ns \<and> pushes ns"
    and "knows d c" and "open_in d c \<Longrightarrow> conn_open c s"
proof -
  have ids: "distinct (map cn_id (sv_conns s @ sv_closed s))" using assms(2) by (simp add: daemon_inv_def)
  have both: "(\<exists>ns. out_of s' c = out_of s c @ ns \<and> pushes ns) \<and> conn_known c s' \<and> (conn_open c s' \<longrightarrow> conn_open c s)"
    if "only_pushes s s'" "sv_closed s' = sv_closed s" for s'
    using out_of_pushed [OF that] known_pushes [OF that] open_pushes [OF that(1)] assms(3) by blast
  have none: "\<exists>ns. out_of s c = out_of s c @ ns \<and> pushes ns" by (intro exI [of _ "[]"]) simp
  have closed: "sv_closed s' = sv_closed s" if "step_ok dp s s'" for s' using that by (simp add: step_ok_def)
  have "(\<exists>ns. inbox_of d c (out_of s c) = out_of s c @ ns \<and> pushes ns) \<and> knows d c \<and> (open_in d c \<longrightarrow> conn_open c s)"
    using assms(1)
  proof (cases rule: running_step [consumes 1, case_names connects line_ok line_crash leaves timer phone task import_runs connect_fails turn exit])
    case (connects i)
    then have "\<not> conn_known i s" by (simp add: conn_known_def)
    moreover have "conn_known c (accept_conn i s)" using assms(3) by (auto simp: conn_known_def accept_conn_def)
    moreover have "conn_open c (accept_conn i s) \<longrightarrow> conn_open c s" using \<open>\<not> conn_known i s\<close> assms(3)
      by (auto simp: conn_known_def conn_open_def accept_conn_def)
    ultimately show ?thesis using connects none by (simp add: out_of_new [OF assms(3)])
  next
    case (line_ok i line s')
    with assms(3,4) line_elsewhere [OF line_ok(4), of c] line_known [OF line_ok(4)] show ?thesis by auto
  next
    case line_crash
    with none show ?thesis by simp
  next
    case (leaves i)
    have "conn_open c (drop_conn dp i s) \<longrightarrow> conn_open c s" by (auto simp: conn_open_def drop_conn_def Let_def)
    with leaves none assms(3) show ?thesis by (simp add: out_of_drop [OF ids])
  next
    case timer
    with both [of "timer_fires s"] show ?thesis by (simp add: timer_fires_def)
  next
    case (phone ev')
    with both [OF phone_event_pushes closed [OF phone_event_ok]] show ?thesis by simp
  next
    case (task k)
    have "only_pushes s (run_task dp E (sv_tasks s ! k) (take_task k s))"
      by (rule pushes_trans [OF _ run_task_pushes]) (simp add: take_task_def)
    with both [OF _ closed [OF task_step_ok]] task assms(2) show ?thesis by (simp add: daemon_inv_def)
  next
    case import_runs
    with both [OF startup_import_pushes closed [OF startup_import_ok]] show ?thesis by simp
  next
    case connect_fails
    with none assms(3) show ?thesis by simp
  next
    case (turn w s' l')
    with both [of s'] serve_turn_pushes [OF turn(4)] show ?thesis by simp
  next
    case (exit w s' l' r)
    with both serve_turn_pushes [OF exit(4)] show ?thesis by simp
  qed
  then show "\<exists>ns. inbox_of d c (out_of s c) = out_of s c @ ns \<and> pushes ns" "knows d c" "open_in d c \<Longrightarrow> conn_open c s" by blast+
qed

text \<open>What a request of a client brings it: the answer of \<open>dispatch\<close>, or the end of the process.\<close>

definition dispatched :: "deps \<Rightarrow> handling \<Rightarrow> (server \<times> (rpc_error + json)) outcome" where
  "dispatched dp h = (case ha_request h of (i, m, ps) \<Rightarrow>
     dispatch dp (ha_calls h) (ha_conn h) m (map_option clean_json ps) (ha_before h))"

definition answer_to :: "deps \<Rightarrow> handling \<Rightarrow> json list" where
  "answer_to dp h = (case dispatched dp h of Panics \<Rightarrow> [] | Returns (s', r) \<Rightarrow> [response_json (Some (JInt (fst (ha_request h)))) r])"

definition well_formed :: "sent_request \<Rightarrow> bool" where
  "well_formed a = (case a of (i, m, ps) \<Rightarrow> valid_text m \<and> m \<noteq> '''' \<and> list_all integral (case ps of None \<Rightarrow> [] | Some v \<Rightarrow> [v]))"

lemma line_here:
  assumes "daemon_step dp E (Sends c (marshal (request_json i m ps))) (Running s l) d" and "well_formed (i, m, ps)"
    and "h = \<lparr>ha_conn = c, ha_request = (i, m, ps), ha_calls = E, ha_before = s\<rparr>"
  shows "\<exists>ns. inbox_of d c (out_of s c) = out_of s c @ ns @ (if conn_open c s then answer_to dp h else []) \<and> pushes ns"
    and "knows d c" and "open_in d c \<Longrightarrow> conn_open c s" and "d \<noteq> Crashed \<Longrightarrow> answer_to dp h \<noteq> []"
proof -
  let ?line = "marshal (request_json i m ps)"
  have "?line \<noteq> ''''" by (simp add: request_json_def)
  moreover have "integral v" if "ps = Some v" for v using assms(2) that by (simp add: well_formed_def)
  ultimately have line: "handle_line dp E c ?line s = (case dispatched dp h of Panics \<Rightarrow> Panics
      | Returns (s', r) \<Rightarrow> Returns (write_to c (response_json (Some (JInt i)) r) s'))"
    using assms(2,3) by (simp add: handle_line_def request_roundtrip dispatched_def well_formed_def split: outcome.split prod.split)
  have known: "conn_known c s" using assms(1) by (auto elim: daemon_step.cases)
  have "(\<exists>ns. inbox_of d c (out_of s c) = out_of s c @ ns @ (if conn_open c s then answer_to dp h else []) \<and> pushes ns)
     \<and> knows d c \<and> (open_in d c \<longrightarrow> conn_open c s) \<and> (d \<noteq> Crashed \<longrightarrow> answer_to dp h \<noteq> [])"
  proof (cases "dispatched dp h")
    case Panics
    with line assms(1) have "d = Crashed" by (auto elim: daemon_step.cases)
    with Panics show ?thesis by (auto simp: answer_to_def intro!: exI [of _ "[]"])
  next
    case (Returns x)
    obtain s1 r where x: "x = (s1, r)" by fastforce
    have d: "d = Running (write_to c (response_json (Some (JInt i)) r) s1) l"
      using assms(1) line Returns x by (auto elim: daemon_step.cases)
    have disp: "dispatch dp E c m (map_option clean_json ps) s = Returns (s1, r)"
      using Returns x assms(3) by (simp add: dispatched_def)
    have same: "only_pushes s s1" "sv_closed s1 = sv_closed s"
      using dispatch_pushes [OF disp] dispatch_ok [OF disp] by (simp_all add: step_ok_def)
    from out_of_pushed [OF same, of c] obtain ns where "out_of s1 c = out_of s c @ ns" "pushes ns" by blast
    moreover have "answer_to dp h = [response_json (Some (JInt i)) r]" using Returns x assms(3) by (simp add: answer_to_def)
    ultimately show ?thesis
      using known_pushes [OF same] open_pushes [OF same(1)] known by (auto simp: d out_of_write)
  qed
  then show "\<exists>ns. inbox_of d c (out_of s c) = out_of s c @ ns @ (if conn_open c s then answer_to dp h else []) \<and> pushes ns"
    "knows d c" "open_in d c \<Longrightarrow> conn_open c s" "d \<noteq> Crashed \<Longrightarrow> answer_to dp h \<noteq> []" by blast+
qed

section \<open>The invariant\<close>

definition answered_in :: "json list \<Rightarrow> json list" where
  "answered_in out = filter (\<lambda>j. \<not> is_push j) out"

lemma answered_in_simps [simp]: "answered_in (a @ b) = answered_in a @ answered_in b" "answered_in [] = []"
  by (simp_all add: answered_in_def)

lemma answered_pushes [simp]: "pushes ns \<Longrightarrow> answered_in ns = []"
  by (simp add: pushes_def answered_in_def list_all_iff)

lemma answered_answer [simp]: "answered_in (answer_to dp h) = answer_to dp h"
  by (simp add: answered_in_def answer_to_def response_not_push split: outcome.split prod.split)

text \<open>The side of the network, for a peer on connection \<open>c\<close> whose handled requests are \<open>hs\<close>.\<close>

definition net_inv :: "deps \<Rightarrow> daemon \<Rightarrow> handling list \<Rightarrow> nat \<Rightarrow> peer \<Rightarrow> bool" where
  "net_inv dp d hs c p \<longleftrightarrow> knows d c \<and> inbox_of d c (pe_inbox p) = pe_inbox p
     \<and> (\<forall>j \<in> set (pe_inbox p). is_push j \<longrightarrow> integral j)
     \<and> subseq (answered_in (pe_inbox p)) (concat (map (answer_to dp) hs))
     \<and> (open_in d c \<longrightarrow> answered_in (pe_inbox p) = concat (map (answer_to dp) hs))
     \<and> (d \<noteq> Crashed \<longrightarrow> list_all (\<lambda>h. answer_to dp h \<noteq> []) hs)
     \<and> mset (pe_wire p) + mset (map ha_request hs) = mset (pe_asked p)"

text \<open>The side of the client: it has read what it has seen, its requests are numbered, and a call that waits with
  nothing in its channel is one whose answer was not read.\<close>

definition waits_ok :: "(json \<Rightarrow> json) \<Rightarrow> sent_request list \<Rightarrow> rclient \<Rightarrow> bool" where
  "waits_ok num asked q \<longleftrightarrow> (\<forall>i m b cl. rc_calls q i = Some (Waiting m b cl) \<longrightarrow> i \<in> fst ` set asked
     \<and> (rc_reading q \<longrightarrow> \<not> cl) \<and> (b = None \<longrightarrow> list_all (\<lambda>l. \<not> answers_call num i l) (rc_lines q)))"

definition client_side :: "(json \<Rightarrow> json) \<Rightarrow> peer \<Rightarrow> bool" where
  "client_side num p \<longleftrightarrow> client_reach num (pe_client p)
     \<and> pe_seen p \<le> length (pe_inbox p) \<and> rc_lines (pe_client p) = map marshal (take (pe_seen p) (pe_inbox p))
     \<and> distinct (map fst (pe_asked p)) \<and> (\<forall>a \<in> set (pe_asked p). fst a \<le> rc_next (pe_client p) \<and> well_formed a)
     \<and> waits_ok num (pe_asked p) (pe_client p)"

lemma net_later:
  assumes "net_inv dp d hs c p" and "inbox_of d' c (pe_inbox p) = pe_inbox p @ ns" and "pushes ns" and "knows d' c"
    and "open_in d' c \<Longrightarrow> open_in d c" and "d \<noteq> Crashed"
  shows "net_inv dp d' hs c (p\<lparr>pe_inbox := inbox_of d' c (pe_inbox p)\<rparr>)"
proof -
  have "inbox_of d' c (pe_inbox p @ ns) = pe_inbox p @ ns" using assms(2) by (cases d') (simp_all add: inbox_of_def)
  moreover have "\<forall>j \<in> set ns. integral j" using assms(3) by (simp add: pushes_def list_all_iff)
  ultimately show ?thesis using assms by (auto simp: net_inv_def)
qed

lemma client_later:
  assumes "client_side num p"
  shows "client_side num (p\<lparr>pe_inbox := pe_inbox p @ ns\<rparr>)"
  using assms by (simp add: client_side_def)

text \<open>A step of the daemon that is no request of this peer.\<close>

lemma peer_elsewhere:
  assumes "net_inv dp d hs c p" and "client_side num p" and "daemon_step dp E ev d d'" and "\<And>line. ev \<noteq> Sends c line"
    and "\<And>s l. d = Running s l \<Longrightarrow> daemon_inv dp s l"
  shows "net_inv dp d' hs c (p\<lparr>pe_inbox := inbox_of d' c (pe_inbox p)\<rparr>) \<and> client_side num (p\<lparr>pe_inbox := inbox_of d' c (pe_inbox p)\<rparr>)"
proof -
  obtain s l where d: "d = Running s l" using assms(3) by (auto elim: daemon_step.cases)
  have inbox: "out_of s c = pe_inbox p" and known: "conn_known c s" using assms(1) by (simp_all add: net_inv_def d)
  note step = step_elsewhere [OF assms(3) [unfolded d] assms(5) [OF d] known assms(4)]
  from step(1) obtain ns where ns: "inbox_of d' c (pe_inbox p) = pe_inbox p @ ns" "pushes ns" unfolding inbox by blast
  from net_later [OF assms(1) ns step(2)] step(3) client_later [OF assms(2), of ns] show ?thesis by (simp add: d ns(1))
qed

text \<open>The peer's own request is handled.\<close>

lemma mset_take_wire: "k < length xs \<Longrightarrow> mset (take k xs @ drop (Suc k) xs) + {#xs ! k#} = mset xs"
  by (metis add_mset_add_single id_take_nth_drop mset.simps(2) mset_append union_mset_add_mset_right)

lemma peer_handled:
  assumes net: "net_inv dp (Running s l) hs c p" and cl: "client_side num p" and k: "k < length (pe_wire p)" "pe_wire p ! k = (i, m, ps)"
    and step: "daemon_step dp E (Sends c (marshal (request_json i m ps))) (Running s l) d'"
    and h: "h = \<lparr>ha_conn = c, ha_request = (i, m, ps), ha_calls = E, ha_before = s\<rparr>"
  shows "net_inv dp d' (hs @ [h]) c ((take_wire k p)\<lparr>pe_inbox := inbox_of d' c (pe_inbox p)\<rparr>)
    \<and> client_side num ((take_wire k p)\<lparr>pe_inbox := inbox_of d' c (pe_inbox p)\<rparr>)"
proof -
  have inbox: "out_of s c = pe_inbox p" using net by (simp add: net_inv_def)
  have "(i, m, ps) \<in># mset (pe_wire p)" using k nth_mem by fastforce
  then have "(i, m, ps) \<in># mset (pe_asked p)" using net by (metis net_inv_def union_iff)
  then have "well_formed (i, m, ps)" using cl by (auto simp: client_side_def)
  note here = line_here [OF step this h]
  from here(1) obtain ns where ns: "inbox_of d' c (pe_inbox p) = pe_inbox p @ ns @ (if conn_open c s then answer_to dp h else [])" "pushes ns"
    unfolding inbox by blast
  let ?new = "pe_inbox p @ ns @ (if conn_open c s then answer_to dp h else [])"
  have stays: "inbox_of d' c ?new = ?new" using ns(1) by (cases d') (simp_all add: inbox_of_def)
  have pushed: "\<forall>j \<in> set ns. integral j" using ns(2) by (simp add: pushes_def list_all_iff)
  have answer: "\<not> is_push j" if "j \<in> set (answer_to dp h)" for j
    using that by (auto simp: answer_to_def response_not_push split: outcome.splits)
  have sub: "subseq (answered_in (pe_inbox p)) (concat (map (answer_to dp) hs))" using net by (simp add: net_inv_def)
  have whole: "answered_in (pe_inbox p) = concat (map (answer_to dp) hs)" if "conn_open c s" using net that by (simp add: net_inv_def)
  have subs: "subseq (answered_in ?new) (concat (map (answer_to dp) (hs @ [h])))"
    using sub whole ns(2) by (auto intro: list_emb_append2 list_emb_append_mono)
  have wire: "mset (pe_wire (take_wire k p)) + mset (map ha_request (hs @ [h])) = mset (pe_asked p)"
  proof -
    have "mset (pe_wire (take_wire k p)) + {#(i, m, ps)#} = mset (pe_wire p)"
      using mset_take_wire [OF k(1)] k(2) by (simp add: take_wire_def)
    moreover have "mset (pe_wire p) + mset (map ha_request hs) = mset (pe_asked p)" using net by (simp only: net_inv_def)
    ultimately have "mset (pe_wire (take_wire k p)) + {#(i, m, ps)#} + mset (map ha_request hs) = mset (pe_asked p)" by (simp only:)
    then show ?thesis by (simp add: h)
  qed
  have "net_inv dp d' (hs @ [h]) c ((take_wire k p)\<lparr>pe_inbox := ?new\<rparr>)"
    unfolding net_inv_def using here(2,3,4) stays pushed answer net subs whole ns(2) wire
    by (auto simp: take_wire_def net_inv_def)
  moreover have "client_side num ((take_wire k p)\<lparr>pe_inbox := ?new\<rparr>)" using cl by (simp add: client_side_def take_wire_def)
  ultimately show ?thesis by (simp only: ns(1))
qed

text \<open>What a line of the inbox is to the client.\<close>

lemma push_probe: "integral data \<Longrightarrow> decode_probe (marshal (notification_json typ data)) = Some (None, ''event'')"
  using json_roundtrip [of "notification_json typ data"]
  by (simp add: decode_probe_def notification_json_def fields_ok_def get_string_def field_names)

lemma push_no_answer: "is_push j \<Longrightarrow> integral j \<Longrightarrow> \<not> answers_call num i (marshal j)"
  by (auto simp: is_push_def answers_call_def push_probe)

lemma answer_line:
  assumes "j \<in> set (answer_to dp h)"
  shows "\<exists>s' r rs. dispatched dp h = Returns (s', r) \<and> j = response_json (Some (JInt (fst (ha_request h)))) r
    \<and> decode_probe (marshal j) = Some (Some (JInt (fst (ha_request h))), '''')
    \<and> decode_response num (marshal j) = Some rs \<and> outcome_of rs = wire_answer num r"
proof -
  obtain s' r where r: "dispatched dp h = Returns (s', r)" "j = response_json (Some (JInt (fst (ha_request h)))) r"
    using assms by (cases "dispatched dp h") (auto simp: answer_to_def)
  then have "sendable r" by (auto simp: dispatched_def split: prod.splits dest: dispatch_sendable)
  from response_roundtrip [OF this] r show ?thesis by blast
qed

lemma inbox_line:
  assumes "net_inv dp d hs c p" and "j \<in> set (pe_inbox p)"
  shows "is_push j \<and> integral j \<or> (\<exists>h \<in> set hs. j \<in> set (answer_to dp h))"
proof (cases "is_push j")
  case False
  then have "j \<in> set (answered_in (pe_inbox p))" using assms(2) by (simp add: answered_in_def)
  then have "j \<in> set (concat (map (answer_to dp) hs))" using assms(1) by (auto simp: net_inv_def elim: list_emb_set)
  then show ?thesis by auto
qed (use assms in \<open>simp add: net_inv_def\<close>)

lemma inbox_answers:
  assumes "net_inv dp d hs c p" and "j \<in> set (pe_inbox p)" and "answers_call num i (marshal j)"
  shows "\<exists>h \<in> set hs. fst (ha_request h) = i \<and> j \<in> set (answer_to dp h)"
  using inbox_line [OF assms(1,2)] assms(3) push_no_answer answer_line by (fastforce simp: answers_call_def)

lemma handled_asked: "net_inv dp d hs c p \<Longrightarrow> h \<in> set hs \<Longrightarrow> ha_request h \<in> set (pe_asked p)"
proof -
  assume "net_inv dp d hs c p" and "h \<in> set hs"
  then have "ha_request h \<in># mset (pe_wire p) + mset (map ha_request hs)" by simp
  with \<open>net_inv dp d hs c p\<close> show ?thesis by (simp only: net_inv_def set_mset_mset)
qed

lemma wire_asked: "net_inv dp d hs c p \<Longrightarrow> a \<in> set (pe_wire p) \<Longrightarrow> a \<in> set (pe_asked p)"
proof -
  assume "net_inv dp d hs c p" and "a \<in> set (pe_wire p)"
  then have "a \<in># mset (pe_wire p) + mset (map ha_request hs)" by simp
  with \<open>net_inv dp d hs c p\<close> show ?thesis by (simp only: net_inv_def set_mset_mset)
qed

lemma peer_calls:
  assumes net: "net_inv dp d hs c p" and cl: "client_side num p"
    and wf: "valid_text m" "m \<noteq> ''''" "list_all integral (case ps of None \<Rightarrow> [] | Some v \<Rightarrow> [v])"
  shows "net_inv dp d hs c (issue m ps p) \<and> client_side num (issue m ps p)"
proof
  show "net_inv dp d hs c (issue m ps p)" using net by (simp add: net_inv_def issue_def Let_def)
  let ?q = "pe_client p" and ?n = "rc_next (pe_client p) + 1"
  have reach: "client_reach num (start_call m ?q)" using cl by (auto simp: client_side_def intro: client_reach.more client_step.starts)
  have ids: "\<forall>a \<in> set (pe_asked p). fst a \<le> rc_next ?q" and waits: "waits_ok num (pe_asked p) ?q"
    and lines: "rc_lines ?q = map marshal (take (pe_seen p) (pe_inbox p))" using cl by (simp_all add: client_side_def)
  have unread: "\<not> answers_call num ?n l" if l: "l \<in> set (rc_lines ?q)" for l
  proof
    assume a: "answers_call num ?n l"
    from l obtain j where "j \<in> set (pe_inbox p)" "l = marshal j" unfolding lines by (auto dest: in_set_takeD)
    with inbox_answers [OF net] a obtain h where "h \<in> set hs" "fst (ha_request h) = ?n" by blast
    with handled_asked [OF net] ids show False by fastforce
  qed
  show "client_side num (issue m ps p)"
  proof (cases "rc_closed ?q")
    case True
    have "waits_ok num (pe_asked p) (start_call m ?q)" using waits True by (auto simp: waits_ok_def start_call_def Let_def)
    with cl reach True show ?thesis by (auto simp: client_side_def issue_def start_call_def Let_def)
  next
    case False
    have "waits_ok num (pe_asked p @ [(?n, m, ps)]) (start_call m ?q)"
      using waits False unread by (auto simp: waits_ok_def start_call_def Let_def list_all_iff)
    moreover have "?n \<notin> fst ` set (pe_asked p)" using ids by auto
    ultimately show ?thesis using cl reach False wf by (auto simp: client_side_def issue_def start_call_def Let_def well_formed_def)
  qed
qed

lemma waits_sub:
  assumes "waits_ok num asked q" and "rc_lines q' = rc_lines q" and "rc_reading q' \<Longrightarrow> rc_reading q"
    and "\<And>i m b cl. rc_calls q' i = Some (Waiting m b cl) \<Longrightarrow> \<exists>cl0. rc_calls q i = Some (Waiting m b cl0) \<and> (rc_reading q' \<longrightarrow> cl = cl0)"
  shows "waits_ok num asked q'"
  unfolding waits_ok_def
proof (intro allI impI)
  fix i m b cl
  assume "rc_calls q' i = Some (Waiting m b cl)"
  from assms(4) [OF this] obtain cl0 where "rc_calls q i = Some (Waiting m b cl0)" "rc_reading q' \<longrightarrow> cl = cl0" by blast
  with assms(1-3) show "i \<in> fst ` set asked \<and> (rc_reading q' \<longrightarrow> \<not> cl)
      \<and> (b = None \<longrightarrow> list_all (\<lambda>l. \<not> answers_call num i l) (rc_lines q'))"
    unfolding waits_ok_def by metis
qed

lemma own_waits:
  assumes "client_step num q q'" and "rc_next q' = rc_next q" and "rc_lines q' = rc_lines q" and "waits_ok num asked q"
  shows "waits_ok num asked q'"
  using assms(1)
proof cases
  case (starts m)
  with assms(2) show ?thesis by (simp add: start_call_def Let_def split: if_splits)
next
  case (takes i)
  show ?thesis
    by (rule waits_sub [OF assms(4)]; use takes in \<open>auto simp: take_response_def leave_call_def
      split: option.splits call_state.splits bool.splits if_splits\<close>)
next
  case (reads line)
  with assms(3) show ?thesis by (simp add: read_line_def Let_def deliver_def split: if_splits option.splits prod.splits json.splits call_state.splits)
next
  case ends
  show ?thesis by (rule waits_sub [OF assms(4)]; use ends in \<open>auto simp: end_reading_def split: option.splits call_state.splits\<close>)
qed (rule waits_sub [OF assms(4)]; auto simp: leave_call_def split: if_splits)+

lemma peer_own:
  assumes "net_inv dp d hs c p" and "client_side num p" and "client_step num (pe_client p) q"
    and "rc_next q = rc_next (pe_client p)" and "rc_lines q = rc_lines (pe_client p)"
  shows "net_inv dp d hs c (p\<lparr>pe_client := q\<rparr>) \<and> client_side num (p\<lparr>pe_client := q\<rparr>)"
  using assms own_waits [OF assms(3-5)] client_reach.more [OF _ assms(3)] by (simp add: net_inv_def client_side_def)

lemma read_keeps [simp]:
  "rc_lines (read_line num line q) = rc_lines q @ [line]" "rc_next (read_line num line q) = rc_next q"
  "rc_reading (read_line num line q) = rc_reading q"
  by (simp_all add: read_line_def Let_def deliver_def split: option.split prod.split json.split call_state.split)

lemma read_push:
  assumes "is_push j" and "integral j"
  shows "rc_calls (read_line num (marshal j) q) = rc_calls q"
  using assms by (auto simp: is_push_def read_line_def push_probe Let_def split: option.split)

lemma read_answer:
  assumes "decode_probe (marshal j) = Some (Some (JInt i), '''')" and "decode_response num (marshal j) = Some rs"
  shows "rc_calls (read_line num (marshal j) q) = rc_calls (if i \<in> set (rc_pending q) then deliver i rs q else q)"
proof -
  have "marshal j \<noteq> ''''"
  proof
    assume "marshal j = ''''"
    with assms(1) have "decode_probe '''' = Some (Some (JInt i), '''')" by simp
    moreover have "decode_probe '''' = None" by code_simp
    ultimately show False by simp
  qed
  with assms show ?thesis by (simp add: read_line_def Let_def deliver_def split: option.split call_state.split)
qed

lemma read_waits:
  assumes net: "net_inv dp d hs c p" and j: "j \<in> set (pe_inbox p)" and reach: "client_reach num q" and reading: "rc_reading q"
    and waits: "waits_ok num asked q"
  shows "waits_ok num asked (read_line num (marshal j) q)"
  unfolding waits_ok_def
proof (intro allI impI)
  fix i m b cl
  assume st: "rc_calls (read_line num (marshal j) q) i = Some (Waiting m b cl)"
  have old: "\<exists>b0. rc_calls q i = Some (Waiting m b0 cl) \<and> (b = None \<longrightarrow> b0 = None \<and> \<not> answers_call num i (marshal j))"
    using inbox_line [OF net j]
  proof
    assume push: "is_push j \<and> integral j"
    with st read_push [of j num q] push_no_answer [of j num i] show ?thesis by auto
  next
    assume "\<exists>h \<in> set hs. j \<in> set (answer_to dp h)"
    then obtain h where "j \<in> set (answer_to dp h)" by blast
    from answer_line [OF this, of num] obtain n rs where
      probe: "decode_probe (marshal j) = Some (Some (JInt n), '''')" and resp: "decode_response num (marshal j) = Some rs" by blast
    have own: "answers_call num i (marshal j) \<longleftrightarrow> i = n" by (auto simp: answers_call_def probe)
    have calls: "rc_calls (if n \<in> set (rc_pending q) then deliver n rs q else q) i = Some (Waiting m b cl)"
      using st read_answer [OF probe resp, of q] by simp
    have "n \<in> set (rc_pending q)" if "i = n" "b = None"
    proof (rule ccontr)
      assume "n \<notin> set (rc_pending q)"
      with calls that have "rc_calls q n = Some (Waiting m None cl)" by simp
      moreover from this waits reading have "\<not> cl" by (auto simp: waits_ok_def)
      ultimately show False using client_reach_inv [OF reach] \<open>n \<notin> set (rc_pending q)\<close> by (cases cl) (auto simp: client_inv_def)
    qed
    with calls own show ?thesis by (auto simp: deliver_def split: if_splits option.splits call_state.splits)
  qed
  then obtain b0 where b0: "rc_calls q i = Some (Waiting m b0 cl)" "b = None \<longrightarrow> b0 = None \<and> \<not> answers_call num i (marshal j)" by blast
  have "i \<in> fst ` set asked \<and> (rc_reading q \<longrightarrow> \<not> cl) \<and> (b0 = None \<longrightarrow> list_all (\<lambda>l. \<not> answers_call num i l) (rc_lines q))"
    using waits b0(1) unfolding waits_ok_def by blast
  with b0(2) show "i \<in> fst ` set asked \<and> (rc_reading (read_line num (marshal j) q) \<longrightarrow> \<not> cl)
      \<and> (b = None \<longrightarrow> list_all (\<lambda>l. \<not> answers_call num i l) (rc_lines (read_line num (marshal j) q)))"
    by simp
qed

lemma peer_reads:
  assumes net: "net_inv dp d hs c p" and cl: "client_side num p" and "pe_seen p < length (pe_inbox p)"
    and "rc_reading (pe_client p)" and "rc_stuck (pe_client p) = None"
  shows "net_inv dp d hs c (take_inbox num p) \<and> client_side num (take_inbox num p)"
proof -
  let ?j = "pe_inbox p ! pe_seen p"
  have "?j \<in> set (pe_inbox p)" using assms(3) by simp
  moreover have reach: "client_reach num (pe_client p)" using cl by (simp add: client_side_def)
  ultimately have "waits_ok num (pe_asked p) (read_line num (marshal ?j) (pe_client p))"
    using read_waits [OF net _ _ assms(4)] cl by (simp add: client_side_def)
  with client_reach.more [OF reach client_step.reads [OF assms(4,5)], of "marshal ?j"] net cl assms(3) show ?thesis
    by (simp add: net_inv_def client_side_def take_inbox_def take_Suc_conv_app_nth)
qed

section \<open>Every reachable state\<close>

definition handled_on :: "nat \<Rightarrow> gmkit \<Rightarrow> handling list" where
  "handled_on c y = filter (\<lambda>h. ha_conn h = c) (gk_history y)"

definition gmkit_inv :: "deps \<Rightarrow> (json \<Rightarrow> json) \<Rightarrow> gmkit \<Rightarrow> bool" where
  "gmkit_inv dp num y \<longleftrightarrow> daemon_reach dp (gk_daemon y) \<and> (\<forall>h \<in> set (gk_history y). knows (gk_daemon y) (ha_conn h))
     \<and> (\<forall>h \<in> set (gk_history y). \<exists>l. daemon_reach dp (Running (ha_before h) l))
     \<and> (\<forall>c p. gk_peers y c = Some p \<longrightarrow> net_inv (new_deps dp) (gk_daemon y) (handled_on c y) c p \<and> client_side num p)"

lemma gmkit_frame [simp]:
  "gk_daemon (set_peer c p y) = gk_daemon y" "gk_history (set_peer c p y) = gk_history y" "gk_daemon (daemon_to d y) = d"
  "gk_history (daemon_to d y) = gk_history y" "gk_daemon (record_handling h y) = gk_daemon y"
  "gk_history (record_handling h y) = gk_history y @ [h]" "gk_peers (record_handling h y) = gk_peers y"
  "gk_peers (set_peer c p y) = (gk_peers y)(c \<mapsto> p)"
  "gk_peers (daemon_to d y) c = map_option (\<lambda>p. p\<lparr>pe_inbox := inbox_of d c (pe_inbox p)\<rparr>) (gk_peers y c)"
  by (simp_all add: set_peer_def daemon_to_def record_handling_def)

lemma handled_frame [simp]:
  "handled_on c (set_peer c' p y) = handled_on c y" "handled_on c (daemon_to d y) = handled_on c y"
  "handled_on c (record_handling h y) = handled_on c y @ (if ha_conn h = c then [h] else [])"
  by (simp_all add: handled_on_def)

lemma step_knows:
  assumes "daemon_step dp E ev d d'" and "\<And>s l. d = Running s l \<Longrightarrow> daemon_inv dp s l" and "knows d c"
  shows "knows d' c"
proof -
  obtain s l where d: "d = Running s l" using assms(1) by (auto elim: daemon_step.cases)
  show ?thesis
  proof (cases "\<exists>line. ev = Sends c line")
    case True
    then show ?thesis using assms(1,3) by (auto simp: d line_known elim: daemon_step.cases)
  next
    case False
    with step_elsewhere(2) [OF assms(1) [unfolded d] assms(2) [OF d]] assms(3) show ?thesis by (auto simp: d)
  qed
qed

lemma peer_step:
  assumes "gmkit_inv dp num y" and "net_inv (new_deps dp) (gk_daemon y) (handled_on c y) c p \<and> client_side num p"
  shows "gmkit_inv dp num (set_peer c p y)"
  using assms by (simp add: gmkit_inv_def)

text \<open>The daemon moves: all peers but the one whose request it handles.\<close>

lemma daemon_moves:
  assumes inv: "gmkit_inv dp num y" and step: "daemon_step (new_deps dp) E ev (gk_daemon y) d"
  shows "daemon_reach dp d" and "\<forall>h \<in> set (gk_history y). knows d (ha_conn h)"
    and "\<And>c p. gk_peers y c = Some p \<Longrightarrow> (\<And>line. ev \<noteq> Sends c line) \<Longrightarrow>
      net_inv (new_deps dp) d (handled_on c y) c (p\<lparr>pe_inbox := inbox_of d c (pe_inbox p)\<rparr>)
        \<and> client_side num (p\<lparr>pe_inbox := inbox_of d c (pe_inbox p)\<rparr>)"
proof -
  have reach: "daemon_reach dp (gk_daemon y)" using inv by (simp add: gmkit_inv_def)
  then have ok: "gk_daemon y = Running s l \<Longrightarrow> daemon_inv (new_deps dp) s l" for s l by (rule daemon_reach_inv)
  show "daemon_reach dp d" using reach step by (rule daemon_reach.step)
  show "\<forall>h \<in> set (gk_history y). knows d (ha_conn h)" using inv step_knows [OF step ok] by (simp add: gmkit_inv_def)
  fix c p
  assume p: "gk_peers y c = Some p" and other: "\<And>line. ev \<noteq> Sends c line"
  from inv p have "net_inv (new_deps dp) (gk_daemon y) (handled_on c y) c p" "client_side num p" by (simp_all add: gmkit_inv_def)
  from peer_elsewhere [OF this step other ok]
  show "net_inv (new_deps dp) d (handled_on c y) c (p\<lparr>pe_inbox := inbox_of d c (pe_inbox p)\<rparr>)
        \<and> client_side num (p\<lparr>pe_inbox := inbox_of d c (pe_inbox p)\<rparr>)" .
qed

lemma dial_peer:
  assumes step: "daemon_step dp E (Connects c) d d'" and fresh: "\<forall>h \<in> set hs. knows d (ha_conn h)"
  shows "net_inv dp d' (filter (\<lambda>h. ha_conn h = c) hs) c new_peer \<and> client_side num new_peer"
proof -
  obtain s l where d: "d = Running s l" "d' = Running (accept_conn c s) l" and new: "c \<notin> cn_id ` set (sv_conns s @ sv_closed s)"
    using step by (auto elim: daemon_step.cases)
  have "filter (\<lambda>h. ha_conn h = c) hs = []" using fresh new by (auto simp: filter_empty_conv d conn_known_def)
  moreover have "List.find (\<lambda>k. cn_id k = c) (sv_conns s) = None" using new by (auto simp: find_none)
  then have "out_of (accept_conn c s) c = []" by (simp add: out_of_def find_append accept_conn_def)
  moreover have "conn_known c (accept_conn c s)" by (simp add: conn_known_def accept_conn_def)
  ultimately show ?thesis
    by (simp add: net_inv_def client_side_def new_peer_def d(2) client_reach.dial) (simp add: waits_ok_def dialled_def)
qed

lemma gmkit_step_inv:
  assumes "gmkit_step (new_deps dp) num y y'" and inv: "gmkit_inv dp num y"
  shows "gmkit_inv dp num y'"
proof -
  have peers: "net_inv (new_deps dp) (gk_daemon y) (handled_on c y) c p" "client_side num p" if "gk_peers y c = Some p" for c p
    using inv that by (simp_all add: gmkit_inv_def)
  have before: "\<exists>l. daemon_reach dp (Running (ha_before h) l)" if "h \<in> set (gk_history y)" for h
    using inv that by (simp add: gmkit_inv_def)
  from assms(1) show ?thesis
  proof cases
    case (dials E c d)
    note moved = daemon_moves [OF inv dials(2)]
    have "\<forall>h \<in> set (gk_history y). knows (gk_daemon y) (ha_conn h)" using inv by (simp add: gmkit_inv_def)
    from dial_peer [OF dials(2) this, of num]
    have "net_inv (new_deps dp) d (handled_on c y) c new_peer \<and> client_side num new_peer" by (simp add: handled_on_def)
    with moved before show ?thesis by (auto simp: dials(1) gmkit_inv_def)
  next
    case (calls c p m ps)
    with peer_step [OF inv peer_calls [OF peers [OF calls(2)] calls(3-5)]] show ?thesis by simp
  next
    case (handles c p k i m ps s l E d)
    let ?h = "\<lparr>ha_conn = c, ha_request = (i, m, ps), ha_calls = E, ha_before = s\<rparr>"
    note moved = daemon_moves [OF inv handles(6) [folded handles(5)]]
    have "conn_known c s" using handles(6) by (auto elim: daemon_step.cases)
    then have "knows d c" using step_knows [OF handles(6)] daemon_reach_inv inv by (auto simp: gmkit_inv_def handles(5))
    moreover have "net_inv (new_deps dp) d (handled_on c y @ [?h]) c ((take_wire k p)\<lparr>pe_inbox := inbox_of d c (pe_inbox p)\<rparr>)
        \<and> client_side num ((take_wire k p)\<lparr>pe_inbox := inbox_of d c (pe_inbox p)\<rparr>)"
      using peer_handled [OF _ _ handles(3,4,6) refl] peers [OF handles(2)] by (simp add: handles(5))
    moreover have "pe_inbox (take_wire k p) = pe_inbox p" by (simp add: take_wire_def)
    moreover have "daemon_reach dp (Running s l)" using inv handles(5) by (simp add: gmkit_inv_def)
    ultimately show ?thesis using moved before by (auto simp: handles(1) gmkit_inv_def)
  next
    case (reads c p)
    with peer_step [OF inv peer_reads [OF peers [OF reads(2)] reads(3-5)]] show ?thesis by simp
  next
    case (own c p q)
    with peer_step [OF inv peer_own [OF peers [OF own(2)] own(3-5)]] show ?thesis by simp
  next
    case (moves E ev d)
    note moved = daemon_moves [OF inv moves(2)]
    have "ev \<noteq> Sends c line" if "gk_peers y c = Some p" for c p line using moves(3) that by auto
    with moved before show ?thesis by (auto simp: moves(1) gmkit_inv_def)
  qed
qed

lemma gmkit_reach_inv: "gmkit_reach dp num y \<Longrightarrow> gmkit_inv dp num y"
proof (induction rule: gmkit_reach.induct)
  case (start d)
  then show ?case by (simp add: gmkit_inv_def)
qed (rule gmkit_step_inv)

section \<open>What clients can rely on\<close>

lemma answer_ids: "length (filter (answers_call num i) (map marshal (answer_to dp h))) \<le> (if fst (ha_request h) = i then 1 else 0)"
proof (cases "answer_to dp h")
  case (Cons j js)
  then have "js = []" by (auto simp: answer_to_def split: outcome.splits prod.splits)
  moreover have "answers_call num i (marshal j) \<Longrightarrow> fst (ha_request h) = i"
    using answer_line [of j dp h num] Cons by (auto simp: answers_call_def)
  ultimately show ?thesis using Cons by auto
qed simp

lemma answers_count:
  "length (filter (answers_call num i) (map marshal (concat (map (answer_to dp) hs)))) \<le> length (filter (\<lambda>h. fst (ha_request h) = i) hs)"
proof (induction hs)
  case (Cons h hs)
  then show ?case using answer_ids [of num i dp h] by (auto split: if_splits)
qed simp

lemma count_map: "count (mset (map f hs)) i = length (filter (\<lambda>h. f h = i) hs)"
  by (induction hs) auto

lemma handled_once:
  assumes "net_inv dp d hs c p" and "client_side num p"
  shows "length (filter (\<lambda>h. fst (ha_request h) = i) hs) \<le> 1"
proof -
  have sub: "mset (map ha_request hs) \<subseteq># mset (pe_asked p)"
    using assms(1) by (metis net_inv_def mset_subset_eq_add_right)
  have "distinct (map fst (pe_asked p))" using assms(2) by (simp add: client_side_def)
  then have "count (mset (map fst (pe_asked p))) i \<le> 1" by (simp add: distinct_count_atmost_1)
  moreover have "mset (map (fst \<circ> ha_request) hs) \<subseteq># mset (map fst (pe_asked p))"
    using image_mset_subseteq_mono [OF sub, of fst] by (simp add: multiset.map_comp)
  ultimately have "count (mset (map (fst \<circ> ha_request) hs)) i \<le> 1" by (meson mset_subset_eq_count order_trans)
  then show ?thesis by (simp only: count_map comp_def)
qed

lemma lines_once:
  assumes "net_inv dp d hs c p" and "client_side num p"
  shows "length (filter (answers_call num i) (rc_lines (pe_client p))) \<le> 1"
proof -
  let ?P = "\<lambda>j. answers_call num i (marshal j)"
  have lines: "rc_lines (pe_client p) = map marshal (take (pe_seen p) (pe_inbox p))" using assms(2) by (simp add: client_side_def)
  have "length (filter ?P (take (pe_seen p) (pe_inbox p))) \<le> length (filter ?P (pe_inbox p))"
    by (metis append_take_drop_id filter_append le_add1 length_append)
  also have "filter ?P (pe_inbox p) = filter ?P (answered_in (pe_inbox p))"
    using assms(1) push_no_answer unfolding answered_in_def filter_filter by (intro filter_cong refl) (auto simp: net_inv_def)
  also have "length (filter ?P (answered_in (pe_inbox p))) \<le> length (filter ?P (concat (map (answer_to dp) hs)))"
  proof (rule list_emb_length)
    show "subseq (filter ?P (answered_in (pe_inbox p))) (filter ?P (concat (map (answer_to dp) hs)))"
      using assms(1) by (intro subseq_filter) (simp add: net_inv_def)
  qed
  also have "\<dots> \<le> length (filter (\<lambda>h. fst (ha_request h) = i) hs)"
    using answers_count [of num i dp hs] by (simp add: filter_map comp_def)
  also have "\<dots> \<le> 1" by (rule handled_once [OF assms])
  finally show ?thesis by (simp add: lines filter_map comp_def)
qed

lemma reach_peer:
  assumes "gmkit_reach dp num y" and "gk_peers y c = Some p"
  shows "net_inv (new_deps dp) (gk_daemon y) (handled_on c y) c p" and "client_side num p"
  using gmkit_reach_inv [OF assms(1)] assms(2) by (simp_all add: gmkit_inv_def)

text \<open>C6: among any number of clients, other programs, events and faults, a call that returned a result or an error of
  the server was asked by its client, was handled by the daemon in a state it had reached, and returned what
  \<open>dispatch\<close> answered to that very request there; and no request is ever handled twice.\<close>

theorem calls_answered:
  assumes "gmkit_reach dp num y" and "gk_peers y c = Some p"
  shows "(\<forall>i out. rc_calls (pe_client p) i = Some (Returned out) \<and> ((\<exists>v. out = Inr v) \<or> (\<exists>e. out = Inl (ServerError e))) \<longrightarrow>
      (\<exists>m ps h s' r l. (i, m, ps) \<in> set (pe_asked p) \<and> h \<in> set (gk_history y) \<and> ha_conn h = c \<and> ha_request h = (i, m, ps)
        \<and> daemon_reach dp (Running (ha_before h) l)
        \<and> dispatch (new_deps dp) (ha_calls h) c m (map_option clean_json ps) (ha_before h) = Returns (s', r) \<and> out = wire_answer num r))
    \<and> (\<forall>i. length (filter (\<lambda>h. ha_conn h = c \<and> fst (ha_request h) = i) (gk_history y)) \<le> 1)"
proof (intro conjI allI impI)
  note net = reach_peer(1) [OF assms] and cl = reach_peer(2) [OF assms]
  fix i out
  assume out: "rc_calls (pe_client p) i = Some (Returned out) \<and> ((\<exists>v. out = Inr v) \<or> (\<exists>e. out = Inl (ServerError e)))"
  have "client_inv num (pe_client p)" using cl client_reach_inv by (auto simp: client_side_def)
  with out have "call_ok num (rc_lines (pe_client p)) i (Returned out)" by (auto simp: client_inv_def)
  with out obtain rs where "came_for num (rc_lines (pe_client p)) i rs" and rs: "out = outcome_of rs"
    by (fastforce simp: outcome_of_def)
  then obtain l where l: "l \<in> set (rc_lines (pe_client p))" "answers_call num i l" "decode_response num l = Some rs"
    by (auto simp: came_for_def)
  then obtain j where j: "j \<in> set (pe_inbox p)" "l = marshal j" using cl by (auto simp: client_side_def dest: in_set_takeD)
  from inbox_answers [OF net j(1)] l(2) j(2) obtain h where h: "h \<in> set (handled_on c y)" "fst (ha_request h) = i" "j \<in> set (answer_to (new_deps dp) h)"
    by blast
  from answer_line [OF h(3), of num] l(3) j(2) obtain s' r where r: "dispatched (new_deps dp) h = Returns (s', r)" "outcome_of rs = wire_answer num r"
    by auto
  obtain m ps where m: "ha_request h = (i, m, ps)" using h(2) by (cases "ha_request h") auto
  have "h \<in> set (gk_history y)" "ha_conn h = c" using h(1) by (auto simp: handled_on_def)
  moreover have "(i, m, ps) \<in> set (pe_asked p)" using handled_asked [OF net h(1)] m by simp
  moreover obtain l' where "daemon_reach dp (Running (ha_before h) l')"
    using gmkit_reach_inv [OF assms(1)] \<open>h \<in> set (gk_history y)\<close> by (auto simp: gmkit_inv_def)
  ultimately show "\<exists>m ps h s' r l. (i, m, ps) \<in> set (pe_asked p) \<and> h \<in> set (gk_history y) \<and> ha_conn h = c \<and> ha_request h = (i, m, ps)
        \<and> daemon_reach dp (Running (ha_before h) l)
        \<and> dispatch (new_deps dp) (ha_calls h) c m (map_option clean_json ps) (ha_before h) = Returns (s', r) \<and> out = wire_answer num r"
    using m r rs by (intro exI [of _ m] exI [of _ ps] exI [of _ h] exI [of _ s'] exI [of _ r] exI [of _ l']) (auto simp: dispatched_def)
next
  fix i
  show "length (filter (\<lambda>h. ha_conn h = c \<and> fst (ha_request h) = i) (gk_history y)) \<le> 1"
    using handled_once [OF reach_peer [OF assms], of i] by (simp add: handled_on_def conj_commute)
qed

text \<open>C7: no answer is lost and no client hangs: the read loop of a client of the daemon never blocks; a call that waits
  can return at once, or its request is still on the way, or its answer is among what the client has not read yet, or the
  connection is gone; and once the read loop has ended every call that waits can return.\<close>

theorem no_answer_lost:
  assumes "gmkit_reach dp num y" and "gk_peers y c = Some p"
  shows "rc_stuck (pe_client p) = None
    \<and> (\<forall>i m b cl. rc_calls (pe_client p) i = Some (Waiting m b cl) \<longrightarrow> take_response i (pe_client p) \<noteq> None
        \<or> i \<in> fst ` set (pe_wire p) \<or> (\<exists>j \<in> set (drop (pe_seen p) (pe_inbox p)). answers_call num i (marshal j))
        \<or> \<not> open_in (gk_daemon y) c)
    \<and> (\<forall>i m b cl. \<not> rc_reading (pe_client p) \<and> rc_calls (pe_client p) i = Some (Waiting m b cl) \<longrightarrow>
        take_response i (pe_client p) \<noteq> None)"
proof (intro conjI allI impI)
  note net = reach_peer(1) [OF assms] and cl = reach_peer(2) [OF assms]
  have inv: "client_inv num (pe_client p)" using cl client_reach_inv by (auto simp: client_side_def)
  show "rc_stuck (pe_client p) = None"
  proof (rule ccontr)
    assume "rc_stuck (pe_client p) \<noteq> None"
    then obtain i where "2 \<le> length (filter (answers_call num i) (rc_lines (pe_client p)))" using inv by (auto simp: client_inv_def)
    with lines_once [OF net cl, of i] show False by simp
  qed
  show "take_response i (pe_client p) \<noteq> None" if "\<not> rc_reading (pe_client p) \<and> rc_calls (pe_client p) i = Some (Waiting m b cl')" for i m b cl'
    using client_never_hangs [of num "pe_client p" i m b cl'] cl that by (simp add: client_side_def)
  fix i m b cl'
  assume st: "rc_calls (pe_client p) i = Some (Waiting m b cl')"
  show "take_response i (pe_client p) \<noteq> None \<or> i \<in> fst ` set (pe_wire p)
      \<or> (\<exists>j \<in> set (drop (pe_seen p) (pe_inbox p)). answers_call num i (marshal j)) \<or> \<not> open_in (gk_daemon y) c"
  proof (cases "take_response i (pe_client p) = None \<and> i \<notin> fst ` set (pe_wire p) \<and> open_in (gk_daemon y) c")
    case True
    then have b: "b = None" using st by (cases b) (auto simp: take_response_def)
    have waits: "waits_ok num (pe_asked p) (pe_client p)" using cl by (simp add: client_side_def)
    then have "i \<in> fst ` set (pe_asked p)" using st unfolding waits_ok_def by blast
    then obtain a where "a \<in> set (pe_asked p)" "fst a = i" by blast
    moreover have "mset (pe_wire p) + mset (map ha_request (handled_on c y)) = mset (pe_asked p)" using net by (simp only: net_inv_def)
    then have "set (pe_asked p) = set (pe_wire p) \<union> ha_request ` set (handled_on c y)" by (metis set_map set_mset_mset set_mset_union)
    ultimately obtain h where h: "h \<in> set (handled_on c y)" "fst (ha_request h) = i" using True by auto
    have "gk_daemon y \<noteq> Crashed" using True by auto
    then have "answer_to (new_deps dp) h \<noteq> []" using net h(1) by (auto simp: net_inv_def list_all_iff)
    then obtain j where j: "j \<in> set (answer_to (new_deps dp) h)" by (meson list.set_sel(1))
    have "answered_in (pe_inbox p) = concat (map (answer_to (new_deps dp)) (handled_on c y))" using net True by (simp add: net_inv_def)
    with j h(1) have "j \<in> set (answered_in (pe_inbox p))" by auto
    then have "j \<in> set (take (pe_seen p) (pe_inbox p) @ drop (pe_seen p) (pe_inbox p))" by (simp add: answered_in_def)
    moreover have ans: "answers_call num i (marshal j)" using answer_line [OF j, of num] h(2) by (auto simp: answers_call_def)
    have "j \<notin> set (take (pe_seen p) (pe_inbox p))"
    proof
      assume "j \<in> set (take (pe_seen p) (pe_inbox p))"
      then have "marshal j \<in> set (rc_lines (pe_client p))" using cl by (simp add: client_side_def)
      moreover have "list_all (\<lambda>l. \<not> answers_call num i l) (rc_lines (pe_client p))" using waits st b unfolding waits_ok_def by blast
      ultimately show False using ans by (simp add: list_all_iff)
    qed
    ultimately have "j \<in> set (drop (pe_seen p) (pe_inbox p))" by (simp del: append_take_drop_id)
    with ans show ?thesis by blast
  next
    case False
    then show ?thesis by argo
  qed
qed

section \<open>A concrete run\<close>

text \<open>One client of an offline daemon calls \<open>ping\<close>, is answered, reads the answer and returns.\<close>

definition calm_calls :: "unit rpc_calls" where
  "calm_calls = (\<lambda>_. quiet_rpc 5)"

definition ping_result :: "rpc_error + json" where
  "ping_result = handle_ping (new_deps offline_deps) calm_calls (h_db first_client)"

definition ping_handling :: handling where
  "ping_handling = \<lparr>ha_conn = 1, ha_request = (1, ''ping'', None), ha_calls = calm_calls, ha_before = first_client\<rparr>"

definition before_ping :: gmkit where
  "before_ping = set_peer 1 (issue ''ping'' None new_peer)
     (set_peer 1 new_peer (daemon_to (Running first_client False)
       \<lparr>gk_daemon = Running (new_server offline_deps (idle_host fresh_db) Map.empty) False, gk_peers = Map.empty, gk_history = []\<rparr>))"

definition ping_line_out :: json where
  "ping_line_out = response_json (Some (JInt 1)) ping_result"

definition ponged :: peer where
  "ponged = (take_wire 0 (issue ''ping'' None new_peer))\<lparr>pe_inbox := [ping_line_out]\<rparr>"

definition after_ping :: gmkit where
  "after_ping = record_handling ping_handling (daemon_to (Running (write_to 1 ping_line_out first_client) False)
     (set_peer 1 (take_wire 0 (issue ''ping'' None new_peer)) before_ping))"

lemma new_offline [simp]: "dp_client (new_deps offline_deps) = False"
  by (simp add: new_deps_def offline_deps_def)

lemma before_ping_reached: "gmkit_reach offline_deps num before_ping"
proof -
  let ?s0 = "new_server offline_deps (idle_host fresh_db) Map.empty"
  have "daemon_reach offline_deps (Running ?s0 (dp_pump offline_deps))"
    by (rule daemon_reach.start) (simp_all add: idle_host_def h_db_def offline_deps_def)
  then have start: "daemon_reach offline_deps (Running ?s0 False)" by (simp add: offline_deps_def)
  have conn: "daemon_step (new_deps offline_deps) calm_calls (Connects 1) (Running ?s0 False) (Running first_client False)"
    unfolding first_client_def by (rule daemon_step.connects) (simp add: new_server_def server.defs host.defs)
  note y1 = gmkit_reach.step [OF gmkit_reach.start [OF start, of num] gmkit_step.dials, simplified, OF conn]
  have "valid_text ''ping''" by (rule valid_text_ascii) (simp add: byte_of_def)
  from gmkit_reach.step [OF y1 gmkit_step.calls [where m = "''ping''" and ps = None, OF _ this]] show ?thesis
    by (simp add: before_ping_def)
qed

lemma ping_dispatched: "dispatch (new_deps offline_deps) calm_calls 1 ''ping'' None first_client = Returns (first_client, ping_result)"
  by (simp add: dispatch_def ping_result_def Let_def at_def calm_calls_def)

lemma before_ping_peer: "gk_peers before_ping 1 = Some (issue ''ping'' None new_peer)" "gk_daemon before_ping = Running first_client False"
  by (simp_all add: before_ping_def)

lemma ping_wire: "pe_wire (issue ''ping'' None new_peer) = [(1, ''ping'', None)]"
  by (simp add: issue_def new_peer_def dialled_def Let_def)

lemma first_client_conns: "sv_conns first_client = [\<lparr>cn_id = 1, cn_subscribed = False, cn_out = []\<rparr>]" "sv_closed first_client = []"
  by (simp_all add: first_client_def accept_conn_def new_server_def server.defs host.defs)

lemma after_ping_reached: "gmkit_reach offline_deps num after_ping" and after_ping_peer: "gk_peers after_ping 1 = Some ponged"
proof -
  let ?line = "marshal (request_json 1 ''ping'' None)"
  have "?line \<noteq> ''''" by (simp add: request_json_def)
  moreover have "valid_text ''ping''" by (rule valid_text_ascii) (simp add: byte_of_def)
  then have "decode_request ?line = Some \<lparr>rq_id = Some (JInt 1), rq_method = ''ping'', rq_params = None\<rparr>"
    using request_roundtrip [of "''ping''" None 1] by simp
  ultimately have "handle_line (new_deps offline_deps) calm_calls 1 ?line first_client = Returns (write_to 1 ping_line_out first_client)"
    by (simp add: handle_line_def ping_dispatched ping_line_out_def del: One_nat_def)
  then have step: "daemon_step (new_deps offline_deps) calm_calls (Sends 1 ?line) (Running first_client False)
      (Running (write_to 1 ping_line_out first_client) False)"
    by (intro daemon_step.line_ok) (simp_all add: conn_known_def first_client_conns)
  have "gmkit_step (new_deps offline_deps) num before_ping after_ping"
    unfolding after_ping_def ping_handling_def
    by (rule gmkit_step.handles [OF before_ping_peer(1) _ _ before_ping_peer(2) step]) (simp_all add: ping_wire)
  then show "gmkit_reach offline_deps num after_ping" by (rule gmkit_reach.step [OF before_ping_reached])
  have "out_of (write_to 1 ping_line_out first_client) 1 = [ping_line_out]"
  proof -
    have "out_of first_client 1 = []" "conn_open 1 first_client" by (simp_all add: out_of_def conn_open_def first_client_conns)
    then show ?thesis by (simp add: out_of_write)
  qed
  then show "gk_peers after_ping 1 = Some ponged" by (simp add: after_ping_def ponged_def)
qed

lemma ponged_client: "rc_calls (pe_client ponged) 1 = Some (Waiting ''ping'' None False)" "rc_pending (pe_client ponged) = [1]"
  "rc_reading (pe_client ponged)" "rc_stuck (pe_client ponged) = None" "pe_seen ponged = 0" "pe_inbox ponged = [ping_line_out]"
  by (simp_all add: ponged_def take_wire_def issue_def new_peer_def dialled_def start_call_def Let_def)

lemma ping_returns:
  "\<exists>y p out. gmkit_reach offline_deps num y \<and> gk_peers y 1 = Some p \<and> gk_history y = [ping_handling]
     \<and> rc_calls (pe_client p) 1 = Some (Returned out) \<and> ((\<exists>v. out = Inr v) \<or> (\<exists>e. out = Inl (ServerError e)))"
proof -
  let ?p = "take_inbox num ponged" and ?y = "set_peer 1 (take_inbox num ponged) after_ping"
  have read: "gmkit_reach offline_deps num ?y"
    by (rule gmkit_reach.step [OF after_ping_reached gmkit_step.reads [OF after_ping_peer]]) (simp_all add: ponged_client)
  have "sendable ping_result" using dispatch_sendable [OF ping_dispatched] .
  then obtain rs where rs: "decode_response num (marshal ping_line_out) = Some rs" "outcome_of rs = wire_answer num ping_result"
      "decode_probe (marshal ping_line_out) = Some (Some (JInt 1), '''')"
    using response_roundtrip(1) [of ping_result 1] response_roundtrip(2) [of ping_result num 1] by (auto simp: ping_line_out_def)
  have "rc_calls (pe_client ?p) 1 = Some (Waiting ''ping'' (Some rs) False)"
    using read_answer [OF rs(3,1), of "pe_client ponged"] by (simp add: take_inbox_def ponged_client deliver_def)
  then obtain q where q: "take_response 1 (pe_client ?p) = Some q" "rc_calls q 1 = Some (Returned (outcome_of rs))"
      "rc_next q = rc_next (pe_client ?p)" "rc_lines q = rc_lines (pe_client ?p)"
    by (simp add: take_response_def leave_call_def)
  have "gk_peers ?y 1 = Some ?p" by simp
  from gmkit_reach.step [OF read gmkit_step.own [OF this client_step.takes [OF q(1)] q(3,4)]]
  have "gmkit_reach offline_deps num (set_peer 1 (?p\<lparr>pe_client := q\<rparr>) ?y)" .
  moreover have "gk_history ?y = [ping_handling]" by (simp add: after_ping_def before_ping_def)
  moreover have "(\<exists>v. outcome_of rs = Inr v) \<or> (\<exists>e. outcome_of rs = Inl (ServerError e))"
    unfolding rs(2) by (simp add: wire_answer_def split: sum.split)
  ultimately show ?thesis using q(2)
    by (intro exI [of _ "set_peer 1 (?p\<lparr>pe_client := q\<rparr>) ?y"] exI [of _ "?p\<lparr>pe_client := q\<rparr>"] exI [of _ "outcome_of rs"]) simp
qed

theorem calls_answered_witness:
  "\<exists>y p m ps h out. gmkit_reach offline_deps id y \<and> gk_peers y 1 = Some p \<and> (1, m, ps) \<in> set (pe_asked p) \<and> h \<in> set (gk_history y)
     \<and> ha_request h = (1, m, ps) \<and> rc_calls (pe_client p) 1 = Some (Returned out)"
proof -
  obtain y p out where y: "gmkit_reach offline_deps id y" "gk_peers y 1 = Some p" "rc_calls (pe_client p) 1 = Some (Returned out)"
      "(\<exists>v. out = Inr v) \<or> (\<exists>e. out = Inl (ServerError e))"
    using ping_returns by blast
  from calls_answered [OF y(1,2)] y(3,4) obtain m ps h where "(1, m, ps) \<in> set (pe_asked p)" "h \<in> set (gk_history y)"
      "ha_request h = (1, m, ps)" by blast
  with y show ?thesis by blast
qed

theorem no_answer_lost_witness:
  "rc_stuck (pe_client ponged) = None \<and> (\<exists>j \<in> set (drop (pe_seen ponged) (pe_inbox ponged)). answers_call id 1 (marshal j))"
proof -
  have "open_in (gk_daemon after_ping) 1" by (simp add: after_ping_def) (simp add: conn_open_def first_client_conns)
  moreover have "take_response 1 (pe_client ponged) = None" by (simp add: take_response_def ponged_client)
  moreover have "pe_wire ponged = []" by (simp add: ponged_def take_wire_def ping_wire)
  ultimately show ?thesis
    using no_answer_lost [OF after_ping_reached after_ping_peer, of id] ponged_client(1) by (metis empty_iff image_empty list.set(1))
qed

end
