(* ===== verification/Send_Policy.thy ===== *)
theory Send_Policy
  imports Rpc_Facts
begin

text \<open>
  The daemon's policy on sending: whatever happens to it, the phone is asked to send a message or a reaction
  only in the step that handles a client's request for it, with what was asked for, and as the send mode allows.
\<close>

section \<open>What the phone was asked to do\<close>

text \<open>What a request may make the phone do, given the send mode and the store.\<close>

definition asked_by :: "string \<Rightarrow> string \<Rightarrow> (string \<times> json) list \<Rightarrow> db \<Rightarrow> phone_call list \<Rightarrow> bool" where
  "asked_by mode m fs d cs \<longleftrightarrow>
     (if m = ''send.react'' then mode \<noteq> ''off'' \<and> cs = [CallReact (get_string fs ''message_id'') (get_string fs ''emoji'')
          (if get_bool fs ''remove'' then reaction_remove else reaction_add)]
      else if m = ''send.text'' then mode \<notin> {''off'', ''approve''}
        \<and> sent_as (get_string fs ''conversation_id'') (get_string fs ''body'') (get_string fs ''reply_to_id'') cs
      else m = ''approvals.approve'' \<and> mode \<noteq> ''off'' \<and> (\<exists>a \<in> set (approvals d). ap_id a = get_string fs ''approval_id''
        \<and> ap_status a = ''pending'' \<and> sent_as (ap_conv a) (ap_body a) (coalesce (ap_reply a) '''') cs))"

text \<open>What a transition logs, on condition that it is quiet or else as described.\<close>

definition logs :: "'a host_scheme \<Rightarrow> 'a host_scheme \<Rightarrow> (phone_call list \<Rightarrow> bool) \<Rightarrow> bool" where
  "logs s s' P \<longleftrightarrow> (\<exists>cs. h_log s' = h_log s @ cs \<and> (quiet cs \<or> P cs))"

lemma logs_same: "h_log s' = h_log s \<Longrightarrow> logs s s' P"
  by (simp add: logs_def)

lemma logs_mono: "logs s s' P \<Longrightarrow> (\<And>cs. P cs \<Longrightarrow> Q cs) \<Longrightarrow> logs s s' Q"
  unfolding logs_def by blast

lemma logs_frame: "logs s s1 P \<Longrightarrow> h_log s2 = h_log s1 \<Longrightarrow> logs s s2 P"
  by (simp add: logs_def)

text \<open>Steps that do not look at the send mode are those of a silent daemon.\<close>

abbreviation silenced :: "deps \<Rightarrow> deps" where
  "silenced dp \<equiv> dp\<lparr>dp_mode := send_off\<rparr>"

lemma silenced_logs: "step_ok (silenced dp) s s' \<Longrightarrow> logs s s' P"
  unfolding step_ok_def logs_def by auto

section \<open>The handlers\<close>

lemma send_text_logs: "send_text e conv body reply h = (h', r) \<Longrightarrow> logs h h' (sent_as conv body reply)"
  using send_text_calls unfolding logs_def by blast

lemma perform_calls:
  assumes "perform_approved_send dp E a s = (s', r)"
  shows "logs s s' (sent_as (ap_conv a) (ap_body a) (coalesce (ap_reply a) ''''))"
  using assms unfolding perform_approved_send_def
  by (auto split: sum.splits if_splits prod.splits option.splits intro: logs_same logs_frame [OF send_text_logs])

lemma decoded_object: "decode_params e decl params = Inr fs \<Longrightarrow> fs \<noteq> [] \<Longrightarrow> params = Some (JObj fs)"
  by (auto simp: decode_params_def split: option.splits json.splits if_splits)

lemma no_field [simp]: "get_string [] k = ''''"
  by (simp add: get_string_def obj_values_def)

lemma react_calls:
  assumes "handle_send_react dp E params s = (s', r)"
  shows "logs s s' (\<lambda>cs. \<exists>fs. params = Some (JObj fs) \<and> asked_by (dp_mode dp) ''send.react'' fs d cs)"
proof (cases "s' = s")
  case False
  then obtain fs where dec: "decode_params (here E) [(''message_id'', KString), (''emoji'', KString), (''remove'', KBool)] params = Inr fs"
    using assms by (auto simp: handle_send_react_def split: sum.splits)
  with False assms have "get_string fs ''message_id'' \<noteq> ''''" "dp_mode dp \<noteq> send_off"
      "h_log s' = h_log s @ [CallReact (get_string fs ''message_id'') (get_string fs ''emoji'')
        (if get_bool fs ''remove'' then reaction_remove else reaction_add)]"
    by (auto simp: handle_send_react_def Let_def send_reaction_def split: if_splits option.splits)
  moreover from this(1) have "params = Some (JObj fs)" using decoded_object [OF dec] by (metis no_field)
  ultimately show ?thesis by (simp add: logs_def asked_by_def send_off_def)
qed (simp add: logs_same)

lemma send_calls:
  assumes "handle_send_text dp E params s = (s', r)"
  shows "logs s s' (\<lambda>cs. \<exists>fs. params = Some (JObj fs) \<and> asked_by (dp_mode dp) ''send.text'' fs d cs)"
proof (cases "h_log s' = h_log s")
  case False
  obtain fs where dec: "decode_params (here E) [(''conversation_id'', KString), (''body'', KString), (''reply_to_id'', KString),
      (''requested_by'', KString)] params = Inr fs"
    using assms False by (auto simp: handle_send_text_def split: sum.splits)
  let ?p = "proposal fs (rv_uuid (here E))"
  obtain d1 x where cr: "create_approval (here (at E 0)) ?p (h_db s) = (d1, x)" by fastforce
  from assms False dec cr obtain a where got: "get_approval (here (at E 1)) (rv_uuid (here E)) d1 = Inr a"
      and run: "perform_approved_send dp (at E 2) a (put_db d1 s) = (s', r)" and x: "x = None"
      and mode: "dp_mode dp \<noteq> send_off" "dp_mode dp \<noteq> send_approve" and conv: "get_string fs ''conversation_id'' \<noteq> ''''"
    by (auto simp: handle_send_text_def split: if_splits sum.splits option.splits)
  have "a \<in> set (approvals d1)" "ap_id a = ap_id ?p" using get_approval_Inr [OF got] by (simp_all add: proposal_def)
  moreover from cr x have "ap_id ?p \<notin> ap_id ` set (approvals (h_db s))"
      "\<exists>b. approvals d1 = approvals (h_db s) @ [b] \<and> ap_conv b = ap_conv ?p \<and> ap_body b = ap_body ?p \<and> ap_reply b = ap_reply ?p"
    by (auto simp: create_approval_def split: if_splits option.splits)
  ultimately have row: "ap_conv a = ap_conv ?p" "ap_body a = ap_body ?p" "ap_reply a = ap_reply ?p"
    by (force intro: rev_image_eqI)+
  have "params = Some (JObj fs)" using decoded_object [OF dec] conv by (metis no_field)
  moreover have "logs s s' (sent_as (get_string fs ''conversation_id'') (get_string fs ''body'') (get_string fs ''reply_to_id''))"
    using perform_calls [OF run] row by (simp add: logs_def proposal_def coalesce_def split: if_splits)
  ultimately show ?thesis using mode by (auto simp: asked_by_def send_off_def send_approve_def elim: logs_mono)
qed (simp add: logs_same)

lemma approve_calls:
  assumes "handle_approvals_approve dp E params s = (s', r)"
  shows "logs s s' (\<lambda>cs. \<exists>fs. params = Some (JObj fs) \<and> asked_by (dp_mode dp) ''approvals.approve'' fs (h_db s) cs)"
proof (cases "h_log s' = h_log s")
  case False
  obtain fs where dec: "decode_params (here E) [(''approval_id'', KString), (''reason'', KString)] params = Inr fs"
    using assms False by (auto simp: handle_approvals_approve_def split: sum.splits)
  let ?aid = "get_string fs ''approval_id''"
  from assms False dec obtain a where got: "get_approval (here (at E 0)) ?aid (h_db s) = Inr a" and st: "ap_status a = approval_pending"
      and run: "perform_approved_send dp (at E 1) a s = (s', r)" and mode: "dp_mode dp \<noteq> send_off" and aid: "?aid \<noteq> ''''"
    by (auto simp: handle_approvals_approve_def Let_def split: if_splits sum.splits)
  have "params = Some (JObj fs)" using decoded_object [OF dec] aid by (metis no_field)
  then show ?thesis
    using perform_calls [OF run] get_approval_Inr [OF got] st mode
    by (auto simp: asked_by_def send_off_def approval_pending_def elim!: logs_mono)
qed (simp add: logs_same)

lemma dispatch_calls:
  assumes "dispatch dp E i m params s = Returns (s', r)"
  shows "logs s s' (\<lambda>cs. \<exists>fs. params = Some (JObj fs) \<and> asked_by (dp_mode dp) m fs (h_db s) cs)" (is "logs s s' ?P")
proof -
  have quiet: "step_ok (silenced dp) s s' \<Longrightarrow> ?thesis" by (rule silenced_logs)
  have blind: "handle_sync_refresh dp = handle_sync_refresh (silenced dp)" "handle_auth_pair dp = handle_auth_pair (silenced dp)"
      "handle_auth_pair_google dp = handle_auth_pair_google (silenced dp)" "handle_media_download dp = handle_media_download (silenced dp)"
      "handle_history_backfill dp = handle_history_backfill (silenced dp)" "handle_history_lookup dp = handle_history_lookup (silenced dp)"
    by (intro ext; simp add: handle_sync_refresh_def handle_auth_pair_def handle_auth_pair_google_def handle_media_download_def
      handle_history_backfill_def handle_history_lookup_def start_pairing_def media_path_def Let_def
      cong: if_cong sum.case_cong outcome.case_cong option.case_cong prod.case_cong)+
  consider "m = ''send.react''" | "m = ''send.text''" | "m = ''approvals.approve''"
    | "m \<noteq> ''send.react''" "m \<noteq> ''send.text''" "m \<noteq> ''approvals.approve''" by blast
  then show ?thesis
  proof cases
    case 1 with assms react_calls show ?thesis by (simp add: dispatch_def)
  next
    case 2 with assms send_calls show ?thesis by (simp add: dispatch_def)
  next
    case 3 with assms approve_calls show ?thesis by (simp add: dispatch_def)
  next
    case 4
    with assms have "step_ok (silenced dp) s s'" unfolding dispatch_def Let_def blind
      by (auto split: if_splits intro: refresh_handler_ok pair_handler_ok pair_google_handler_ok media_ok alias_set_ok
          alias_rm_ok history_backfill_ok history_lookup_ok deny_handler_ok)
    then show ?thesis by (rule quiet)
  qed
qed

lemma line_calls:
  assumes "handle_line dp E i line s = Returns s'"
  shows "logs s s' (\<lambda>cs. \<exists>rq fs. decode_request line = Some rq \<and> rq_params rq = Some (JObj fs)
    \<and> asked_by (dp_mode dp) (rq_method rq) fs (h_db s) cs)"
proof (cases "h_log s' = h_log s")
  case False
  with assms obtain rq s1 r where rq: "decode_request line = Some rq"
      and run: "dispatch dp E i (rq_method rq) (rq_params rq) s = Returns (s1, r)" and log: "h_log s' = h_log s1"
    by (auto simp: handle_line_def split: if_splits option.splits outcome.splits prod.splits)
  from logs_frame [OF dispatch_calls [OF run] log] show ?thesis by (rule logs_mono) (use rq in auto)
qed (simp add: logs_same)

section \<open>The daemon\<close>

lemma silenced_phone: "phone_event dp E ev s = phone_event (silenced dp) E ev s"
  by (simp add: phone_event_def client_event_def cong: gm_event.case_cong)

lemma silenced_task: "run_task dp E t s = run_task (silenced dp) E t s"
  by (cases t) (simp_all add: run_pairing_def run_google_pairing_def)

lemma step_calls:
  assumes "daemon_step dp E ev (Running s l) (Running s' l')" and "daemon_inv dp s l"
  shows "logs s s' (\<lambda>cs. \<exists>i line rq fs. ev = Sends i line \<and> decode_request line = Some rq
    \<and> rq_params rq = Some (JObj fs) \<and> asked_by (dp_mode dp) (rq_method rq) fs (h_db s) cs)" (is "logs s s' ?P")
proof -
  have silent: "step_ok (silenced dp) s s' \<Longrightarrow> ?thesis" by (rule silenced_logs)
  from assms(1) show ?thesis
  proof (cases rule: running_step [consumes 1, case_names connects line_ok line_crash leaves timer phone task import_runs connect_fails turn exit])
    case (connects i)
    then show ?thesis by (simp add: logs_same accept_conn_def)
  next
    case (line_ok i line sx)
    have "logs s sx ?P" by (rule logs_mono [OF line_calls [OF line_ok(4)]]) (simp add: line_ok(1))
    with line_ok(2) show ?thesis by simp
  next
    case (leaves i)
    then show ?thesis by (simp add: logs_same drop_conn_def Let_def)
  next
    case timer
    then show ?thesis by (simp add: logs_same timer_fires_def)
  next
    case (phone ev')
    with phone_event_ok [of "silenced dp" s E ev'] silenced_phone [of dp E ev' s] show ?thesis by (intro silent) simp
  next
    case (task k)
    have "tasks_ok (silenced dp) s" using assms(2) by (simp add: daemon_inv_def tasks_ok_def)
    from task_step_ok [OF this task(3), of E] task(2) silenced_task [of dp E "sv_tasks s ! k" "take_task k s"] show ?thesis by (intro silent) simp
  next
    case import_runs
    with startup_import_ok [of "silenced dp" s E] show ?thesis by (intro silent) simp
  next
    case (turn w sx lx)
    have "dp_client (silenced dp)" if "w = WakeFatal" using turn that assms(2) by (simp add: may_wake_def daemon_inv_def)
    from serve_turn_ok [OF turn(4) this] turn(2) show ?thesis by (intro silent) simp
  qed simp_all
qed


text \<open>Reactions skip the queue: in approve mode one reaches the phone without anyone's approval.\<close>

lemma reaction_skips_queue:
  assumes "dp_mode dp = ''approve''" and "dp_client dp" and "mid \<noteq> ''''" and "emoji \<noteq> ''''"
  shows "h_log (fst (handle_send_react dp E (Some (JObj [(''message_id'', JStr mid), (''emoji'', JStr emoji)])) s))
    = h_log s @ [CallReact mid emoji reaction_add]"
proof -
  have "decode_params (here E) [(''message_id'', KString), (''emoji'', KString), (''remove'', KBool)]
      (Some (JObj [(''message_id'', JStr mid), (''emoji'', JStr emoji)])) = Inr [(''message_id'', JStr mid), (''emoji'', JStr emoji)]"
    by (simp add: decode_params_def fields_ok_def obj_values_def ascii_fold_def)
  with assms show ?thesis
    by (simp add: handle_send_react_def get_string_def get_bool_def obj_values_def ascii_fold_def send_off_def send_reaction_def Let_def
        split: option.split)
qed

section \<open>An approval over the wire\<close>

definition approve_line :: string where
  "approve_line = ''{'' @ [CHR 34] @ ''id'' @ [CHR 34] @ '':1,'' @ [CHR 34] @ ''method'' @ [CHR 34] @ '':'' @ [CHR 34]
     @ ''approvals.approve'' @ [CHR 34] @ '','' @ [CHR 34] @ ''params'' @ [CHR 34] @ '':{'' @ [CHR 34] @ ''approval_id''
     @ [CHR 34] @ '':'' @ [CHR 34] @ ''a1'' @ [CHR 34] @ ''}}''"

lemma approve_line_decodes: "decode_request approve_line = Some \<lparr>rq_id = Some (JInt 1), rq_method = ''approvals.approve'',
    rq_params = Some (JObj [(''approval_id'', JStr ''a1'')])\<rparr>"
  by code_simp

lemma quiet_rpc_phone [simp]:
  "ph_settings (quiet_rpc t) = Inr [\<lparr>sim_participant = ''me'', sim_payload = Some ''sim''\<rparr>]" "ph_uuid (quiet_rpc t) = ''u1''"
  "ph_get_conversation (quiet_rpc t) cid = Inr (sample_gm_conversation\<lparr>gc_id := cid\<rparr>)" "ph_send (quiet_rpc t) req = Inr StSuccess"
  "ph_echo (quiet_rpc t) tmp = Inr (''m9'', ''c1'')"
  by (simp_all add: quiet_rpc_def quiet_phone_def quiet_env_def env.defs phone_env.defs rpc_env.defs)

lemma approving_reached: "daemon_reach approving_deps (Running (accept_conn 1 (a_server approval_db)) True)"
proof -
  have "daemon_reach approving_deps (Running (a_server approval_db) (dp_pump approving_deps))"
    unfolding a_server_def by (rule daemon_reach.start) (simp_all add: idle_host_def h_db_def approving_deps_def)
  then have "daemon_reach approving_deps (Running (accept_conn 1 (a_server approval_db)) (dp_pump approving_deps))"
    by (rule daemon_reach.step [OF _ daemon_step.connects [where E = "\<lambda>_. quiet_rpc 5"]])
      (simp add: a_server_def new_server_def server.defs host.defs)
  then show ?thesis by (simp add: approving_deps_def)
qed

lemma approving_mode: "dp_mode (new_deps approving_deps) = ''approve''" "dp_client (new_deps approving_deps)"
  by (simp_all add: approving_deps_def new_deps_def)

text \<open>The line approves the stored proposal, and its text leaves once.\<close>

lemma approve_line_sends:
  "\<exists>s' before req. handle_line (new_deps approving_deps) (\<lambda>_. quiet_rpc 5) 1 approve_line (accept_conn 1 (a_server approval_db)) = Returns s'
    \<and> h_log s' = before @ [CallSend req]"
proof -
  let ?s = "accept_conn 1 (a_server approval_db)" and ?E = "\<lambda>_. quiet_rpc 5" and ?dp = "new_deps approving_deps"
  let ?a = "sample_approval\<lparr>ap_status := ''pending'', ap_created_at := 5, ap_updated_at := 5\<rparr>"
  have s: "h_db ?s = approval_db" "h_log ?s = []" "h_settings ?s = None"
    by (simp_all add: accept_conn_def a_server_def new_server_def server.defs host.defs idle_host_def h_db_def)
  have got: "get_approval (quiet_rpc 5) ''a1'' approval_db = Inr ?a"
    by (simp add: get_approval_eq approval_db_rows sample_approval_def)
  have env: "here (at ?E k) = quiet_rpc 5" "at ?E k = ?E" "here ?E = quiet_rpc 5" for k
    by (simp_all add: here_def at_def)
  obtain s' r where run: "perform_approved_send ?dp ?E ?a ?s = (s', r)" by fastforce
  have "dispatch ?dp ?E 1 ''approvals.approve'' (Some (JObj [(''approval_id'', JStr ''a1'')])) ?s = Returns (s', r)"
    using got run by (simp add: dispatch_def env handle_approvals_approve_def decode_params_def s approving_mode send_off_def
        approval_pending_def get_string_def obj_values_def fields_ok_def sample_approval_def Let_def del: One_nat_def)
  moreover have "\<exists>before req. h_log s' = before @ [CallSend req]"
  proof -
    have "\<exists>r h1 before req. send_text (quiet_rpc 5) ''c1'' ''hi'' '''' ?s = (h1, r) \<and> h_db h1 = approval_db \<and> h_log h1 = before @ [CallSend req]"
      by (simp add: send_text_def wait_for_settings_def s build_send_text_request_def sim_for_participant_def sample_gm_conversation_def
          Let_def logged_def h_db_def s [unfolded h_db_def] del: One_nat_def)
    then show ?thesis using run got by (auto simp: perform_approved_send_def env s approving_mode approval_pending_def sample_approval_def
        coalesce_def simp del: One_nat_def split: prod.splits option.splits sum.splits)
  qed
  moreover have "approve_line \<noteq> ''''" by (simp add: approve_line_def)
  ultimately show ?thesis by (auto simp: handle_line_def approve_line_decodes)
qed


end
