(* ===== verification/Spec2Isabelle.thy ===== *)
theory Spec2Isabelle
  imports Approval_Live Store_Open Cli_Live_Facts Whole_System Send_Policy
begin

text \<open>
  A verification development for gmkit, a command-line client and daemon for Google Messages written in
  Go: an SQLite archive, a client of the phone through libgm, a pump that stores the phone's events, and a
  daemon that serves the archive and the phone to other programs as JSON-RPC over a unix socket, with a
  queue of proposed messages that a human approves before they are sent.

  \<^bold>\<open>How Go is represented.\<close> Go strings are HOL strings, one character per byte (\<open>Go_Text\<close>: UTF-8
  decoding and encoding, white space, ASCII folding; what Unicode's tables say beyond ASCII are fields of the
  record \<open>unicode\<close>). Errors are values of \<open>err\<close> (\<open>Store_Schema\<close>): sentinel errors, driver errors, and
  the \<open>%w\<close> chain, with \<open>err_text\<close> for \<open>Error()\<close> and \<open>err_is\<close> for \<open>errors.Is\<close>; a Go pair of a
  value and an error is a sum. A panic is the value \<open>Panics\<close> of \<open>outcome\<close>. Go integers that the program
  only compares, adds to and stores are \<open>int\<close>; where a width matters (JSON numbers, limits) the bound is
  written out. What a call meets outside the program is an environment record passed in: \<open>env\<close> (clock,
  the driver's faults per statement, the order in which SQLite visits rows, the FTS5 matcher), \<open>phone_env\<close>
  (what libgm and the phone answer), \<open>pair_env\<close> (the partners of pairing and the file system under
  \<open>saveAuth\<close>), \<open>rpc_env\<close> (ids, times, error texts of the decoder). A procedure that makes several calls
  takes a tree of environments, \<open>at E k\<close> for its \<open>k\<close>-th call, so that the clock may advance and faults may
  come at any one of them.

  \<^bold>\<open>The theories\<close>, in the order they build on one another:

  \<^item> \<open>GM_Prelude\<close>, \<open>Go_Text\<close>, \<open>Go_Json\<close>, \<open>Go_Path\<close>: collections of facts; strings; JSON values,
    \<open>encoding/json\<close>'s parser (fuel: the length of the input, each call consumes a byte) and printer;
    \<open>path/filepath\<close>'s \<open>Clean\<close> and \<open>Join\<close>.
  \<^item> \<open>Sql_Table\<close>: tables as lists of rows, \<open>INSERT ... ON CONFLICT\<close>, \<open>UPDATE\<close>, \<open>DELETE\<close>,
    \<open>SELECT ... ORDER BY ... LIMIT\<close> over the rows in the order they are visited, \<open>LIKE\<close>, and \<open>page_of\<close>,
    what a limited and ordered listing promises. The locales \<open>keyed_table\<close>, \<open>overwriting_table\<close>,
    \<open>idempotent_table\<close> and \<open>keeping_table\<close> state the contract of an upsert; each table of the store is an
    interpretation.
  \<^item> \<open>Store_Schema\<close> (\<open>internal/store/store.go\<close>, \<open>schema.go\<close>): the database as a record of tables, the
    invariant \<open>db_ok\<close> (keys unique, messages in known conversations, the full-text index in step),
    migrations and the freshness row. \<open>Store_Open\<close>: \<open>Open\<close> and the data source name.
  \<^item> \<open>Store_Aliases\<close>, \<open>Store_Conversations\<close>, \<open>Store_Contacts\<close>, \<open>Store_Messages\<close>, \<open>Store_Approvals\<close>,
    \<open>Store_Search\<close> (the files of the same names): every method of \<open>Store\<close>; for each, that \<open>db_ok\<close>
    is kept, and what it stores, returns and reports. The locale \<open>once_queue\<close> is the contract of a
    queue whose keys are resolved at most once; \<open>ResolveApproval\<close> provides it.
  \<^item> \<open>Sync_Pump\<close> (\<open>internal/sync/sync.go\<close>): conversion of libgm's messages and conversations to rows, the
    handling of every event, imports, and the channel of fatal errors, which holds one.
  \<^item> \<open>Gm_Client\<close>, \<open>Gm_Session\<close>, \<open>Gm_Cookies\<close> (\<open>internal/gm\<close>): sending, reactions, media, event
    dispatch and watchers; the session file, replaced through a temporary file, and the two pairing flows;
    the parser of pasted Google cookies.
  \<^item> \<open>History\<close> (\<open>internal/history/history.go\<close>): the backfill loop (at most the requested number of pages).
    \<open>Initial_Import\<close> (\<open>internal/cmd/sync.go\<close>): what is fetched once connected.
  \<^item> \<open>Rpc_Protocol\<close>, \<open>Rpc_Server\<close>, \<open>Rpc_Handlers\<close> (\<open>internal/rpc\<close>): messages and codes; the server's
    state (connections, idle timer, flags, running tasks), broadcasts and event translation; \<open>dispatch\<close> with
    every handler, and the background refresh and pairing tasks.
  \<^item> \<open>Daemon\<close>: \<open>serverConn.run\<close> over the bytes of a connection, and \<open>gmcli serve\<close>
    (\<open>internal/cmd/serve.go\<close>): mode and idle flags, the wiring of events and the main loop, put together
    as the relation \<open>daemon_step\<close>, whose events are connects, request lines, disconnects, timers, phone
    events, tasks and turns of the loop.
  \<^item> \<open>Daemon_Safety\<close>, \<open>Rpc_Facts\<close>, \<open>Send_Policy\<close>: invariants of the reachable daemons, what a daemon that is read-only or
    offline cannot do, the behaviour of single requests, and in which steps anything leaves through the phone.
  \<^item> \<open>Approval_Live\<close>: the sending path cut into the stages between which other goroutines may run, proved to
    be the handler when nothing comes between, and its behaviour under every interleaving.
  \<^item> \<open>Json_Wire\<close>, \<open>Rpc_Client\<close>, \<open>Rpc_Client_Facts\<close> (\<open>internal/rpc/client.go\<close>): JSON as it is printed and read
    back; the client's calls, its read loop and the end of its connection as the step relation \<open>client_step\<close>;
    a call against the daemon and back, bytes included.
  \<^item> \<open>Whole_System\<close>: the daemon put together with any number of those clients and with other programs on its socket, as the
    relation \<open>gmkit_step\<close>: requests in flight, handled in any order, lines written and not yet read, and beside the
    state a history of the requests that were handled.
  \<^item> \<open>Paths\<close>, \<open>Go_Duration\<close>, \<open>Daemon_Control\<close> (\<open>internal/paths\<close>, \<open>internal/daemonctl\<close>): where the files lie,
    Go durations as text, and starting the daemon when none answers.
  \<^item> \<open>Mcp\<close>, \<open>Mcp_Facts\<close> (\<open>internal/cmd/mcp.go\<close>): the tools offered to assistants, each from its arguments
    through the calls it makes to what it answers.
  \<^item> \<open>Cli_Output\<close>, \<open>Cli_Query\<close>, \<open>Cli_Facts\<close> (\<open>internal/output\<close>, \<open>internal/notify\<close>, \<open>internal/cmd\<close>): what
    the commands print, those that read the archive and keep aliases, and desktop notifications.
  \<^item> \<open>Cli_Live\<close>, \<open>Cli_Admin\<close>, \<open>Cli_Live_Facts\<close> (\<open>internal/cmd\<close>, \<open>internal/logging\<close>, \<open>cmd/gmcli\<close>): the commands that
    talk to the phone (\<open>send\<close>, \<open>history\<close>, \<open>media\<close>, \<open>sync\<close>), the start of \<open>serve\<close> up to its listening socket, which
    gives the first state of \<open>daemon_step\<close>, and \<open>approvals\<close>, \<open>auth\<close>, \<open>doctor\<close> and \<open>version\<close>. The locale \<open>polling\<close>
    (\<open>GM_Prelude\<close>) is the contract of a loop that looks, sleeps and looks again until a deadline; waiting for a
    daemon to come and waiting for one to go are interpretations.

  \<^bold>\<open>What is shown.\<close> The store keeps \<open>db_ok\<close> under every operation and fault; what is written reads back;
  listings are exactly the pages they promise; migrations leave a prefix of the schema. Search answers only
  stored messages in scope, whichever of its three tiers answers. The pump's freshness moves forward only and
  it never blocks. Cookie input is accepted only when complete, and ASCII input never panics. The session file
  is replaced as a whole or not at all. Nothing leaves through the phone but what a request asks for, as the send mode
  allows; in approve mode no message without an approval. Requests are answered exactly once. An approval is sent at most
  once whatever the interleaving, provided the store records outcomes; the model also exhibits the two ways in
  which the queue's promise is weaker than it looks: a denial that comes while the message is on its way, and a
  failure to record a send. The daemon's answers have the type its clients expect. With any number of clients, a call
  returns what the daemon answered to that very request, no request is handled twice, no answer is lost, the read loops
  never block, and no call hangs once its connection has ended. Starting the daemon ends within its time-out.
  What an assistant is told about a message is what happened to it; the tools, the commands and the daemon's
  methods agree on what they read from the archive. A command makes the phone send at most what its arguments
  say and only with leave to write; \<open>serve\<close> starts a daemon no more permissive than its flags; stopping a daemon ends;
  \<open>doctor\<close> tells the state of the installation as it is.

  \<^bold>\<open>Granularity.\<close> In \<open>daemon_step\<close> a request runs to its end in one step; the requests of a connection may be handled in any
  order, also after it has closed, as their goroutines may. The finer interleaving is
  modelled where the code guards against it, on the sending path (\<open>Approval_Live\<close>). Other handlers make at
  most one change to the store each, or hold \<open>liveMu\<close>. The initial import is one step, which may come at any time of a
  daemon's life; a failing connection ends it. Time-outs appear as errors the phone reports. A command of \<open>Cli_Live\<close>
  takes the events that arrive while it connects, and \<open>sync --follow\<close> those that come later; during the body of the
  other commands none are interleaved.

  \<^bold>\<open>Bounds and fuel.\<close> The parser of JSON takes the length of its input, each call of it consumes a byte. The loops that
  poll take a number of turns; \<open>ensure_running_returns\<close> and \<open>stop_daemon_ends\<close> show how many are enough when the
  clock runs. Every other loop is structural or has its measure.

  \<^bold>\<open>Not modelled.\<close> The SQLite driver and the text of SQL statements; libgm and zerolog themselves; cobra's command trees,
  the reading of flags, and signals, which appear as the events they cause; the layout of tables by
  \<open>text/tabwriter\<close> and the indentation of printed JSON; the log lines; and gmtui, a separate program in Rust.
\<close>

end
